(* ===== verification/Prelude.thy ===== *)
theory Prelude
  imports Main "HOL-Library.Word" "HOL-Library.AList"
begin

text \<open>
  Shared vocabulary of the development: the machine integer types of the Rust sources, byte
  order, slices of byte buffers, the association-list model of the standard library's hash
  maps, and the generic lemmas the components use. Nothing here models code of the repository
  itself; it models what the sources use of the Rust language and its standard library.
\<close>

unbundle bit_operations_syntax

named_theorems const_defs \<open>the definitions of the named constants of the sources\<close>

type_synonym u8 = "8 word"
type_synonym u16 = "16 word"
type_synonym u32 = "32 word"
type_synonym u64 = "64 word"

text \<open>
  A traffic-control classifier returns an \<open>i32\<close>, the kernel's verdict: 0 accepts the packet, 2
  (\<open>TC_ACT_SHOT\<close>) drops it, 7 redirects it. The sources name the first one only.
\<close>

type_synonym tc_action = "32 word"

definition TC_ACT_OK :: tc_action where
  "TC_ACT_OK = 0"

section \<open>Byte order\<close>

text \<open>
  \<open>from_ne_bytes\<close> and \<open>to_be\<close> depend on the machine. The byte order is a parameter, so every
  theorem holds on both.
\<close>

datatype endian = LittleEndian | BigEndian

text \<open>The arrays \<open>[u8; 2]\<close>, \<open>[u8; 4]\<close> and \<open>[u8; 6]\<close>.\<close>

type_synonym bytes2 = "u8 \<times> u8"
type_synonym bytes4 = "u8 \<times> u8 \<times> u8 \<times> u8"
type_synonym mac = "u8 \<times> u8 \<times> u8 \<times> u8 \<times> u8 \<times> u8"

fun u16_from_be_bytes :: "bytes2 \<Rightarrow> u16" where
  "u16_from_be_bytes (a, b) = (push_bit 8 (ucast a)) OR ucast b"

definition u16_to_be_bytes :: "u16 \<Rightarrow> bytes2" where
  "u16_to_be_bytes w = (ucast (drop_bit 8 w), ucast w)"

fun u16_from_ne_bytes :: "endian \<Rightarrow> bytes2 \<Rightarrow> u16" where
  "u16_from_ne_bytes BigEndian (a, b) = u16_from_be_bytes (a, b)"
| "u16_from_ne_bytes LittleEndian (a, b) = u16_from_be_bytes (b, a)"

fun u32_from_be_bytes :: "bytes4 \<Rightarrow> u32" where
  "u32_from_be_bytes (a, b, c, d) =
     (push_bit 24 (ucast a)) OR (push_bit 16 (ucast b)) OR (push_bit 8 (ucast c)) OR ucast d"

fun u32_from_ne_bytes :: "endian \<Rightarrow> bytes4 \<Rightarrow> u32" where
  "u32_from_ne_bytes BigEndian (a, b, c, d) = u32_from_be_bytes (a, b, c, d)"
| "u32_from_ne_bytes LittleEndian (a, b, c, d) = u32_from_be_bytes (d, c, b, a)"

text \<open>\<open>u16::to_be\<close>: the integer whose native representation is the big-endian one.\<close>

definition u16_to_be :: "endian \<Rightarrow> u16 \<Rightarrow> u16" where
  "u16_to_be e w = u16_from_ne_bytes e (u16_to_be_bytes w)"

lemma bit_u8_beyond [simp]: "\<not> bit (a :: u8) (8 + n)"
  using bit_imp_le_length [of a "8 + n"] by auto

lemma u16_be_bytes_roundtrip [simp]: "u16_from_be_bytes (u16_to_be_bytes w) = w"
  by (rule bit_word_eqI)
    (auto simp: u16_to_be_bytes_def bit_simps)

lemma u16_to_be_bytes_from [simp]: "u16_to_be_bytes (u16_from_be_bytes b) = b"
  by (cases b)
    (auto simp: u16_to_be_bytes_def bit_simps intro!: bit_word_eqI)

lemma u32_from_be_bytes_inj:
  assumes "u32_from_be_bytes p = u32_from_be_bytes q"
  shows "p = q"
proof -
  obtain a b c d where p: "p = (a, b, c, d)" by (cases p)
  obtain a' b' c' d' where q: "q = (a', b', c', d')" by (cases q)
  have eq: "bit (u32_from_be_bytes p) n \<longleftrightarrow> bit (u32_from_be_bytes q) n" for n
    using assms by simp
  have "a = a'"
  proof (rule bit_word_eqI)
    fix n assume "n < LENGTH(8)"
    then show "bit a n \<longleftrightarrow> bit a' n"
      using eq [of "n + 24"] by (auto simp: p q bit_simps dest: bit_imp_le_length)
  qed
  moreover have "b = b'"
  proof (rule bit_word_eqI)
    fix n assume "n < LENGTH(8)"
    then show "bit b n \<longleftrightarrow> bit b' n"
      using eq [of "n + 16"] by (auto simp: p q bit_simps dest: bit_imp_le_length)
  qed
  moreover have "c = c'"
  proof (rule bit_word_eqI)
    fix n assume "n < LENGTH(8)"
    then show "bit c n \<longleftrightarrow> bit c' n"
      using eq [of "n + 8"] by (auto simp: p q bit_simps dest: bit_imp_le_length)
  qed
  moreover have "d = d'"
  proof (rule bit_word_eqI)
    fix n assume "n < LENGTH(8)"
    then show "bit d n \<longleftrightarrow> bit d' n"
      using eq [of n] by (auto simp: p q bit_simps dest: bit_imp_le_length)
  qed
  ultimately show ?thesis by (simp add: p q)
qed

lemma u32_from_ne_bytes_inj [simp]: "u32_from_ne_bytes e p = u32_from_ne_bytes e q \<longleftrightarrow> p = q"
  by (cases e; cases p; cases q)
    (auto simp del: u32_from_be_bytes.simps dest: u32_from_be_bytes_inj)

declare u16_from_be_bytes.simps [simp del] u32_from_be_bytes.simps [simp del]

lemma Suc_Suc_diff2: "\<not> n < 2 \<Longrightarrow> Suc (Suc (n - 2)) = n"
  by simp

lemma mod_add_rcancel_nat:
  fixes a b k m :: nat
  assumes "(a + k) mod m = (b + k) mod m" "0 < m"
  shows "a mod m = b mod m"
proof -
  have "x + k + k * (m - 1) = x + k * m" for x :: nat
    using assms(2) by (cases m) auto
  moreover have "(a + k + k * (m - 1)) mod m = (b + k + k * (m - 1)) mod m"
    by (rule mod_add_cong [OF assms(1) refl])
  ultimately show ?thesis by (simp only: mod_mult_self1)
qed

section \<open>Byte buffers\<close>

text \<open>
  A packet is the list of its bytes. \<open>put_bytes off bs d\<close> overwrites the bytes of \<open>d\<close> from offset
  \<open>off\<close> on; it is only ever used after a bounds check, and \<open>in_range\<close> is that check.
\<close>

definition in_range :: "nat \<Rightarrow> nat \<Rightarrow> 'a list \<Rightarrow> bool" where
  "in_range off n d \<longleftrightarrow> off + n \<le> length d"

definition put_bytes :: "nat \<Rightarrow> 'a list \<Rightarrow> 'a list \<Rightarrow> 'a list" where
  "put_bytes off bs d = take off d @ bs @ drop (off + length bs) d"

lemma length_put_bytes [simp]:
  "in_range off (length bs) d \<Longrightarrow> length (put_bytes off bs d) = length d"
  by (auto simp: in_range_def put_bytes_def)

lemma nth_put_bytes:
  assumes "in_range off (length bs) d"
  shows "put_bytes off bs d ! i =
    (if off \<le> i \<and> i < off + length bs then bs ! (i - off) else d ! i)"
proof (cases "i < length d")
  case True
  with assms show ?thesis
    by (auto simp: put_bytes_def in_range_def nth_append min_def not_less add.commute
        intro!: arg_cong [where f = "(!) d"])
next
  case False
  with assms have "put_bytes off bs d ! i = drop (off + length bs) d ! (i - (off + length bs))"
    by (auto simp: put_bytes_def in_range_def nth_append min_def not_less
        intro!: arg_cong [where f = "(!) d"])
  with assms False show ?thesis
    by (auto simp: in_range_def intro!: arg_cong [where f = "(!) d"])
qed

lemma put_bytes_same:
  "in_range off (length bs) d \<Longrightarrow> take (length bs) (drop off d) = bs \<Longrightarrow> put_bytes off bs d = d"
  by (metis append_take_drop_id drop_drop put_bytes_def add.commute)

section \<open>Hash maps\<close>

text \<open>
  A \<open>std::collections::HashMap\<close> is an association list with distinct keys; the order of the list is
  the order in which this run iterates over it, which the standard library leaves open.
\<close>

type_synonym ('k, 'v) hashmap = "('k \<times> 'v) list"

definition hm_ok :: "('k, 'v) hashmap \<Rightarrow> bool" where
  "hm_ok m \<longleftrightarrow> distinct (map fst m)"

abbreviation hm_get :: "('k, 'v) hashmap \<Rightarrow> 'k \<Rightarrow> 'v option" where
  "hm_get \<equiv> map_of"

abbreviation hm_insert :: "'k \<Rightarrow> 'v \<Rightarrow> ('k, 'v) hashmap \<Rightarrow> ('k, 'v) hashmap" where
  "hm_insert \<equiv> AList.update"

abbreviation hm_remove :: "'k \<Rightarrow> ('k, 'v) hashmap \<Rightarrow> ('k, 'v) hashmap" where
  "hm_remove \<equiv> AList.delete"

abbreviation hm_keys :: "('k, 'v) hashmap \<Rightarrow> 'k list" where
  "hm_keys \<equiv> map fst"

definition hm_retain :: "('k \<Rightarrow> 'v \<Rightarrow> bool) \<Rightarrow> ('k, 'v) hashmap \<Rightarrow> ('k, 'v) hashmap" where
  "hm_retain P m = filter (\<lambda>(k, v). P k v) m"

definition hm_map :: "('v \<Rightarrow> 'w) \<Rightarrow> ('k, 'v) hashmap \<Rightarrow> ('k, 'w) hashmap" where
  "hm_map f m = map (\<lambda>(k, v). (k, f v)) m"

lemma hm_ok_Nil [simp]: "hm_ok []"
  by (simp add: hm_ok_def)

lemma hm_ok_insert [simp]: "hm_ok m \<Longrightarrow> hm_ok (hm_insert k v m)"
  by (simp add: hm_ok_def distinct_update)

lemma hm_ok_remove [simp]: "hm_ok m \<Longrightarrow> hm_ok (hm_remove k m)"
  by (simp add: hm_ok_def distinct_delete)

lemma hm_ok_retain [simp]: "hm_ok m \<Longrightarrow> hm_ok (hm_retain P m)"
  by (auto simp: hm_ok_def hm_retain_def intro: distinct_map_filter)

lemma hm_keys_map [simp]: "hm_keys (hm_map f m) = hm_keys m"
  by (auto simp: hm_map_def)

lemma hm_ok_map [simp]: "hm_ok (hm_map f m) \<longleftrightarrow> hm_ok m"
  by (simp add: hm_ok_def)

lemma hm_get_insert [simp]: "hm_get (hm_insert k v m) k' = (if k' = k then Some v else hm_get m k')"
  by (simp add: update_conv')

lemma hm_get_remove [simp]: "hm_get (hm_remove k m) k' = (if k' = k then None else hm_get m k')"
  by (simp add: delete_conv')

lemma hm_get_map [simp]: "hm_get (hm_map f m) k = map_option f (hm_get m k)"
  by (induction m) (auto simp: hm_map_def)

lemma hm_get_retain:
  "hm_ok m \<Longrightarrow> hm_get (hm_retain P m) k =
     (case hm_get m k of None \<Rightarrow> None | Some v \<Rightarrow> if P k v then Some v else None)"
proof (induction m)
  case Nil
  then show ?case by (simp add: hm_retain_def)
next
  case (Cons p m)
  obtain k' v' where p: "p = (k', v')" by (cases p)
  from Cons.prems have "k' \<notin> fst ` set m" and "hm_ok m"
    by (auto simp: hm_ok_def p)
  moreover from this(1) have "hm_get m k' = None" by (simp add: map_of_eq_None_iff)
  ultimately show ?case using Cons.IH by (auto simp: hm_retain_def p)
qed

lemma hm_get_values: "hm_ok m \<Longrightarrow> v \<in> snd ` set m \<longleftrightarrow> (\<exists>k. hm_get m k = Some v)"
  by (force simp: hm_ok_def)

end
