(* ===== verification/Common.thy ===== *)
theory Common
  imports Prelude
begin

text \<open>
  The crate \<open>dumbarp-common\<close> (\<open>src/dumbarp-common/src/lib.rs\<close>): the constants and the two pure
  functions that the eBPF programs and the userspace crates share, and the key types of the eBPF
  maps. The reference checksum \<open>full_checksum\<close> is the one of the crate's own tests. The locale
  \<open>csum_update\<close> states what the datapath relies on in an incremental checksum update; it is
  interpreted on \<open>csum_replace2\<close>.
\<close>

section \<open>Constants\<close>

definition DSCP_ID_MAX :: u8 where [const_defs]: "DSCP_ID_MAX = 63"
definition IPV4_TOS_OFFSET :: nat where [const_defs]: "IPV4_TOS_OFFSET = 1"
definition IPV4_CHECK_OFFSET :: nat where [const_defs]: "IPV4_CHECK_OFFSET = 10"
definition IPPROTO_TCP :: u8 where [const_defs]: "IPPROTO_TCP = 6"
definition IPPROTO_UDP :: u8 where [const_defs]: "IPPROTO_UDP = 17"
definition CTR_TAGGED :: u32 where [const_defs]: "CTR_TAGGED = 0"
definition CTR_UNTAGGED :: u32 where [const_defs]: "CTR_UNTAGGED = 1"
definition CTR_SKIPPED :: u32 where [const_defs]: "CTR_SKIPPED = 2"
definition COUNTER_SLOTS :: u32 where [const_defs]: "COUNTER_SLOTS = 3"

section \<open>Functions and key types\<close>

text \<open>One folding step, \<open>(sum & 0xffff) + (sum >> 16)\<close>, of the one's complement sum.\<close>

definition fold_step :: "u32 \<Rightarrow> u32" where
  "fold_step s = (s AND 0xffff) + drop_bit 16 s"

definition csum_replace2 :: "u16 \<Rightarrow> u16 \<Rightarrow> u16 \<Rightarrow> u16" where
  "csum_replace2 check old new =
     (let s = ucast (NOT check) + ucast (NOT old) + ucast new;
          s = fold_step s;
          s = fold_step s
      in NOT (ucast s))"

definition tos_with_dscp :: "u8 \<Rightarrow> u8 \<Rightarrow> u8" where
  "tos_with_dscp tos dscp = push_bit 2 dscp OR (tos AND 0x03)"

record ArpKey =
  ak_ifindex :: u32
  ak_ip :: u32

record FlowKey =
  fk_src :: u32
  fk_dst :: u32
  fk_sport :: u16
  fk_dport :: u16
  fk_proto :: u8
  fk_pad :: "u8 \<times> u8 \<times> u8"

definition FlowKey_new :: "u32 \<Rightarrow> u32 \<Rightarrow> u16 \<Rightarrow> u16 \<Rightarrow> u8 \<Rightarrow> FlowKey" where
  "FlowKey_new src dst sport dport proto =
     \<lparr>fk_src = src, fk_dst = dst, fk_sport = sport, fk_dport = dport, fk_proto = proto,
      fk_pad = (0, 0, 0)\<rparr>"

definition reversed :: "FlowKey \<Rightarrow> FlowKey" where
  "reversed k = FlowKey_new (fk_dst k) (fk_src k) (fk_dport k) (fk_sport k) (fk_proto k)"

text \<open>
  The reference checksum of the tests: the 16-bit big-endian words are added up in a \<open>u32\<close>, which
  is folded until nothing is left above bit 15, and complemented.
\<close>

function fold_loop :: "u32 \<Rightarrow> u32" where
  "fold_loop s = (if drop_bit 16 s \<noteq> 0 then fold_loop (fold_step s) else s)"
  by pat_completeness auto

lemma unat_drop16: "unat (drop_bit 16 (s :: u32)) = unat s div 65536"
  by (simp add: unat_drop_bit_eq drop_bit_nat_def)

lemma unat_low16: "unat ((s :: u32) AND 0xffff) = unat s mod 65536"
proof -
  have "s AND 0xffff = take_bit 16 s" by (simp add: take_bit_eq_mask mask_eq_exp_minus_1)
  then show ?thesis by (simp add: unsigned_take_bit_eq take_bit_nat_def)
qed

lemma unat_u32_less: "unat (s :: u32) < 4294967296"
  using unsigned_less [where 'a = nat and 'b = 32, of s] by simp

lemma unat_u16_less: "unat (s :: u16) < 65536"
  using unsigned_less [where 'a = nat and 'b = 16, of s] by simp

lemma unat_fold_step: "unat (fold_step s) = unat s mod 65536 + unat s div 65536"
proof -
  have "unat s div 65536 < 65536" using unat_u32_less [of s] by (simp add: div_less_iff_less_mult)
  moreover have "unat s mod 65536 < 65536" by simp
  ultimately have "unat s mod 65536 + unat s div 65536 < 4294967296" by linarith
  then show ?thesis by (simp add: fold_step_def unat_word_ariths unat_low16 unat_drop16)
qed

lemma fold_step_decreases:
  assumes "drop_bit 16 s \<noteq> 0"
  shows "unat (fold_step s) < unat s"
proof -
  have "unat (drop_bit 16 s) \<noteq> 0" using assms by (simp only: unat_eq_zero not_False_eq_True)
  then have "0 < unat s div 65536" by (simp only: unat_drop16 neq0_conv)
  moreover have "unat s = unat s div 65536 * 65536 + unat s mod 65536" by simp
  ultimately show ?thesis unfolding unat_fold_step by linarith
qed

termination fold_loop
  by (relation "measure unat") (auto simp: fold_step_decreases)

declare fold_loop.simps [simp del]

text \<open>\<open>header.chunks(2)\<close> read as big-endian words; the tests only use even lengths.\<close>

fun be_words :: "u8 list \<Rightarrow> u16 list" where
  "be_words (a # b # bs) = u16_from_be_bytes (a, b) # be_words bs"
| "be_words _ = []"

definition full_checksum :: "u8 list \<Rightarrow> u16" where
  "full_checksum header =
     NOT (ucast (fold_loop (foldl (\<lambda>s w. s + ucast w) 0 (be_words header))))"

section \<open>One's complement arithmetic\<close>

text \<open>The value to which a sum folds: the representative of its class modulo \<open>65535\<close> in \<open>1..65535\<close>, or 0.\<close>

definition ones :: "nat \<Rightarrow> nat" where
  "ones n = (if n = 0 then 0 else (n - 1) mod 65535 + 1)"

lemma ones_small: "n < 65536 \<Longrightarrow> ones n = n"
  by (auto simp: ones_def)

lemma ones_le: "ones n \<le> 65535"
  using mod_less_divisor [of 65535 "n - 1"] by (auto simp: ones_def)

lemma ones_pos: "0 < n \<Longrightarrow> 0 < ones n"
  by (simp add: ones_def)

lemma ones_mod: "ones n mod 65535 = n mod 65535"
proof (cases n)
  case (Suc m)
  then show ?thesis by (simp add: ones_def mod_Suc_eq)
qed (simp add: ones_def)

lemma range_mod_eq:
  fixes x y :: nat
  assumes "x mod 65535 = y mod 65535" "0 < x" "0 < y" "x \<le> 65535" "y \<le> 65535"
  shows "x = y"
  using assms by (cases "x = 65535"; cases "y = 65535") auto

lemma mod_0_between: "x mod 65535 = 0 \<Longrightarrow> 0 < x \<Longrightarrow> x < 2 * 65535 \<Longrightarrow> x = (65535 :: nat)"
  by (auto simp: mod_eq_0_iff_dvd dvd_def)

lemma ones_cong:
  assumes "a mod 65535 = b mod 65535" "0 < a" "0 < b"
  shows "ones a = ones b"
  by (rule range_mod_eq) (use assms in \<open>simp_all add: ones_mod ones_le ones_pos\<close>)

lemma fold16_mod: "(n mod 65536 + n div 65536) mod 65535 = n mod (65535 :: nat)"
proof -
  have "n = (n mod 65536 + n div 65536) + n div 65536 * 65535"
    using div_mult_mod_eq [of n 65536] by linarith
  then show ?thesis by (metis mod_mult_self1)
qed

lemma fold16_pos: "0 < n \<Longrightarrow> 0 < n mod 65536 + n div (65536 :: nat)"
  using div_mult_mod_eq [of n 65536] by (cases "n mod 65536") auto

lemma fold_loop_ones: "unat (fold_loop s) = ones (unat s)"
proof (induction s rule: fold_loop.induct)
  case (1 s)
  show ?case
  proof (cases "drop_bit 16 s = 0")
    case True
    then have "unat s div 65536 = 0" using unat_drop16 [of s] by simp
    then have "unat s < 65536" by (simp add: div_eq_0_iff)
    with True show ?thesis by (simp add: fold_loop.simps [of s] ones_small)
  next
    case False
    then have "unat s \<noteq> 0" by (auto simp: unat_eq_zero)
    then have "ones (unat (fold_step s)) = ones (unat s)"
      using fold16_pos [of "unat s"]
      by (intro ones_cong) (simp_all only: unat_fold_step fold16_mod neq0_conv)
    with False "1.IH" show ?thesis by (simp add: fold_loop.simps [of s])
  qed
qed

lemma unat_ucast_u16: "unat (ucast (s :: u32) :: u16) = unat s mod 65536"
  by (simp add: unsigned_ucast_eq take_bit_nat_def)

lemma unat_ucast_u32 [simp]: "unat (ucast (s :: u16) :: u32) = unat s"
  using unat_u16_less [of s] by (simp add: unsigned_ucast_eq take_bit_nat_def)

lemma unat_not_u16: "unat (NOT (c :: u16)) = 65535 - unat c"
proof -
  have "NOT c = (- 1) - c" by (simp add: not_eq_complement)
  moreover have "c \<le> - 1" by simp
  ultimately have "unat (NOT c) = unat (- 1 :: u16) - unat c"
    by (simp only: unat_sub)
  then show ?thesis by (simp add: unsigned_minus_1_eq_mask mask_eq_exp_minus_1)
qed

lemma u16_max_iff: "x = (0xffff :: u16) \<longleftrightarrow> unat x = 65535"
  by (simp add: word_unat_eq_iff)

definition word_sum :: "u16 list \<Rightarrow> nat" where
  "word_sum ws = sum_list (map unat ws)"

lemma word_sum_pos: "w \<in> set ws \<Longrightarrow> w \<noteq> 0 \<Longrightarrow> 0 < word_sum ws"
  using member_le_sum_list [of "unat w" "map unat ws"] unat_gt_0 [of w]
  by (auto simp: word_sum_def simp del: unat_gt_0)

lemma word_sum_update:
  assumes "k < length ws"
  shows "word_sum (ws[k := x]) + unat (ws ! k) = word_sum ws + unat x"
proof -
  have "unat (ws ! k) \<le> word_sum ws"
    using assms by (auto simp: word_sum_def intro: member_le_sum_list)
  then show ?thesis using assms by (simp add: word_sum_def map_update sum_list_update)
qed

lemma foldl_words:
  assumes "unat s + length ws * 65536 \<le> 4294967296"
  shows "unat (foldl (\<lambda>s w. s + ucast w) (s :: u32) ws) = unat s + word_sum ws"
  using assms
proof (induction ws arbitrary: s)
  case Nil
  then show ?case by (simp add: word_sum_def)
next
  case (Cons w ws)
  from Cons.prems have "unat s + unat w < 4294967296" using unat_u16_less [of w] by simp
  then have s: "unat (s + ucast w) = unat s + unat w" by (simp add: unat_word_ariths)
  with Cons.prems have "unat (s + ucast w) + length ws * 65536 \<le> 4294967296"
    using unat_u16_less [of w] by simp
  from Cons.IH [OF this] s show ?case by (simp add: word_sum_def)
qed

text \<open>The reference checksum computes the complement of the folded sum.\<close>

lemma unat_full_checksum:
  assumes "length (be_words h) \<le> 65536"
  shows "unat (full_checksum h) = 65535 - ones (word_sum (be_words h))"
proof -
  have "unat (foldl (\<lambda>s w. s + ucast w) (0 :: u32) (be_words h)) = word_sum (be_words h)"
    using foldl_words [of 0 "be_words h"] assms by simp
  then show ?thesis
    using ones_le [of "word_sum (be_words h)"]
    by (simp add: full_checksum_def unat_not_u16 unat_ucast_u16 fold_loop_ones)
qed

section \<open>Incremental checksum updates\<close>

text \<open>
  The contract of an incremental update of a 16-bit checksum \<open>c\<close> for one word that changes from \<open>o\<close>
  to \<open>n\<close>: the sum of checksum and word keeps its class modulo \<open>65535\<close>, and the update never
  produces the all-ones checksum unless it was given one. From these two laws it follows that
  updating and recomputing agree, and that an update neither breaks nor repairs a header.
\<close>

locale csum_update =
  fixes upd :: "u16 \<Rightarrow> u16 \<Rightarrow> u16 \<Rightarrow> u16"
  assumes upd_cong: "(unat (upd c old new) + unat new) mod 65535 = (unat c + unat old) mod 65535"
    and upd_not_max: "c \<noteq> 0xffff \<Longrightarrow> upd c old new \<noteq> 0xffff"
begin

lemma upd_sum:
  "(unat (upd c old new) + unat new + rest) mod 65535 = (unat c + unat old + rest) mod 65535"
  by (rule mod_add_cong [OF upd_cong refl])

lemma upd_recompute:
  assumes old: "0 < unat old + rest" and new: "0 < unat new + rest"
    and c: "unat c = 65535 - ones (unat old + rest)"
  shows "unat (upd c old new) = 65535 - ones (unat new + rest)"
proof -
  let ?u = "unat (upd c old new)" and ?m = "ones (unat new + rest)"
  have "unat c < 65535" using c ones_pos [OF old] by simp
  then have "upd c old new \<noteq> 0xffff" by (intro upd_not_max) (simp add: u16_max_iff)
  then have "?u \<noteq> 65535" by (simp add: u16_max_iff)
  then have u: "?u < 65535" using unat_u16_less [of "upd c old new"] by linarith
  have "(unat c + (unat old + rest)) mod 65535 = (unat c + ones (unat old + rest)) mod 65535"
    by (rule mod_add_cong [OF refl ones_mod [symmetric]])
  also have "\<dots> = 0" using c ones_le [of "unat old + rest"] by simp
  finally have "(?u + (unat new + rest)) mod 65535 = 0"
    using upd_sum [of c old new rest] by (simp add: add.assoc)
  then have "(?u + ?m) mod 65535 = 0" by (simp only: mod_add_cong [OF refl ones_mod])
  moreover have "0 < ?u + ?m" "?u + ?m < 2 * 65535"
    using u ones_pos [OF new] ones_le [of "unat new + rest"] by auto
  ultimately have "?u + ?m = 65535" by (rule mod_0_between)
  then show ?thesis by simp
qed

text \<open>
  A list of header words in which word \<open>i\<close> is replaced and word \<open>j\<close> is the checksum: the update
  keeps the class of the whole sum.
\<close>

lemma upd_words:
  assumes "i < length ws" "j < length ws" "i \<noteq> j"
  shows "word_sum (ws[i := new, j := upd (ws ! j) (ws ! i) new]) mod 65535 = word_sum ws mod 65535"
proof -
  let ?u = "upd (ws ! j) (ws ! i) new"
  have "word_sum (ws[i := new, j := ?u]) + unat (ws ! j) = word_sum (ws[i := new]) + unat ?u"
    using word_sum_update [of j "ws[i := new]" ?u] assms by simp
  then have "word_sum (ws[i := new, j := ?u]) + unat (ws ! j) + unat (ws ! i) =
    word_sum ws + (unat ?u + unat new)"
    using word_sum_update [of i ws new] assms by simp
  moreover have "(word_sum ws + (unat ?u + unat new)) mod 65535 =
      (word_sum ws + (unat (ws ! j) + unat (ws ! i))) mod 65535"
    by (rule mod_add_cong [OF refl upd_cong])
  ultimately have "(word_sum (ws[i := new, j := ?u]) + (unat (ws ! j) + unat (ws ! i))) mod 65535 =
      (word_sum ws + (unat (ws ! j) + unat (ws ! i))) mod 65535"
    by (simp add: add.assoc)
  then show ?thesis by (rule mod_add_rcancel_nat) simp
qed

end

lemma csum_replace2_unat:
  fixes c old new :: u16
  defines "s \<equiv> (65535 - unat c) + (65535 - unat old) + unat new"
  shows "\<exists>f. unat (csum_replace2 c old new) + f = 65535 \<and> f mod 65535 = s mod 65535 \<and>
    (0 < s \<longrightarrow> 0 < f)"
proof -
  let ?w = "ucast (NOT c) + ucast (NOT old) + ucast new :: u32"
  let ?f = "unat (fold_step (fold_step ?w))"
  have "s \<le> 196605" using unat_u16_less [of new] by (simp add: s_def)
  then have w: "unat ?w = s"
    by (simp add: s_def unat_word_ariths unat_not_u16)
  have f: "?f = (s mod 65536 + s div 65536) mod 65536 + (s mod 65536 + s div 65536) div 65536"
    by (simp only: unat_fold_step w)
  have "?f \<le> 65535"
  proof (cases "s mod 65536 + s div 65536 < 65536")
    case True
    then show ?thesis by (simp add: f)
  next
    case False
    have "s div 65536 \<le> 2" using \<open>s \<le> 196605\<close> by simp
    moreover have "s mod 65536 < 65536" by simp
    ultimately have "s mod 65536 + s div 65536 - 65536 < 2" using False by linarith
    then obtain r where "s mod 65536 + s div 65536 = 65536 + r" "r < 2"
      using False by (metis le_Suc_ex not_less add_diff_cancel_left')
    then show ?thesis by (simp add: f)
  qed
  moreover have "?f mod 65535 = s mod 65535" by (simp only: f fold16_mod)
  moreover have "0 < ?f" if "0 < s" unfolding f by (intro fold16_pos that)
  moreover have "unat (csum_replace2 c old new) = 65535 - ?f" if "?f \<le> 65535"
    using that by (simp add: csum_replace2_def unat_not_u16 unat_ucast_u16)
  ultimately show ?thesis by (intro exI [of _ ?f]) simp
qed

interpretation csum: csum_update csum_replace2
proof
  fix c old new :: u16
  let ?s = "(65535 - unat c) + (65535 - unat old) + unat new"
  obtain f where f: "unat (csum_replace2 c old new) + f = 65535" "f mod 65535 = ?s mod 65535"
    "0 < ?s \<longrightarrow> 0 < f"
    using csum_replace2_unat [of c old new] by (elim exE conjE) (rule that)
  let ?u = "unat (csum_replace2 c old new)"
  have "(?u + ?s) mod 65535 = (?u + f) mod 65535" by (rule mod_add_cong [OF refl f(2) [symmetric]])
  then have zero: "(?u + ?s) mod 65535 = 0" using f(1) by simp
  have "(?u + unat new) mod 65535 = (?u + unat new + 2 * 65535) mod 65535"
    by (simp only: mod_mult_self1)
  also have "?u + unat new + 2 * 65535 = (?u + ?s) + (unat c + unat old)"
    using unat_u16_less [of c] unat_u16_less [of old] by simp
  also have "\<dots> mod 65535 = ((?u + ?s) mod 65535 + (unat c + unat old)) mod 65535"
    by (simp only: mod_add_left_eq)
  finally show "(?u + unat new) mod 65535 = (unat c + unat old) mod 65535"
    by (simp only: zero add_0)
  show "csum_replace2 c old new \<noteq> 0xffff" if "c \<noteq> 0xffff"
  proof -
    from that have "0 < ?s" using unat_u16_less [of c] by (simp add: u16_max_iff)
    with f(3) have "0 < f" by (rule mp)
    with f(1) show ?thesis by (simp add: u16_max_iff)
  qed
qed

section \<open>The differentiated services field\<close>

text \<open>
  \<open>tos_with_dscp\<close> replaces the upper six bits and keeps the two ECN bits.
\<close>

lemma and_three_u8: "(x :: u8) AND 3 = take_bit 2 x"
  by (simp add: take_bit_eq_mask mask_eq_exp_minus_1)

lemma tos_dscp_bit:
  "bit (tos_with_dscp tos dscp) n \<longleftrightarrow> (if n < 2 then bit tos n else n < 8 \<and> bit dscp (n - 2))"
  by (auto simp: tos_with_dscp_def and_three_u8 bit_simps)

lemma tos_dscp_ecn [simp]: "tos_with_dscp tos dscp AND 3 = tos AND 3"
  by (rule bit_word_eqI) (auto simp: and_three_u8 bit_simps tos_dscp_bit)

lemma dscp_le_bit:
  assumes "dscp \<le> DSCP_ID_MAX" "bit dscp n"
  shows "n < 6"
proof -
  from assms(1) have "unat dscp < 64" by (simp add: DSCP_ID_MAX_def word_le_nat_alt)
  then have "take_bit 6 dscp = dscp"
    by (simp add: word_unat_eq_iff unsigned_take_bit_eq take_bit_nat_def)
  with assms(2) show ?thesis by (metis bit_take_bit_iff)
qed

lemma tos_dscp_dscp:
  assumes "dscp \<le> DSCP_ID_MAX"
  shows "drop_bit 2 (tos_with_dscp tos dscp) = dscp"
proof (rule bit_word_eqI)
  fix n assume "n < LENGTH(8)"
  then show "bit (drop_bit 2 (tos_with_dscp tos dscp)) n \<longleftrightarrow> bit dscp n"
    using dscp_le_bit [OF assms, of n] by (auto simp: bit_simps tos_dscp_bit)
qed

lemma dscp_of_tos_le: "drop_bit 2 (tos :: u8) \<le> DSCP_ID_MAX"
  using unsigned_less [where 'a = nat and 'b = 8, of tos]
  by (simp add: DSCP_ID_MAX_def word_le_nat_alt unat_drop_bit_eq drop_bit_nat_def)

lemma tos_dscp_self [simp]: "tos_with_dscp tos (drop_bit 2 tos) = tos"
  by (rule bit_word_eqI) (auto simp: tos_dscp_bit bit_drop_bit_eq Suc_Suc_diff2)

lemma tos_dscp_overwrite [simp]: "tos_with_dscp (tos_with_dscp tos d) d' = tos_with_dscp tos d'"
  by (rule bit_word_eqI) (auto simp: tos_dscp_bit)

lemma reversed_involution: "fk_pad k = (0, 0, 0) \<Longrightarrow> reversed (reversed k) = k"
  by (simp add: reversed_def FlowKey_new_def)

lemma csum_recompute:
  assumes upd: "be_words h' = (be_words h)[i := new]" and i: "i < length (be_words h)"
    and len: "length (be_words h) \<le> 65536"
    and nz: "\<exists>w \<in> set (be_words h). w \<noteq> 0" "\<exists>w \<in> set (be_words h'). w \<noteq> 0"
  shows "csum_replace2 (full_checksum h) (be_words h ! i) new = full_checksum h'"
proof -
  let ?ws = "be_words h" and ?old = "be_words h ! i"
  obtain rest where rest: "word_sum ?ws = unat ?old + rest"
    using i member_le_sum_list [of "unat ?old" "map unat ?ws"] le_Suc_ex
    by (auto simp: word_sum_def)
  then have rest': "word_sum (be_words h') = unat new + rest"
    using word_sum_update [OF i, of new] by (simp add: upd)
  have "0 < unat ?old + rest" "0 < unat new + rest"
    using nz rest rest' word_sum_pos by metis+
  moreover have "unat (full_checksum h) = 65535 - ones (unat ?old + rest)"
    "unat (full_checksum h') = 65535 - ones (unat new + rest)"
    using unat_full_checksum [of h] unat_full_checksum [of h'] len rest rest' by (simp_all add: upd)
  ultimately show ?thesis by (simp add: word_unat_eq_iff csum.upd_recompute)
qed

section \<open>Properties\<close>

text \<open>
  C11. Updating a checksum with \<open>csum_replace2\<close> gives the same 16 bits as recomputing it from the
  changed header, for any header (of up to 65536 words) and any word of it: the property the
  crate's tests check on the TOS word of a sample header. The checksum field itself is zero in
  both headers, as in the tests; neither header is all zeros.
\<close>

theorem csum_replace2_recomputes:
  assumes upd: "be_words h' = (be_words h)[i := new]" and i: "i < length (be_words h)"
    and len: "length (be_words h) \<le> 65536"
    and nz: "\<exists>w \<in> set (be_words h). w \<noteq> 0" "\<exists>w \<in> set (be_words h'). w \<noteq> 0"
  shows "csum_replace2 (full_checksum h) (be_words h ! i) new = full_checksum h'"
  using assms by (rule csum_recompute)

text \<open>The sample header of the tests, with TOS 28 changed to 0.\<close>

theorem csum_replace2_recomputes_witness:
  "csum_replace2
     (full_checksum [0x45, 28, 5, 220, 0xab, 0xcd, 0x40, 0, 64, 6, 0, 0, 203, 0, 113, 7, 110, 110, 110, 110])
     0x451c 0x4500 =
   full_checksum [0x45, 0, 5, 220, 0xab, 0xcd, 0x40, 0, 64, 6, 0, 0, 203, 0, 113, 7, 110, 110, 110, 110]"
  using csum_replace2_recomputes [where i = 0 and new = "0x4500"
      and h = "[0x45, 28, 5, 220, 0xab, 0xcd, 0x40, 0, 64, 6, 0, 0, 203, 0, 113, 7, 110, 110, 110, 110]"
      and h' = "[0x45, 0, 5, 220, 0xab, 0xcd, 0x40, 0, 64, 6, 0, 0, 203, 0, 113, 7, 110, 110, 110, 110]"]
  by (simp add: u16_from_be_bytes.simps)

end
