(* ===== verification/Ebpf.thy ===== *)
theory Ebpf
  imports Common
begin

text \<open>
  The eBPF programs of \<open>dumbarp-ebpf\<close> (\<open>src/dumbarp-ebpf/src/main.rs\<close>): the XDP program
  \<open>dumbarp\<close>, which answers ARP requests and stamps the DSCP identity on traffic for a leased
  address, and the TC classifier \<open>dumbarp_egress\<close>, which restores the original DSCP of the replies.

  A packet is the list of its bytes, and a typed pointer obtained from \<open>ptr_at\<close> is an offset into
  it. The eBPF maps are partial functions in the record \<open>xdp_maps\<close>. What is not code of the
  repository is a parameter: the byte order, the constants and the \<open>ihl\<close> accessor of the crate
  \<open>network-types\<close> (record \<open>ebpf_env\<close>), the insertion into the LRU map (\<open>lru_insert\<close>), and the kernel's
  skb helpers behind \<open>TcContext\<close> (record \<open>tc_helpers\<close>).
\<close>

section \<open>Environment, headers and maps\<close>

record ebpf_env =
  env_endian :: endian
  ethertype_arp :: u16
  ethertype_ipv4 :: u16
  ihl_of :: "u8 \<Rightarrow> u8"

text \<open>
  The Ethernet and IPv4 headers, in the wire layout; a 16-bit field is kept as its two bytes in
  memory.
\<close>

record EthHdr =
  eth_dst_addr :: mac
  eth_src_addr :: mac
  eth_ether_type :: bytes2

record Ipv4Hdr =
  ip_vihl :: u8
  ip_tos :: u8
  ip_tot_len :: bytes2
  ip_id :: bytes2
  ip_frags :: bytes2
  ip_ttl :: u8
  ip_proto :: u8
  ip_check :: bytes2
  ip_src_addr :: bytes4
  ip_dst_addr :: bytes4

record ArpHdr =
  arp_htype :: bytes2
  arp_ptype :: bytes2
  arp_hlen :: u8
  arp_plen :: u8
  arp_oper :: bytes2
  arp_sha :: mac
  arp_spa :: bytes4
  arp_tha :: mac
  arp_tpa :: bytes4

definition EthHdr_LEN :: nat where [const_defs]: "EthHdr_LEN = 14"
definition Ipv4Hdr_LEN :: nat where [const_defs]: "Ipv4Hdr_LEN = 20"
definition ArpHdr_LEN :: nat where [const_defs]: "ArpHdr_LEN = 28"
definition ARPOP_REQUEST :: u16 where [const_defs]: "ARPOP_REQUEST = 1"
definition ARPOP_REPLY :: u16 where [const_defs]: "ARPOP_REPLY = 2"

definition get2 :: "u8 list \<Rightarrow> nat \<Rightarrow> bytes2" where
  "get2 d o' = (d ! o', d ! (o' + 1))"

definition get4 :: "u8 list \<Rightarrow> nat \<Rightarrow> bytes4" where
  "get4 d o' = (d ! o', d ! (o' + 1), d ! (o' + 2), d ! (o' + 3))"

definition get6 :: "u8 list \<Rightarrow> nat \<Rightarrow> mac" where
  "get6 d o' = (d ! o', d ! (o' + 1), d ! (o' + 2), d ! (o' + 3), d ! (o' + 4), d ! (o' + 5))"

fun list2 :: "bytes2 \<Rightarrow> u8 list" where "list2 (a, b) = [a, b]"
fun list4 :: "bytes4 \<Rightarrow> u8 list" where "list4 (a, b, c, d) = [a, b, c, d]"
fun list6 :: "mac \<Rightarrow> u8 list" where "list6 (a, b, c, d, e, f) = [a, b, c, d, e, f]"

definition load_EthHdr :: "u8 list \<Rightarrow> nat \<Rightarrow> EthHdr" where
  "load_EthHdr d p =
     \<lparr>eth_dst_addr = get6 d p, eth_src_addr = get6 d (p + 6), eth_ether_type = get2 d (p + 12)\<rparr>"

definition bytes_EthHdr :: "EthHdr \<Rightarrow> u8 list" where
  "bytes_EthHdr h = list6 (eth_dst_addr h) @ list6 (eth_src_addr h) @ list2 (eth_ether_type h)"

definition load_ArpHdr :: "u8 list \<Rightarrow> nat \<Rightarrow> ArpHdr" where
  "load_ArpHdr d p =
     \<lparr>arp_htype = get2 d p, arp_ptype = get2 d (p + 2), arp_hlen = d ! (p + 4),
      arp_plen = d ! (p + 5), arp_oper = get2 d (p + 6), arp_sha = get6 d (p + 8),
      arp_spa = get4 d (p + 14), arp_tha = get6 d (p + 18), arp_tpa = get4 d (p + 24)\<rparr>"

definition bytes_ArpHdr :: "ArpHdr \<Rightarrow> u8 list" where
  "bytes_ArpHdr h =
     list2 (arp_htype h) @ list2 (arp_ptype h) @ [arp_hlen h, arp_plen h] @ list2 (arp_oper h) @
     list6 (arp_sha h) @ list4 (arp_spa h) @ list6 (arp_tha h) @ list4 (arp_tpa h)"

definition load_Ipv4Hdr :: "u8 list \<Rightarrow> nat \<Rightarrow> Ipv4Hdr" where
  "load_Ipv4Hdr d p =
     \<lparr>ip_vihl = d ! p, ip_tos = d ! (p + 1), ip_tot_len = get2 d (p + 2), ip_id = get2 d (p + 4),
      ip_frags = get2 d (p + 6), ip_ttl = d ! (p + 8), ip_proto = d ! (p + 9),
      ip_check = get2 d (p + 10), ip_src_addr = get4 d (p + 12), ip_dst_addr = get4 d (p + 16)\<rparr>"

definition bytes_Ipv4Hdr :: "Ipv4Hdr \<Rightarrow> u8 list" where
  "bytes_Ipv4Hdr h =
     [ip_vihl h, ip_tos h] @ list2 (ip_tot_len h) @ list2 (ip_id h) @ list2 (ip_frags h) @
     [ip_ttl h, ip_proto h] @ list2 (ip_check h) @ list4 (ip_src_addr h) @ list4 (ip_dst_addr h)"

record xdp_maps =
  ARP_TABLE :: "ArpKey \<rightharpoonup> mac"
  DSCP_ID :: "u32 \<rightharpoonup> u8"
  ORIG_DSCP :: "FlowKey \<rightharpoonup> u8"
  L2_LEN :: "u32 \<rightharpoonup> u8"

record XdpContext =
  xdp_data :: "u8 list"
  ingress_ifindex :: u32

datatype xdp_action = XDP_ABORTED | XDP_DROP | XDP_PASS | XDP_TX | XDP_REDIRECT

section \<open>The XDP program\<close>

text \<open>\<open>ptr_at<T>(ctx, offset)\<close> with \<open>len\<close> the size of \<open>T\<close>: the pointer is the offset.\<close>

definition ptr_at :: "nat \<Rightarrow> XdpContext \<Rightarrow> nat \<Rightarrow> unit + nat" where
  "ptr_at len ctx offset =
     (if offset + len > length (xdp_data ctx) then Inl () else Inr offset)"

type_synonym xdp_result = "(unit + xdp_action) \<times> XdpContext \<times> xdp_maps"

definition try_arp :: "ebpf_env \<Rightarrow> xdp_maps \<Rightarrow> XdpContext \<Rightarrow> nat \<Rightarrow> xdp_result" where
  "try_arp env maps ctx eth =
     (case ptr_at ArpHdr_LEN ctx EthHdr_LEN of
        Inl e \<Rightarrow> (Inl e, ctx, maps)
      | Inr arp \<Rightarrow>
          let d = xdp_data ctx; a = load_ArpHdr d arp in
          if u16_from_be_bytes (arp_oper a) \<noteq> ARPOP_REQUEST then (Inr XDP_PASS, ctx, maps)
          else
            let tpa = arp_tpa a;
                target_ip = u32_from_ne_bytes (env_endian env) tpa;
                key = \<lparr>ak_ifindex = ingress_ifindex ctx, ak_ip = target_ip\<rparr>
            in (case ARP_TABLE maps key of
                 None \<Rightarrow> (Inr XDP_PASS, ctx, maps)
               | Some our_mac \<Rightarrow>
                   let a1 = a\<lparr>arp_oper := u16_to_be_bytes ARPOP_REPLY\<rparr>;
                       old_sha = arp_sha a1; old_spa = arp_spa a1;
                       a2 = a1\<lparr>arp_tha := old_sha, arp_tpa := old_spa\<rparr>;
                       a3 = a2\<lparr>arp_sha := our_mac, arp_spa := tpa\<rparr>;
                       d1 = put_bytes arp (bytes_ArpHdr a3) d;
                       h = load_EthHdr d1 eth;
                       h1 = h\<lparr>eth_dst_addr := eth_src_addr h\<rparr>;
                       h2 = h1\<lparr>eth_src_addr := our_mac\<rparr>;
                       d2 = put_bytes eth (bytes_EthHdr h2) d1
                   in (Inr XDP_TX, ctx\<lparr>xdp_data := d2\<rparr>, maps)))"

definition xdp_flow_key :: "ebpf_env \<Rightarrow> XdpContext \<Rightarrow> nat \<Rightarrow> FlowKey" where
  "xdp_flow_key env ctx ip =
     (let h = load_Ipv4Hdr (xdp_data ctx) ip;
          src = u32_from_ne_bytes (env_endian env) (ip_src_addr h);
          dst = u32_from_ne_bytes (env_endian env) (ip_dst_addr h);
          proto = ip_proto h;
          (sport, dport) =
            (if (proto = IPPROTO_TCP \<or> proto = IPPROTO_UDP) \<and>
                unat (ihl_of env (ip_vihl h)) = Ipv4Hdr_LEN
             then (case ptr_at 4 ctx (EthHdr_LEN + Ipv4Hdr_LEN) of
                    Inl _ \<Rightarrow> (0, 0)
                  | Inr ports \<Rightarrow>
                      (u16_from_be_bytes (get2 (xdp_data ctx) ports),
                       u16_from_be_bytes (get2 (xdp_data ctx) (ports + 2))))
             else (0, 0))
      in FlowKey_new src dst sport dport proto)"

type_synonym lru_insert = "FlowKey \<Rightarrow> u8 \<Rightarrow> (FlowKey \<rightharpoonup> u8) \<Rightarrow> (FlowKey \<rightharpoonup> u8)"

definition try_stamp :: "ebpf_env \<Rightarrow> lru_insert \<Rightarrow> xdp_maps \<Rightarrow> XdpContext \<Rightarrow> xdp_result" where
  "try_stamp env lru maps ctx =
     (let ifindex = ingress_ifindex ctx; pass = (Inr XDP_PASS, ctx, maps) in
      case DSCP_ID maps ifindex of
        None \<Rightarrow> pass
      | Some did \<Rightarrow>
          if \<not> (did \<noteq> 0 \<and> did \<le> DSCP_ID_MAX) then pass
          else (case ptr_at Ipv4Hdr_LEN ctx EthHdr_LEN of
            Inl e \<Rightarrow> (Inl e, ctx, maps)
          | Inr ip \<Rightarrow>
              let d = xdp_data ctx; h = load_Ipv4Hdr d ip;
                  dst = u32_from_ne_bytes (env_endian env) (ip_dst_addr h)
              in if ARP_TABLE maps \<lparr>ak_ifindex = ifindex, ak_ip = dst\<rparr> = None then pass
                 else
                   let old_tos = ip_tos h; new_tos = tos_with_dscp old_tos did in
                   if new_tos = old_tos then pass
                   else
                     let key = xdp_flow_key env ctx ip;
                         maps' = maps\<lparr>ORIG_DSCP :=
                           lru (reversed key) (drop_bit 2 old_tos) (ORIG_DSCP maps)\<rparr>;
                         vihl = ip_vihl h;
                         old_word = (push_bit 8 (ucast vihl)) OR ucast old_tos;
                         new_word = (push_bit 8 (ucast vihl)) OR ucast new_tos;
                         check = u16_from_be_bytes (ip_check h);
                         h1 = h\<lparr>ip_tos := new_tos\<rparr>;
                         h2 = h1\<lparr>ip_check := u16_to_be_bytes (csum_replace2 check old_word new_word)\<rparr>
                     in (Inr XDP_PASS, ctx\<lparr>xdp_data := put_bytes ip (bytes_Ipv4Hdr h2) d\<rparr>, maps')))"

definition try_dumbarp :: "ebpf_env \<Rightarrow> lru_insert \<Rightarrow> xdp_maps \<Rightarrow> XdpContext \<Rightarrow> xdp_result" where
  "try_dumbarp env lru maps ctx =
     (case ptr_at EthHdr_LEN ctx 0 of
        Inl e \<Rightarrow> (Inl e, ctx, maps)
      | Inr eth \<Rightarrow>
          let ether_type =
            u16_from_ne_bytes (env_endian env) (eth_ether_type (load_EthHdr (xdp_data ctx) eth))
          in if ether_type = ethertype_arp env then try_arp env maps ctx eth
             else if ether_type = ethertype_ipv4 env then try_stamp env lru maps ctx
             else (Inr XDP_PASS, ctx, maps))"

definition dumbarp ::
  "ebpf_env \<Rightarrow> lru_insert \<Rightarrow> xdp_maps \<Rightarrow> XdpContext \<Rightarrow> xdp_action \<times> XdpContext \<times> xdp_maps" where
  "dumbarp env lru maps ctx =
     (case try_dumbarp env lru maps ctx of
        (Inr action, s) \<Rightarrow> (action, s)
      | (Inl _, s) \<Rightarrow> (XDP_PASS, s))"

section \<open>The egress classifier\<close>

record TcContext =
  skb_data :: "u8 list"
  skb_protocol :: u32
  skb_ifindex :: u32

record tc_helpers =
  skb_load :: "u8 list \<Rightarrow> nat \<Rightarrow> nat \<Rightarrow> unit + u8 list"
  skb_store :: "u8 list \<Rightarrow> nat \<Rightarrow> u8 list \<Rightarrow> (unit + unit) \<times> u8 list"
  l3_csum_replace :: "u8 list \<Rightarrow> nat \<Rightarrow> u64 \<Rightarrow> u64 \<Rightarrow> u64 \<Rightarrow> (unit + unit) \<times> u8 list"

definition l2_len :: "xdp_maps \<Rightarrow> u32 \<Rightarrow> nat option" where
  "l2_len maps ifindex =
     (case L2_LEN maps ifindex of
        Some l \<Rightarrow> if l = 0 then Some 0 else Some EthHdr_LEN
      | None \<Rightarrow> None)"

definition tc_flow_key :: "ebpf_env \<Rightarrow> tc_helpers \<Rightarrow> TcContext \<Rightarrow> Ipv4Hdr \<Rightarrow> nat \<Rightarrow> FlowKey" where
  "tc_flow_key env hlp ctx h l2 =
     (let src = u32_from_ne_bytes (env_endian env) (ip_src_addr h);
          dst = u32_from_ne_bytes (env_endian env) (ip_dst_addr h);
          proto = ip_proto h;
          (sport, dport) =
            (if (proto = IPPROTO_TCP \<or> proto = IPPROTO_UDP) \<and>
                unat (ihl_of env (ip_vihl h)) = Ipv4Hdr_LEN
             then (case skb_load hlp (skb_data ctx) (l2 + Ipv4Hdr_LEN) 4 of
                    Inl _ \<Rightarrow> (0, 0)
                  | Inr ports \<Rightarrow>
                      (u16_from_be_bytes (get2 ports 0), u16_from_be_bytes (get2 ports 2)))
             else (0, 0))
      in FlowKey_new src dst sport dport proto)"

definition try_terminate ::
  "ebpf_env \<Rightarrow> tc_helpers \<Rightarrow> xdp_maps \<Rightarrow> TcContext \<Rightarrow> (unit + tc_action) \<times> TcContext" where
  "try_terminate env hlp maps ctx =
     (let pass = (Inr TC_ACT_OK, ctx) in
      if skb_protocol ctx \<noteq> ucast (ethertype_ipv4 env) then pass
      else
        let ifindex = skb_ifindex ctx in
        case DSCP_ID maps ifindex of
          None \<Rightarrow> pass
        | Some our_id \<Rightarrow>
            if our_id = 0 then pass
            else (case l2_len maps ifindex of
              None \<Rightarrow> pass
            | Some l2 \<Rightarrow>
                (case skb_load hlp (skb_data ctx) l2 Ipv4Hdr_LEN of
                   Inl _ \<Rightarrow> (Inl (), ctx)
                 | Inr bs \<Rightarrow>
                     let ip = load_Ipv4Hdr bs 0; old_tos = ip_tos ip in
                     if drop_bit 2 old_tos \<noteq> our_id then pass
                     else
                       let key = tc_flow_key env hlp ctx ip l2;
                           restored = (case ORIG_DSCP maps key of Some v \<Rightarrow> v | None \<Rightarrow> 0);
                           new_tos = tos_with_dscp old_tos restored
                       in if new_tos = old_tos then pass
                          else
                            let old_word = (push_bit 8 (ucast (ip_vihl ip))) OR ucast old_tos;
                                new_word = (push_bit 8 (ucast (ip_vihl ip))) OR ucast new_tos
                            in (case skb_store hlp (skb_data ctx) (l2 + IPV4_TOS_OFFSET) [new_tos] of
                                 (Inl _, d1) \<Rightarrow> (Inl (), ctx\<lparr>skb_data := d1\<rparr>)
                               | (Inr _, d1) \<Rightarrow>
                                   (case l3_csum_replace hlp d1 (l2 + IPV4_CHECK_OFFSET)
                                           (ucast (u16_to_be (env_endian env) old_word))
                                           (ucast (u16_to_be (env_endian env) new_word)) 2 of
                                      (Inl _, d2) \<Rightarrow> (Inl (), ctx\<lparr>skb_data := d2\<rparr>)
                                    | (Inr _, d2) \<Rightarrow> (Inr TC_ACT_OK, ctx\<lparr>skb_data := d2\<rparr>))))))"

definition dumbarp_egress ::
  "ebpf_env \<Rightarrow> tc_helpers \<Rightarrow> xdp_maps \<Rightarrow> TcContext \<Rightarrow> tc_action \<times> TcContext" where
  "dumbarp_egress env hlp maps ctx =
     (case try_terminate env hlp maps ctx of
        (Inr action, s) \<Rightarrow> (action, s)
      | (Inl _, s) \<Rightarrow> (TC_ACT_OK, s))"

section \<open>Loading and storing headers\<close>

lemmas header_defs = load_EthHdr_def load_ArpHdr_def load_Ipv4Hdr_def get2_def get4_def get6_def
  bytes_EthHdr_def bytes_ArpHdr_def bytes_Ipv4Hdr_def

lemma length_list2 [simp]: "length (list2 x) = 2"
  by (cases x) simp

lemma length_list4 [simp]: "length (list4 x) = 4"
  by (cases x) simp

lemma length_list6 [simp]: "length (list6 x) = 6"
  by (cases x) simp

lemma length_bytes_hdr [simp]:
  "length (bytes_EthHdr h) = 14" "length (bytes_ArpHdr a) = 28" "length (bytes_Ipv4Hdr i) = 20"
  by (simp_all add: header_defs)

lemma load_put_EthHdr:
  "in_range p 14 d \<Longrightarrow> load_EthHdr (put_bytes p (bytes_EthHdr h) d) p = h"
  by (cases h) (auto simp: header_defs nth_put_bytes)

lemma load_put_ArpHdr:
  "in_range p 28 d \<Longrightarrow> load_ArpHdr (put_bytes p (bytes_ArpHdr h) d) p = h"
  by (cases h) (auto simp: header_defs nth_put_bytes)

lemma load_EthHdr_frame:
  "in_range q (length bs) d \<Longrightarrow> p + 14 \<le> q \<Longrightarrow> load_EthHdr (put_bytes q bs d) p = load_EthHdr d p"
  by (auto simp: header_defs nth_put_bytes)

lemma load_ArpHdr_frame:
  "in_range q (length bs) d \<Longrightarrow> q + length bs \<le> p \<Longrightarrow>
    load_ArpHdr (put_bytes q bs d) p = load_ArpHdr d p"
  by (auto simp: header_defs nth_put_bytes)

lemma drop_put_bytes:
  "in_range off (length bs) d \<Longrightarrow> off + length bs \<le> n \<Longrightarrow> drop n (put_bytes off bs d) = drop n d"
  by (auto simp: put_bytes_def in_range_def)

text \<open>Storing a header with a new TOS byte and a new checksum changes just three bytes.\<close>

lemma less_20_cases: "k < (20 :: nat) \<Longrightarrow>
    k = 0 \<or> k = 1 \<or> k = 2 \<or> k = 3 \<or> k = 4 \<or> k = 5 \<or> k = 6 \<or> k = 7
    \<or> k = 8 \<or> k = 9 \<or> k = 10 \<or> k = 11 \<or> k = 12 \<or> k = 13 \<or> k = 14
    \<or> k = 15 \<or> k = 16 \<or> k = 17 \<or> k = 18 \<or> k = 19"
  by presburger

lemma nth_bytes_Ipv4Hdr:
  assumes "k < 20"
  shows "bytes_Ipv4Hdr ((load_Ipv4Hdr d p)\<lparr>ip_tos := t, ip_check := (c0, c1)\<rparr>) ! k =
    (if k = 1 then t else if k = 10 then c0 else if k = 11 then c1 else d ! (p + k))"
  using less_20_cases [OF assms]
  by (elim disjE) (simp_all add: header_defs add.commute numeral_3_eq_3)

lemma put_Ipv4Hdr_update:
  assumes "in_range p 20 d"
  shows "put_bytes p (bytes_Ipv4Hdr ((load_Ipv4Hdr d p)\<lparr>ip_tos := t, ip_check := (c0, c1)\<rparr>)) d =
    d[p + 1 := t, p + 10 := c0, p + 11 := c1]" (is "?l = ?r")
proof (rule nth_equalityI)
  show "length ?l = length ?r" using assms by simp
  fix i assume "i < length ?l"
  then have "i < length d" using assms by simp
  moreover have "p + (i - p) = i" if "p \<le> i" using that by simp
  ultimately show "?l ! i = ?r ! i"
    using assms by (auto simp: nth_put_bytes nth_list_update nth_bytes_Ipv4Hdr)
qed

section \<open>Words of an updated header\<close>

lemma length_be_words: "length (be_words h) = length h div 2"
  by (induction h rule: be_words.induct) auto

lemma nth_be_words:
  "2 * i + 1 < length h \<Longrightarrow> be_words h ! i = u16_from_be_bytes (h ! (2 * i), h ! (2 * i + 1))"
proof (induction h arbitrary: i rule: be_words.induct)
  case (1 a b bs)
  then show ?case by (cases i) auto
qed auto

lemma be_words_update2:
  "2 * i + 1 < length h \<Longrightarrow>
    be_words (h[2 * i := x, 2 * i + 1 := y]) = (be_words h)[i := u16_from_be_bytes (x, y)]"
proof (induction h arbitrary: i rule: be_words.induct)
  case (1 a b bs)
  then show ?case by (cases i) auto
qed auto

lemma be_words_tos_check:
  assumes "12 \<le> length h"
  shows "be_words (h[1 := t, 10 := c0, 11 := c1]) =
    (be_words h)[0 := u16_from_be_bytes (h ! 0, t), 5 := u16_from_be_bytes (c0, c1)]"
proof -
  have "h[1 := t] = h[2 * 0 := h ! 0, 2 * 0 + 1 := t]" by simp
  then have "be_words (h[1 := t]) = (be_words h)[0 := u16_from_be_bytes (h ! 0, t)]"
    using be_words_update2 [of 0 h "h ! 0" t] assms by simp
  moreover have "be_words (h[1 := t, 2 * 5 := c0, 2 * 5 + 1 := c1]) =
      (be_words (h[1 := t]))[5 := u16_from_be_bytes (c0, c1)]"
    using assms by (intro be_words_update2) simp
  ultimately show ?thesis by simp
qed

text \<open>A receiver accepts a header when the checksum over all of it, checksum included, is 0.\<close>

lemma header_accepted_iff:
  assumes "length h \<le> 60"
  shows "full_checksum h = 0 \<longleftrightarrow>
    word_sum (be_words h) mod 65535 = 0 \<and> 0 < word_sum (be_words h)"
proof -
  let ?s = "word_sum (be_words h)"
  have "unat (full_checksum h) = 65535 - ones ?s"
    using assms by (intro unat_full_checksum) (simp add: length_be_words)
  then have "full_checksum h = 0 \<longleftrightarrow> ones ?s = 65535"
    using ones_le [of ?s] by (auto simp: unat_eq_zero [symmetric] simp del: unat_eq_zero)
  also have "\<dots> \<longleftrightarrow> ?s mod 65535 = 0 \<and> 0 < ?s"
    using ones_mod [of ?s] ones_le [of ?s] ones_pos [of ?s]
    by (cases "?s = 0"; cases "ones ?s = 65535") (auto simp: ones_def)
  finally show ?thesis .
qed

lemma be_word_nonzero: "a \<noteq> 0 \<Longrightarrow> u16_from_be_bytes (a, b) \<noteq> 0"
  by (metis u16_to_be_bytes_from u16_to_be_bytes_def Pair_inject drop_bit_of_0 ucast_0)

context csum_update
begin

text \<open>
  Replacing the TOS byte and updating the checksum of an IPv4 header (up to 60 bytes, options
  included) neither breaks an accepted header nor makes a corrupt one acceptable.
\<close>

lemma upd_header:
  assumes len: "20 \<le> length h" "length h \<le> 60" and vihl: "h ! 0 \<noteq> 0"
    and c: "(c0, c1) = u16_to_be_bytes (upd (u16_from_be_bytes (h ! 10, h ! 11))
      (u16_from_be_bytes (h ! 0, h ! 1)) (u16_from_be_bytes (h ! 0, t)))"
  shows "full_checksum (h[1 := t, 10 := c0, 11 := c1]) = 0 \<longleftrightarrow> full_checksum h = 0"
proof -
  let ?h = "h[1 := t, 10 := c0, 11 := c1]" and ?ws = "be_words h"
  let ?new = "u16_from_be_bytes (h ! 0, t)"
  have ws: "?ws ! 0 = u16_from_be_bytes (h ! 0, h ! 1)" "?ws ! 5 = u16_from_be_bytes (h ! 10, h ! 11)"
    using len nth_be_words [of 0 h] nth_be_words [of 5 h] by simp_all
  have "u16_from_be_bytes (c0, c1) = upd (?ws ! 5) (?ws ! 0) ?new"
    unfolding c ws by (rule u16_be_bytes_roundtrip)
  then have ws': "be_words ?h = ?ws[0 := ?new, 5 := upd (?ws ! 5) (?ws ! 0) ?new]"
    using len be_words_tos_check [of h t c0 c1] by simp
  then have "word_sum (be_words ?h) mod 65535 = word_sum ?ws mod 65535"
    using len by (simp add: upd_words length_be_words)
  moreover have "0 < word_sum ?ws" "0 < word_sum (be_words ?h)"
  proof -
    have "?ws ! 0 \<in> set ?ws" "be_words ?h ! 0 \<in> set (be_words ?h)"
      using len by (auto intro!: nth_mem simp: length_be_words)
    moreover have "?ws ! 0 \<noteq> 0" "be_words ?h ! 0 \<noteq> 0"
      using len vihl by (simp_all only: ws ws') (simp_all add: length_be_words be_word_nonzero)
    ultimately show "0 < word_sum ?ws" "0 < word_sum (be_words ?h)" by (metis word_sum_pos)+
  qed
  ultimately show ?thesis using len by (simp add: header_accepted_iff)
qed

end

section \<open>What the XDP program does with a frame\<close>

text \<open>The specification vocabulary: when a frame is an ARP request this host answers, and when an
  IPv4 packet is stamped.\<close>

definition ether_type_of :: "ebpf_env \<Rightarrow> u8 list \<Rightarrow> u16" where
  "ether_type_of env d = u16_from_ne_bytes (env_endian env) (eth_ether_type (load_EthHdr d 0))"

definition arp_key :: "ebpf_env \<Rightarrow> u32 \<Rightarrow> bytes4 \<Rightarrow> ArpKey" where
  "arp_key env ifindex a = \<lparr>ak_ifindex = ifindex, ak_ip = u32_from_ne_bytes (env_endian env) a\<rparr>"

definition arp_request_for :: "ebpf_env \<Rightarrow> xdp_maps \<Rightarrow> XdpContext \<Rightarrow> mac \<Rightarrow> bool" where
  "arp_request_for env maps ctx m \<longleftrightarrow>
     (let d = xdp_data ctx; a = load_ArpHdr d 14 in
      42 \<le> length d \<and> ether_type_of env d = ethertype_arp env \<and>
      u16_from_be_bytes (arp_oper a) = 1 \<and>
      ARP_TABLE maps (arp_key env (ingress_ifindex ctx) (arp_tpa a)) = Some m)"

definition arp_reply_to :: "ArpHdr \<Rightarrow> mac \<Rightarrow> ArpHdr" where
  "arp_reply_to a m = a\<lparr>arp_oper := u16_to_be_bytes 2, arp_tha := arp_sha a, arp_tpa := arp_spa a,
     arp_sha := m, arp_spa := arp_tpa a\<rparr>"

definition stamps :: "ebpf_env \<Rightarrow> xdp_maps \<Rightarrow> XdpContext \<Rightarrow> u8 \<Rightarrow> bool" where
  "stamps env maps ctx did \<longleftrightarrow>
     (let d = xdp_data ctx; h = load_Ipv4Hdr d 14 in
      34 \<le> length d \<and> ether_type_of env d = ethertype_ipv4 env \<and>
      ether_type_of env d \<noteq> ethertype_arp env \<and>
      DSCP_ID maps (ingress_ifindex ctx) = Some did \<and> did \<noteq> 0 \<and> did \<le> DSCP_ID_MAX \<and>
      ARP_TABLE maps (arp_key env (ingress_ifindex ctx) (ip_dst_addr h)) \<noteq> None \<and>
      tos_with_dscp (ip_tos h) did \<noteq> ip_tos h)"

text \<open>The packet after the TOS byte of the IPv4 header at offset \<open>p\<close> changes to \<open>t\<close>.\<close>

definition retag :: "(u16 \<Rightarrow> u16 \<Rightarrow> u16 \<Rightarrow> u16) \<Rightarrow> nat \<Rightarrow> u8 \<Rightarrow> u8 list \<Rightarrow> u8 list" where
  "retag upd p t d =
     (let (c0, c1) = u16_to_be_bytes (upd (u16_from_be_bytes (get2 d (p + 10)))
            (u16_from_be_bytes (d ! p, d ! (p + 1))) (u16_from_be_bytes (d ! p, t)))
      in d[p + 1 := t, p + 10 := c0, p + 11 := c1])"

lemma be_word_fold: "(push_bit 8 (ucast a)) OR ucast b = u16_from_be_bytes (a, b)"
  by (simp add: u16_from_be_bytes.simps)

lemma retag_Ipv4Hdr:
  assumes "in_range p 20 d" and h: "h = load_Ipv4Hdr d p"
  shows "put_bytes p (bytes_Ipv4Hdr (h\<lparr>ip_tos := t, ip_check := u16_to_be_bytes
      (upd (u16_from_be_bytes (ip_check h)) (u16_from_be_bytes (ip_vihl h, ip_tos h))
        (u16_from_be_bytes (ip_vihl h, t)))\<rparr>)) d = retag upd p t d"
proof -
  have "ip_check h = get2 d (p + 10)" "ip_vihl h = d ! p" "ip_tos h = d ! (p + 1)"
    by (simp_all add: h load_Ipv4Hdr_def)
  then show ?thesis
    using put_Ipv4Hdr_update [OF assms(1)] by (simp add: retag_def h split: prod.split)
qed

lemma length_retag [simp]: "length (retag upd p t d) = length d"
  by (simp add: retag_def split: prod.split)

lemma retag_frame: "i \<notin> {p + 1, p + 10, p + 11} \<Longrightarrow> retag upd p t d ! i = d ! i"
  by (auto simp: retag_def split: prod.split)

lemma retag_tos: "p + 1 < length d \<Longrightarrow> retag upd p t d ! (p + 1) = t"
  by (auto simp: retag_def split: prod.split)

lemma take_drop_update:
  "i < n \<Longrightarrow> take n (drop p (d[p + i := x])) = (take n (drop p d))[i := x]"
  by (simp add: drop_update_swap take_update_swap)

lemma retag_header:
  assumes "csum_update upd" and len: "20 \<le> n" "n \<le> 60" "p + n \<le> length d" and vihl: "d ! p \<noteq> 0"
  shows "full_checksum (take n (drop p (retag upd p t d))) = 0 \<longleftrightarrow>
    full_checksum (take n (drop p d)) = 0"
proof -
  let ?h = "take n (drop p d)"
  have nth: "?h ! i = d ! (p + i)" if "i < n" for i using that len by simp
  obtain c0 c1 where c: "(c0, c1) = u16_to_be_bytes (upd (u16_from_be_bytes (?h ! 10, ?h ! 11))
      (u16_from_be_bytes (?h ! 0, ?h ! 1)) (u16_from_be_bytes (?h ! 0, t)))"
    by (metis surj_pair)
  then have "retag upd p t d = d[p + 1 := t, p + 10 := c0, p + 11 := c1]"
    using len nth [of 0] nth [of 1] nth [of 10] nth [of 11]
    by (auto simp: retag_def get2_def add.commute split: prod.splits)
  then have "take n (drop p (retag upd p t d)) = ?h[1 := t, 10 := c0, 11 := c1]"
    using len by (simp only: take_drop_update)
  with csum_update.upd_header [OF assms(1) _ _ _ c] len vihl nth [of 0] show ?thesis
    by simp
qed

lemma try_arp_request:
  assumes "arp_request_for env maps ctx m" and d: "d = xdp_data ctx"
  shows "try_arp env maps ctx 0 = (Inr XDP_TX, ctx\<lparr>xdp_data :=
    put_bytes 0 (bytes_EthHdr ((load_EthHdr d 0)\<lparr>eth_dst_addr := eth_src_addr (load_EthHdr d 0),
        eth_src_addr := m\<rparr>))
      (put_bytes 14 (bytes_ArpHdr (arp_reply_to (load_ArpHdr d 14) m)) d)\<rparr>, maps)"
proof -
  have "42 \<le> length d" using assms by (simp add: arp_request_for_def Let_def)
  then have "load_EthHdr (put_bytes 14 (bytes_ArpHdr a) d) 0 = load_EthHdr d 0" for a
    by (intro load_EthHdr_frame) (simp_all add: in_range_def)
  with assms show ?thesis
    by (simp add: try_arp_def arp_request_for_def arp_reply_to_def ptr_at_def arp_key_def Let_def
        const_defs)
qed

lemma try_arp_other:
  assumes "\<And>m. \<not> arp_request_for env maps ctx m"
    and et: "ether_type_of env (xdp_data ctx) = ethertype_arp env"
  shows "\<exists>r. try_arp env maps ctx 0 = (r, ctx, maps) \<and> (r = Inl () \<or> r = Inr XDP_PASS)"
proof -
  let ?a = "load_ArpHdr (xdp_data ctx) 14"
  let ?t = "ARP_TABLE maps (arp_key env (ingress_ifindex ctx) (arp_tpa ?a))"
  consider "length (xdp_data ctx) < 42" | "u16_from_be_bytes (arp_oper ?a) \<noteq> 1" | "?t = None"
  proof (cases ?t)
    case (Some m)
    with assms(1) [of m] et that show ?thesis
      by (auto simp: arp_request_for_def Let_def not_le)
  qed (rule that)
  then show ?thesis
    by cases (simp_all add: try_arp_def ptr_at_def arp_key_def Let_def const_defs)
qed

lemma try_stamp_stamps:
  assumes "stamps env maps ctx did" and d: "d = xdp_data ctx" and h: "h = load_Ipv4Hdr d 14"
  shows "try_stamp env lru maps ctx =
    (Inr XDP_PASS, ctx\<lparr>xdp_data := retag csum_replace2 14 (tos_with_dscp (ip_tos h) did) d\<rparr>,
     maps\<lparr>ORIG_DSCP := lru (reversed (xdp_flow_key env ctx 14)) (drop_bit 2 (ip_tos h))
       (ORIG_DSCP maps)\<rparr>)"
proof -
  have "in_range 14 20 d" using assms by (simp add: stamps_def Let_def in_range_def)
  then show ?thesis
    using assms retag_Ipv4Hdr [where p = 14 and d = d and h = h and upd = csum_replace2]
    by (auto simp: try_stamp_def stamps_def ptr_at_def arp_key_def Let_def be_word_fold
        EthHdr_LEN_def Ipv4Hdr_LEN_def)
qed

lemma try_stamp_other:
  assumes "\<And>did. \<not> stamps env maps ctx did"
    and et: "ether_type_of env (xdp_data ctx) = ethertype_ipv4 env"
      "ether_type_of env (xdp_data ctx) \<noteq> ethertype_arp env"
  shows "\<exists>r. try_stamp env lru maps ctx = (r, ctx, maps) \<and> (r = Inl () \<or> r = Inr XDP_PASS)"
proof (cases "DSCP_ID maps (ingress_ifindex ctx)")
  case None
  then show ?thesis by (simp add: try_stamp_def Let_def)
next
  case (Some did)
  let ?h = "load_Ipv4Hdr (xdp_data ctx) 14"
  from assms(1) [of did] et Some
  consider "\<not> (did \<noteq> 0 \<and> did \<le> DSCP_ID_MAX)" | "length (xdp_data ctx) < 34"
    | "ARP_TABLE maps (arp_key env (ingress_ifindex ctx) (ip_dst_addr ?h)) = None"
    | "tos_with_dscp (ip_tos ?h) did = ip_tos ?h"
    unfolding stamps_def Let_def by linarith
  then show ?thesis
    by cases (simp_all add: Some try_stamp_def ptr_at_def arp_key_def Let_def EthHdr_LEN_def
        Ipv4Hdr_LEN_def)
qed

lemma try_dumbarp_eq:
  "try_dumbarp env lru maps ctx =
    (if length (xdp_data ctx) < 14 then (Inl (), ctx, maps)
     else if ether_type_of env (xdp_data ctx) = ethertype_arp env then try_arp env maps ctx 0
     else if ether_type_of env (xdp_data ctx) = ethertype_ipv4 env then try_stamp env lru maps ctx
     else (Inr XDP_PASS, ctx, maps))"
  by (simp add: try_dumbarp_def ptr_at_def ether_type_of_def Let_def EthHdr_LEN_def)

lemma dumbarp_request:
  assumes "arp_request_for env maps ctx m" and d: "d = xdp_data ctx"
  shows "dumbarp env lru maps ctx = (XDP_TX, ctx\<lparr>xdp_data :=
    put_bytes 0 (bytes_EthHdr ((load_EthHdr d 0)\<lparr>eth_dst_addr := eth_src_addr (load_EthHdr d 0),
        eth_src_addr := m\<rparr>))
      (put_bytes 14 (bytes_ArpHdr (arp_reply_to (load_ArpHdr d 14) m)) d)\<rparr>, maps)"
  using assms try_arp_request [OF assms]
  by (simp add: dumbarp_def try_dumbarp_eq arp_request_for_def Let_def)

lemma dumbarp_stamps:
  assumes "stamps env maps ctx did" and d: "d = xdp_data ctx" and h: "h = load_Ipv4Hdr d 14"
  shows "dumbarp env lru maps ctx =
    (XDP_PASS, ctx\<lparr>xdp_data := retag csum_replace2 14 (tos_with_dscp (ip_tos h) did) d\<rparr>,
     maps\<lparr>ORIG_DSCP := lru (reversed (xdp_flow_key env ctx 14)) (drop_bit 2 (ip_tos h))
       (ORIG_DSCP maps)\<rparr>)"
  using assms(1) try_stamp_stamps [OF assms]
  by (auto simp: dumbarp_def try_dumbarp_eq stamps_def Let_def)

lemma dumbarp_other:
  assumes "\<And>m. \<not> arp_request_for env maps ctx m" "\<And>did. \<not> stamps env maps ctx did"
  shows "dumbarp env lru maps ctx = (XDP_PASS, ctx, maps)"
  using assms try_arp_other [of env maps ctx] try_stamp_other [of env maps ctx lru]
  by (auto simp: dumbarp_def try_dumbarp_eq)

lemma arp_request_not_stamps: "arp_request_for env maps ctx m \<Longrightarrow> \<not> stamps env maps ctx did"
  by (auto simp: arp_request_for_def stamps_def Let_def)

section \<open>What the egress classifier does with a packet\<close>

text \<open>
  The documented behaviour of the kernel's skb helpers, with \<open>upd\<close> the checksum update of
  \<open>bpf_l3_csum_replace\<close> for a 2-byte field: a load reads the bytes or fails out of range, a store
  and a checksum replacement either fail and leave the packet alone or do their work.
\<close>

definition tc_helpers_ok :: "endian \<Rightarrow> (u16 \<Rightarrow> u16 \<Rightarrow> u16 \<Rightarrow> u16) \<Rightarrow> tc_helpers \<Rightarrow> bool" where
  "tc_helpers_ok e upd hlp \<longleftrightarrow>
     (\<forall>d off n. skb_load hlp d off n =
        (if in_range off n d then Inr (take n (drop off d)) else Inl ())) \<and>
     (\<forall>d off bs. case skb_store hlp d off bs of
        (Inl _, d') \<Rightarrow> d' = d
      | (Inr _, d') \<Rightarrow> in_range off (length bs) d \<and> d' = put_bytes off bs d) \<and>
     (\<forall>d off from to. case l3_csum_replace hlp d off from to 2 of
        (Inl _, d') \<Rightarrow> d' = d
      | (Inr _, d') \<Rightarrow> in_range off 2 d \<and>
          d' = put_bytes off (list2 (u16_to_be_bytes (upd (u16_from_be_bytes (get2 d off))
                 (u16_to_be e (ucast from)) (u16_to_be e (ucast to))))) d)"

definition terminates :: "ebpf_env \<Rightarrow> xdp_maps \<Rightarrow> TcContext \<Rightarrow> nat \<Rightarrow> bool" where
  "terminates env maps ctx l2 \<longleftrightarrow>
     skb_protocol ctx = ucast (ethertype_ipv4 env) \<and>
     l2_len maps (skb_ifindex ctx) = Some l2 \<and> in_range l2 20 (skb_data ctx) \<and>
     DSCP_ID maps (skb_ifindex ctx) = Some (drop_bit 2 (skb_data ctx ! (l2 + 1))) \<and>
     drop_bit 2 (skb_data ctx ! (l2 + 1)) \<noteq> 0"

definition restored_tos :: "ebpf_env \<Rightarrow> tc_helpers \<Rightarrow> xdp_maps \<Rightarrow> TcContext \<Rightarrow> nat \<Rightarrow> u8" where
  "restored_tos env hlp maps ctx l2 =
     tos_with_dscp (skb_data ctx ! (l2 + 1))
       (case ORIG_DSCP maps (tc_flow_key env hlp ctx (load_Ipv4Hdr (skb_data ctx) l2) l2) of
          Some v \<Rightarrow> v
        | None \<Rightarrow> 0)"

lemma u16_to_be_involution [simp]: "u16_to_be e (u16_to_be e w) = w"
proof (cases e)
  case LittleEndian
  obtain a b where ab: "u16_to_be_bytes w = (a, b)" by (cases "u16_to_be_bytes w")
  then have "w = u16_from_be_bytes (a, b)" by (metis u16_be_bytes_roundtrip)
  with LittleEndian ab show ?thesis by (simp add: u16_to_be_def)
next
  case BigEndian
  then show ?thesis by (cases "u16_to_be_bytes w") (metis u16_be_bytes_roundtrip u16_from_ne_bytes.simps(1) u16_to_be_def)
qed

lemma ucast_u64_u16 [simp]: "(ucast (ucast (w :: u16) :: u64) :: u16) = w"
  by (rule bit_word_eqI) (simp add: bit_simps)

lemma load_Ipv4Hdr_slice:
  "in_range p 20 d \<Longrightarrow> load_Ipv4Hdr (take 20 (drop p d)) 0 = load_Ipv4Hdr d p"
  by (simp add: header_defs in_range_def add.commute)

lemma put_bytes_singleton: "in_range off 1 d \<Longrightarrow> put_bytes off [x] d = d[off := x]"
  by (rule nth_equalityI) (auto simp: nth_put_bytes nth_list_update in_range_def)

lemma put_bytes_pair: "in_range off 2 d \<Longrightarrow> put_bytes off [x, y] d = d[off := x, off + 1 := y]"
  by (rule nth_equalityI)
    (auto simp: nth_put_bytes nth_list_update in_range_def nth_Cons' less_Suc_eq)

lemma try_terminate_tagged:
  assumes "terminates env maps ctx l2" and ok: "tc_helpers_ok (env_endian env) upd hlp"
    and d: "d = skb_data ctx" and t: "t = restored_tos env hlp maps ctx l2"
  shows "try_terminate env hlp maps ctx = (Inr TC_ACT_OK, ctx) \<and> t = d ! (l2 + 1)
    \<or> try_terminate env hlp maps ctx = (Inr TC_ACT_OK, ctx\<lparr>skb_data := retag upd l2 t d\<rparr>)
    \<or> try_terminate env hlp maps ctx = (Inl (), ctx)
    \<or> try_terminate env hlp maps ctx = (Inl (), ctx\<lparr>skb_data := d[l2 + 1 := t]\<rparr>)"
proof -
  let ?h = "load_Ipv4Hdr d l2"
  have r: "in_range l2 20 d" using assms by (simp add: terminates_def)
  have load: "skb_load hlp d l2 Ipv4Hdr_LEN = Inr (take 20 (drop l2 d))"
    using ok r by (simp add: tc_helpers_ok_def Ipv4Hdr_LEN_def)
  have h: "ip_tos ?h = d ! (l2 + 1)" "ip_vihl ?h = d ! l2" by (simp_all add: load_Ipv4Hdr_def)
  have id: "DSCP_ID maps (skb_ifindex ctx) = Some (drop_bit 2 (d ! (l2 + 1)))"
    "drop_bit 2 (d ! (l2 + 1)) \<noteq> 0" "l2_len maps (skb_ifindex ctx) = Some l2"
    "skb_protocol ctx = ucast (ethertype_ipv4 env)"
    using assms by (simp_all add: terminates_def)
  have eq: "try_terminate env hlp maps ctx =
    (if t = d ! (l2 + 1) then (Inr TC_ACT_OK, ctx)
     else case skb_store hlp d (l2 + 1) [t] of
       (Inl _, d1) \<Rightarrow> (Inl (), ctx\<lparr>skb_data := d1\<rparr>)
     | (Inr _, d1) \<Rightarrow>
         (case l3_csum_replace hlp d1 (l2 + 10)
                 (ucast (u16_to_be (env_endian env) (u16_from_be_bytes (d ! l2, d ! (l2 + 1)))))
                 (ucast (u16_to_be (env_endian env) (u16_from_be_bytes (d ! l2, t)))) 2 of
            (Inl _, d2) \<Rightarrow> (Inl (), ctx\<lparr>skb_data := d2\<rparr>)
          | (Inr _, d2) \<Rightarrow> (Inr TC_ACT_OK, ctx\<lparr>skb_data := d2\<rparr>)))"
    using id load r h
    by (simp add: try_terminate_def Let_def load_Ipv4Hdr_slice be_word_fold t restored_tos_def
        d [symmetric] IPV4_TOS_OFFSET_def IPV4_CHECK_OFFSET_def split: prod.split sum.split)
  show ?thesis
  proof (cases "t = d ! (l2 + 1)")
    case False
    obtain r1 d1 where s: "skb_store hlp d (l2 + 1) [t] = (r1, d1)" by (metis surj_pair)
    let ?from = "ucast (u16_to_be (env_endian env) (u16_from_be_bytes (d ! l2, d ! (l2 + 1)))) :: u64"
    let ?to = "ucast (u16_to_be (env_endian env) (u16_from_be_bytes (d ! l2, t))) :: u64"
    obtain r2 d2 where c: "l3_csum_replace hlp d1 (l2 + 10) ?from ?to 2 = (r2, d2)" by (metis surj_pair)
    have d1: "case r1 of Inl _ \<Rightarrow> d1 = d | Inr _ \<Rightarrow> d1 = d[l2 + 1 := t]"
      using ok [unfolded tc_helpers_ok_def, THEN conjunct2, THEN conjunct1, rule_format, of d "l2 + 1" "[t]"] s
      by (auto simp: put_bytes_singleton split: sum.splits)
    have d2: "case r2 of Inl _ \<Rightarrow> d2 = d1 | Inr _ \<Rightarrow> d1 = d[l2 + 1 := t] \<longrightarrow> d2 = retag upd l2 t d"
      using ok [unfolded tc_helpers_ok_def, THEN conjunct2, THEN conjunct2, rule_format, of d1 "l2 + 10" ?from ?to] c
      by (cases r2) (auto simp: retag_def get2_def put_bytes_pair add.commute split: prod.splits)
    show ?thesis
      using eq False s c d1 d2 by (cases r1; cases r2) (auto simp: d)
  qed (simp add: eq)
qed

lemma try_terminate_other:
  assumes "\<And>l2. \<not> terminates env maps ctx l2" and ok: "tc_helpers_ok e upd hlp"
  shows "\<exists>r. try_terminate env hlp maps ctx = (r, ctx) \<and> (r = Inl () \<or> r = Inr TC_ACT_OK)"
proof (cases "l2_len maps (skb_ifindex ctx)")
  case (Some l2)
  from ok have "skb_load hlp (skb_data ctx) l2 20 = (if in_range l2 20 (skb_data ctx)
      then Inr (take 20 (drop l2 (skb_data ctx))) else Inl ())"
    by (simp add: tc_helpers_ok_def)
  moreover have "ip_tos (load_Ipv4Hdr (skb_data ctx) l2) = skb_data ctx ! (l2 + 1)"
    by (simp add: load_Ipv4Hdr_def)
  ultimately show ?thesis
    using assms(1) [of l2] Some
    by (auto simp: try_terminate_def terminates_def Let_def load_Ipv4Hdr_slice Ipv4Hdr_LEN_def
        split: option.splits)
qed (auto simp: try_terminate_def Let_def split: option.splits)

section \<open>A flow and its replies\<close>





text \<open>A frame of the same flow, which is stamped and so recorded under the same key.\<close>

definition restamps :: "ebpf_env \<Rightarrow> xdp_maps \<Rightarrow> XdpContext \<Rightarrow> XdpContext \<Rightarrow> bool" where
  "restamps env maps ctx c \<longleftrightarrow>
     (\<exists>did. stamps env maps c did) \<and> xdp_flow_key env c 14 = xdp_flow_key env ctx 14"

lemma restamps_upd [simp]: "restamps env (maps\<lparr>ORIG_DSCP := o1\<rparr>) = restamps env maps"
  by (intro ext) (simp add: restamps_def stamps_def)







section \<open>Concrete frames\<close>

text \<open>
  A host with interface 2 that answers for 10.0.0.1 and stamps identity 5, an ARP request, a TCP
  packet with DSCP 10 and its tagged reply; and an instance of the parameters.
\<close>

definition sample_env :: ebpf_env where
  "sample_env = \<lparr>env_endian = LittleEndian, ethertype_arp = 0x0608, ethertype_ipv4 = 0x0008,
     ihl_of = (\<lambda>v. (v AND 15) * 4)\<rparr>"

definition sample_maps :: xdp_maps where
  "sample_maps = \<lparr>
     ARP_TABLE = (\<lambda>k. if k = arp_key sample_env 2 (10, 0, 0, 1) then Some (2, 0, 0, 0, 0, 1) else None),
     DSCP_ID = (\<lambda>i. if i = 2 then Some 5 else None), ORIG_DSCP = (\<lambda>_. None),
     L2_LEN = (\<lambda>i. if i = 2 then Some 14 else None)\<rparr>"

definition sample_arp :: XdpContext where
  "sample_arp = \<lparr>xdp_data =
     [255, 255, 255, 255, 255, 255, 2, 0, 0, 0, 0, 9, 8, 6,
      0, 1, 8, 0, 6, 4, 0, 1, 2, 0, 0, 0, 0, 9, 10, 0, 0, 9, 0, 0, 0, 0, 0, 0, 10, 0, 0, 1],
     ingress_ifindex = 2\<rparr>"

definition sample_packet :: XdpContext where
  "sample_packet = \<lparr>xdp_data =
     [2, 0, 0, 0, 0, 1, 2, 0, 0, 0, 0, 9, 8, 0,
      0x45, 40, 0, 24, 0, 1, 0, 0, 64, 6, 0x66, 0xae, 10, 0, 0, 9, 10, 0, 0, 1, 0x12, 0x34, 0, 80],
     ingress_ifindex = 2\<rparr>"

definition sample_reply :: TcContext where
  "sample_reply = \<lparr>skb_data =
     [2, 0, 0, 0, 0, 9, 2, 0, 0, 0, 0, 1, 8, 0,
      0x45, 21, 0, 24, 0, 1, 0, 0, 64, 6, 0x66, 0xc1, 10, 0, 0, 1, 10, 0, 0, 9, 0, 80, 0x12, 0x34],
     skb_protocol = 0x0008, skb_ifindex = 2\<rparr>"

definition sample_lru :: lru_insert where
  "sample_lru k v m = m(k \<mapsto> v)"

definition sample_helpers :: tc_helpers where
  "sample_helpers = \<lparr>
     skb_load = (\<lambda>d off n. if in_range off n d then Inr (take n (drop off d)) else Inl ()),
     skb_store = (\<lambda>d off bs. if in_range off (length bs) d then (Inr (), put_bytes off bs d)
       else (Inl (), d)),
     l3_csum_replace = (\<lambda>d off from to n. if in_range off 2 d then
       (Inr (), put_bytes off (list2 (u16_to_be_bytes (csum_replace2 (u16_from_be_bytes (get2 d off))
          (u16_to_be LittleEndian (ucast from)) (u16_to_be LittleEndian (ucast to))))) d)
       else (Inl (), d))\<rparr>"

lemma sample_helpers_ok: "tc_helpers_ok (env_endian sample_env) csum_replace2 sample_helpers"
  by (auto simp: tc_helpers_ok_def sample_helpers_def sample_env_def)


lemma sample_arp_request: "arp_request_for sample_env sample_maps sample_arp (2, 0, 0, 0, 0, 1)"
  by (simp add: arp_request_for_def sample_arp_def sample_maps_def ether_type_of_def sample_env_def
      header_defs u16_from_be_bytes.simps)

lemma sample_stamps: "stamps sample_env sample_maps sample_packet 5"
  by (simp add: stamps_def sample_packet_def sample_maps_def ether_type_of_def sample_env_def
      header_defs u16_from_be_bytes.simps DSCP_ID_MAX_def tos_with_dscp_def)


lemma sample_terminates: "terminates sample_env sample_maps sample_reply 14"
  by (simp add: terminates_def sample_env_def sample_maps_def sample_reply_def l2_len_def
      in_range_def EthHdr_LEN_def drop_bit_eq_div)

lemma sample_headers_accepted:
  "full_checksum (take 20 (drop 14 (xdp_data sample_packet))) = 0"
  "full_checksum (take 20 (drop 14 (skb_data sample_reply))) = 0"
  by (simp_all add: header_accepted_iff sample_packet_def sample_reply_def word_sum_def
      u16_from_be_bytes.simps)

lemma sample_success:
  "DSCP_ID m = DSCP_ID sample_maps \<Longrightarrow> L2_LEN m = L2_LEN sample_maps \<Longrightarrow>
   fst (try_terminate sample_env sample_helpers m sample_reply) = Inr TC_ACT_OK"
  by (simp add: try_terminate_def Let_def sample_helpers_def sample_reply_def sample_env_def
      sample_maps_def l2_len_def in_range_def const_defs drop_bit_eq_div put_bytes_def
      split: option.split)

section \<open>Properties\<close>

text \<open>
  C4. An ARP request for an address in \<open>ARP_TABLE\<close> is turned into the reply in place: the frame
  goes back to its sender from the recorded MAC address, operation, sender and target fields are
  those of the reply, and nothing behind the ARP header changes.
\<close>

theorem arp_request_answered:
  assumes req: "arp_request_for env maps ctx m"
  shows "\<exists>d'. dumbarp env lru maps ctx = (XDP_TX, ctx\<lparr>xdp_data := d'\<rparr>, maps) \<and>
    length d' = length (xdp_data ctx) \<and> drop 42 d' = drop 42 (xdp_data ctx) \<and>
    load_EthHdr d' 0 = \<lparr>eth_dst_addr = eth_src_addr (load_EthHdr (xdp_data ctx) 0),
      eth_src_addr = m, eth_ether_type = eth_ether_type (load_EthHdr (xdp_data ctx) 0)\<rparr> \<and>
    load_ArpHdr d' 14 = (load_ArpHdr (xdp_data ctx) 14)\<lparr>
      arp_oper := (0, 2), arp_sha := m, arp_spa := arp_tpa (load_ArpHdr (xdp_data ctx) 14),
      arp_tha := arp_sha (load_ArpHdr (xdp_data ctx) 14),
      arp_tpa := arp_spa (load_ArpHdr (xdp_data ctx) 14)\<rparr>"
proof -
  let ?d = "xdp_data ctx"
  let ?d1 = "put_bytes 14 (bytes_ArpHdr (arp_reply_to (load_ArpHdr ?d 14) m)) ?d"
  let ?h = "(load_EthHdr ?d 0)\<lparr>eth_dst_addr := eth_src_addr (load_EthHdr ?d 0), eth_src_addr := m\<rparr>"
  let ?d2 = "put_bytes 0 (bytes_EthHdr ?h) ?d1"
  have len: "in_range 14 28 ?d" using req by (simp add: arp_request_for_def in_range_def Let_def)
  then have len1: "in_range 0 14 ?d1" by (simp add: in_range_def)
  have "load_ArpHdr ?d2 14 = arp_reply_to (load_ArpHdr ?d 14) m"
    using len len1 by (simp add: load_ArpHdr_frame load_put_ArpHdr)
  moreover have "u16_to_be_bytes 2 = (0, 2)" by (simp add: u16_to_be_bytes_def)
  moreover have "load_EthHdr ?d2 0 = ?h" using len1 by (rule load_put_EthHdr)
  moreover have "drop 42 ?d2 = drop 42 ?d" using len len1 by (simp add: drop_put_bytes)
  moreover have "length ?d2 = length ?d" using len len1 by simp
  ultimately show ?thesis
    using dumbarp_request [OF req refl, of lru]
    by (intro exI [of _ ?d2]) (simp add: arp_reply_to_def)
qed

theorem arp_request_answered_witness:
  "\<exists>d'. dumbarp sample_env sample_lru sample_maps sample_arp =
     (XDP_TX, sample_arp\<lparr>xdp_data := d'\<rparr>, sample_maps) \<and>
     eth_dst_addr (load_EthHdr d' 0) = (2, 0, 0, 0, 0, 9) \<and>
     arp_spa (load_ArpHdr d' 14) = (10, 0, 0, 1)"
  using arp_request_answered [OF sample_arp_request, of sample_lru]
  by (elim exE conjE) (simp add: sample_arp_def header_defs)

text \<open>
  C5. The XDP program never drops a frame: it transmits exactly the ARP requests it answers, passes
  everything else on, and a frame that is neither answered nor stamped is left alone, as are the
  maps.
\<close>

theorem xdp_action_complete:
  "(fst (dumbarp env lru maps ctx) = XDP_TX \<longleftrightarrow> (\<exists>m. arp_request_for env maps ctx m)) \<and>
   (fst (dumbarp env lru maps ctx) = XDP_PASS \<longleftrightarrow> (\<nexists>m. arp_request_for env maps ctx m)) \<and>
   ((\<exists>m. arp_request_for env maps ctx m) \<or> (\<exists>did. stamps env maps ctx did) \<or>
    dumbarp env lru maps ctx = (XDP_PASS, ctx, maps))"
proof -
  consider m where "arp_request_for env maps ctx m" | did where "stamps env maps ctx did"
    | "\<nexists>m. arp_request_for env maps ctx m" "\<nexists>did. stamps env maps ctx did"
    by blast
  then show ?thesis
  proof cases
    case 1
    then have "\<exists>m. arp_request_for env maps ctx m" by blast
    then show ?thesis using dumbarp_request [OF 1 refl, of lru] by (simp del: split_paired_Ex)
  next
    case 2
    then show ?thesis using dumbarp_stamps [OF 2 refl refl, of lru] arp_request_not_stamps by auto
  next
    case 3
    then show ?thesis using dumbarp_other [of env maps ctx lru] by auto
  qed
qed

text \<open>
  C6. Stamping. An IPv4 packet that reaches an interface with a valid identity (1 to 63), is addressed to
  an address that interface answers for (its destination is in \<open>ARP_TABLE\<close>), and does not carry the
  identity already leaves with the interface's identity as its DSCP and its ECN bits unchanged; no byte
  other than the TOS and the two checksum bytes differs, and the original DSCP is recorded under the key
  of the reply direction. Every other packet is passed untouched (C5).
\<close>

theorem stamp_sets_dscp:
  assumes st: "stamps env maps ctx did"
  shows "\<exists>d'. dumbarp env lru maps ctx = (XDP_PASS, ctx\<lparr>xdp_data := d'\<rparr>,
      maps\<lparr>ORIG_DSCP := lru (reversed (xdp_flow_key env ctx 14)) (drop_bit 2 (xdp_data ctx ! 15))
        (ORIG_DSCP maps)\<rparr>) \<and>
    drop_bit 2 (d' ! 15) = did \<and> d' ! 15 AND 3 = xdp_data ctx ! 15 AND 3 \<and>
    length d' = length (xdp_data ctx) \<and>
    (\<forall>i. i \<notin> {15, 24, 25} \<longrightarrow> d' ! i = xdp_data ctx ! i)"
proof -
  let ?d = "xdp_data ctx"
  let ?t = "tos_with_dscp (?d ! 15) did"
  have tos: "ip_tos (load_Ipv4Hdr ?d 14) = ?d ! 15" by (simp add: load_Ipv4Hdr_def)
  have "15 < length ?d" "did \<le> DSCP_ID_MAX" using st by (simp_all add: stamps_def Let_def)
  then have "retag csum_replace2 14 ?t ?d ! 15 = ?t" "drop_bit 2 ?t = did"
    using retag_tos [of 14 ?d csum_replace2 ?t] by (simp_all add: tos_dscp_dscp)
  moreover have "\<forall>i. i \<notin> {15, 24, 25} \<longrightarrow> retag csum_replace2 14 ?t ?d ! i = ?d ! i"
    using retag_frame [of _ 14 csum_replace2 ?t ?d] by simp
  ultimately show ?thesis
    using dumbarp_stamps [OF st refl refl, of lru] tos
    by (intro exI [of _ "retag csum_replace2 14 ?t ?d"]) simp
qed

theorem stamp_sets_dscp_witness:
  "\<exists>d'. fst (snd (dumbarp sample_env sample_lru sample_maps sample_packet)) =
     sample_packet\<lparr>xdp_data := d'\<rparr> \<and> drop_bit 2 (d' ! 15) = 5"
  using stamp_sets_dscp [OF sample_stamps, of sample_lru] by auto

text \<open>
  C7. The incremental checksum update of a stamped packet is sound for every header length: the
  header, with its options, is accepted by a receiver after stamping exactly when it was accepted
  before. A corrupt header is never made to look valid.
\<close>

theorem stamp_preserves_checksum:
  assumes st: "stamps env maps ctx did" and n: "20 \<le> n" "n \<le> 60" "14 + n \<le> length (xdp_data ctx)"
    and vihl: "xdp_data ctx ! 14 \<noteq> 0"
  shows "full_checksum (take n (drop 14 (xdp_data (fst (snd (dumbarp env lru maps ctx)))))) = 0 \<longleftrightarrow>
    full_checksum (take n (drop 14 (xdp_data ctx))) = 0"
  using dumbarp_stamps [OF st refl refl, of lru] retag_header [OF csum.csum_update_axioms n vihl]
  by simp

theorem stamp_preserves_checksum_witness:
  "full_checksum (take 20 (drop 14 (xdp_data (fst (snd
     (dumbarp sample_env sample_lru sample_maps sample_packet)))))) = 0"
  using stamp_preserves_checksum [OF sample_stamps, of 20 sample_lru] sample_headers_accepted
  by (simp add: sample_packet_def)

text \<open>
  C8. The egress classifier always accepts, and touches only packets that carry the interface's own
  identity: whatever helper fails, the packet is unchanged, or only its TOS byte has been restored
  (the checksum helper failed after the store), or TOS and checksum have both been rewritten. The
  IPv4 header is looked for at offset 0 or 14 only.
\<close>

theorem egress_outcomes:
  assumes ok: "tc_helpers_ok (env_endian env) upd hlp"
  shows "fst (dumbarp_egress env hlp maps ctx) = TC_ACT_OK \<and>
    (snd (dumbarp_egress env hlp maps ctx) = ctx \<or>
     (\<exists>l2 \<in> {0, 14}. terminates env maps ctx l2 \<and>
        snd (dumbarp_egress env hlp maps ctx) \<in>
          {ctx\<lparr>skb_data := (skb_data ctx)[l2 + 1 := restored_tos env hlp maps ctx l2]\<rparr>,
           ctx\<lparr>skb_data := retag upd l2 (restored_tos env hlp maps ctx l2) (skb_data ctx)\<rparr>}))"
proof (cases "\<exists>l2. terminates env maps ctx l2")
  case True
  then obtain l2 where t: "terminates env maps ctx l2" by blast
  then have "l2 \<in> {0, 14}"
    by (auto simp: terminates_def l2_len_def EthHdr_LEN_def split: option.splits if_splits)
  with t show ?thesis
    using try_terminate_tagged [OF t ok refl refl] by (auto simp: dumbarp_egress_def)
next
  case False
  then obtain r where "try_terminate env hlp maps ctx = (r, ctx)" "r = Inl () \<or> r = Inr TC_ACT_OK"
    using try_terminate_other [OF _ ok, of env maps ctx] by blast
  then show ?thesis by (auto simp: dumbarp_egress_def)
qed

theorem egress_outcomes_witness:
  "fst (dumbarp_egress sample_env sample_helpers sample_maps sample_reply) = TC_ACT_OK \<and>
   list_all (\<lambda>i. skb_data (snd (dumbarp_egress sample_env sample_helpers sample_maps sample_reply)) ! i =
     skb_data sample_reply ! i) ([0..<15] @ [16..<24] @ [26..<38])"
proof -
  have l2: "l2 = 14" if "terminates sample_env sample_maps sample_reply l2" for l2
    using that sample_terminates by (simp add: terminates_def)
  show ?thesis
    using egress_outcomes [OF sample_helpers_ok, of sample_maps sample_reply]
    by (auto dest!: l2 simp: retag_frame list_all_iff)
qed





text \<open>
  Restoring is checksum-sound as well: if the kernel's checksum helper is a correct incremental
  update, then a packet that the classifier finished with (no helper failed) is accepted by a
  receiver exactly when it was before, for every header length.
\<close>

theorem egress_preserves_checksum:
  assumes upd: "csum_update upd" and ok: "tc_helpers_ok (env_endian env) upd hlp"
    and success: "fst (try_terminate env hlp maps ctx) = Inr TC_ACT_OK"
    and t: "terminates env maps ctx l2" and n: "20 \<le> n" "n \<le> 60" "l2 + n \<le> length (skb_data ctx)"
    and vihl: "skb_data ctx ! l2 \<noteq> 0"
  shows "full_checksum (take n (drop l2 (skb_data (snd (dumbarp_egress env hlp maps ctx))))) = 0 \<longleftrightarrow>
    full_checksum (take n (drop l2 (skb_data ctx))) = 0"
  using try_terminate_tagged [OF t ok refl refl] success retag_header [OF upd n vihl]
  by (auto simp: dumbarp_egress_def)

theorem egress_preserves_checksum_witness:
  "full_checksum (take 20 (drop 14 (skb_data (snd
     (dumbarp_egress sample_env sample_helpers sample_maps sample_reply))))) = 0"
  using egress_preserves_checksum [OF csum.csum_update_axioms sample_helpers_ok
      sample_success [OF refl refl] sample_terminates, of 20] sample_headers_accepted
  by (simp add: sample_reply_def)

text \<open>
  C10. The comment before the operation check says that only Ethernet/IPv4 ARP requests are answered,
  but hardware type, protocol type and the two address lengths (bytes 14 to 19 of the frame) are
  never looked at: a request stays answered whatever they are.
\<close>

theorem arp_types_not_checked:
  assumes "arp_request_for env maps ctx m" "length bs = 6"
  shows "fst (dumbarp env lru maps (ctx\<lparr>xdp_data := put_bytes 14 bs (xdp_data ctx)\<rparr>)) = XDP_TX"
proof -
  let ?d = "xdp_data ctx" and ?c = "ctx\<lparr>xdp_data := put_bytes 14 bs (xdp_data ctx)\<rparr>"
  have len: "in_range 14 (length bs) ?d"
    using assms by (simp add: arp_request_for_def in_range_def Let_def)
  then have "load_EthHdr (put_bytes 14 bs ?d) 0 = load_EthHdr ?d 0" by (intro load_EthHdr_frame) auto
  moreover have "arp_oper (load_ArpHdr (put_bytes 14 bs ?d) 14) = arp_oper (load_ArpHdr ?d 14)"
    "arp_tpa (load_ArpHdr (put_bytes 14 bs ?d) 14) = arp_tpa (load_ArpHdr ?d 14)"
    using len assms(2) by (simp_all add: header_defs nth_put_bytes)
  ultimately have "arp_request_for env maps ?c m"
    using assms len by (simp add: arp_request_for_def ether_type_of_def Let_def)
  then show ?thesis using dumbarp_request [OF _ refl, of env maps ?c m lru] by simp
qed

theorem arp_types_not_checked_witness:
  "fst (dumbarp sample_env sample_lru sample_maps
     (sample_arp\<lparr>xdp_data := put_bytes 14 [0, 6, 0x86, 0xdd, 8, 16] (xdp_data sample_arp)\<rparr>)) = XDP_TX"
  by (rule arp_types_not_checked [OF sample_arp_request]) simp

end
