(* ===== verification/Routerd_Ebpf.thy ===== *)
theory Routerd_Ebpf
  imports Common
begin

text \<open>
  The TC ingress classifier of the router nodes, \<open>dumbarp-routerd-ebpf\<close>
  (\<open>src/dumbarp-routerd-ebpf/src/main.rs\<close>): it turns the DSCP tag of a forwarded packet into the
  packet's mark. \<open>steer_maps\<close> holds the map \<open>DSCP_IDS\<close> and this CPU's slots of \<open>COUNTERS\<close>; the kernel
  helper \<open>bpf_skb_load_bytes_relative\<close>, called for one byte from the network header, is the parameter
  \<open>load_relative\<close>, which gives the return code and the byte.
\<close>

record steer_maps =
  DSCP_IDS :: "u8 \<rightharpoonup> u32"
  COUNTERS :: "u32 \<rightharpoonup> u64"

record steer_ctx =
  st_protocol :: u32
  st_mark :: u32

type_synonym load_relative = "u32 \<Rightarrow> int \<times> u8"

definition bump :: "u32 \<Rightarrow> steer_maps \<Rightarrow> steer_maps" where
  "bump slot maps =
     (case COUNTERS maps slot of
        Some v \<Rightarrow> maps\<lparr>COUNTERS := (COUNTERS maps)(slot \<mapsto> v + 1)\<rparr>
      | None \<Rightarrow> maps)"

definition load_net_u8 :: "load_relative \<Rightarrow> nat \<Rightarrow> unit + u8" where
  "load_net_u8 rel offset =
     (let (ret, byte) = rel (of_nat offset) in if ret = 0 then Inr byte else Inl ())"

definition steer ::
  "u16 \<Rightarrow> load_relative \<Rightarrow> steer_maps \<Rightarrow> steer_ctx \<Rightarrow> tc_action \<times> steer_ctx \<times> steer_maps" where
  "steer ethertype_ipv4 rel maps ctx =
     (let pass = TC_ACT_OK in
      if st_protocol ctx \<noteq> ucast ethertype_ipv4 then (pass, ctx, bump CTR_SKIPPED maps)
      else case load_net_u8 rel IPV4_TOS_OFFSET of
        Inl _ \<Rightarrow> (pass, ctx, bump CTR_SKIPPED maps)
      | Inr tos \<Rightarrow>
          let dscp = drop_bit 2 tos in
          (case (if dscp \<noteq> 0 then DSCP_IDS maps dscp else None) of
             Some mark \<Rightarrow> (pass, ctx\<lparr>st_mark := mark\<rparr>, bump CTR_TAGGED maps)
           | None \<Rightarrow> (pass, ctx, bump CTR_UNTAGGED maps)))"

definition dumbarp_routerd ::
  "u16 \<Rightarrow> load_relative \<Rightarrow> steer_maps \<Rightarrow> steer_ctx \<Rightarrow> tc_action \<times> steer_ctx \<times> steer_maps" where
  "dumbarp_routerd ethertype_ipv4 rel maps ctx = steer ethertype_ipv4 rel maps ctx"

text \<open>The counters as a vector of the three slots, and a sequence of packets.\<close>

definition counter :: "steer_maps \<Rightarrow> u32 \<Rightarrow> u64" where
  "counter maps slot = (case COUNTERS maps slot of Some v \<Rightarrow> v | None \<Rightarrow> 0)"

definition counters_present :: "steer_maps \<Rightarrow> bool" where
  "counters_present maps \<longleftrightarrow> (\<forall>slot < COUNTER_SLOTS. COUNTERS maps slot \<noteq> None)"

fun steer_all ::
  "u16 \<Rightarrow> steer_maps \<Rightarrow> (load_relative \<times> steer_ctx) list \<Rightarrow>
   (tc_action \<times> steer_ctx) list \<times> steer_maps" where
  "steer_all et maps [] = ([], maps)"
| "steer_all et maps ((rel, ctx) # ps) =
     (let (act, ctx', maps') = dumbarp_routerd et rel maps ctx; (cs, maps'') = steer_all et maps' ps
      in ((act, ctx') # cs, maps''))"

text \<open>
  The specification. A packet is given by the bytes from its network header on, \<open>hdr\<close>, of which the
  helper reads one at a time and fails behind the end (\<open>loads\<close>). It is classified by these bytes:
  \<open>readable\<close> if it is IPv4 and has a TOS byte, and \<open>identity_of\<close> is the mark its tag stands for.
\<close>

definition loads :: "load_relative \<Rightarrow> u8 list \<Rightarrow> bool" where
  "loads rel hdr \<longleftrightarrow>
     (\<forall>off. if unat off < length hdr then rel off = (0, hdr ! unat off) else fst (rel off) \<noteq> 0)"

type_synonym packet = "load_relative \<times> u8 list \<times> steer_ctx"

fun readable :: "u16 \<Rightarrow> packet \<Rightarrow> bool" where
  "readable et (rel, hdr, ctx) \<longleftrightarrow> st_protocol ctx = ucast et \<and> 2 \<le> length hdr"

fun identity_of :: "u16 \<Rightarrow> (u8 \<rightharpoonup> u32) \<Rightarrow> packet \<Rightarrow> u32 option" where
  "identity_of et ids (rel, hdr, ctx) =
     (if readable et (rel, hdr, ctx) \<and> drop_bit 2 (hdr ! 1) \<noteq> 0 then ids (drop_bit 2 (hdr ! 1)) else None)"

fun steered :: "u16 \<Rightarrow> (u8 \<rightharpoonup> u32) \<Rightarrow> packet \<Rightarrow> tc_action \<times> steer_ctx" where
  "steered et ids (rel, hdr, ctx) =
     (TC_ACT_OK, case identity_of et ids (rel, hdr, ctx) of
        Some mark \<Rightarrow> ctx\<lparr>st_mark := mark\<rparr> | None \<Rightarrow> ctx)"

definition slot_of :: "u16 \<Rightarrow> (u8 \<rightharpoonup> u32) \<Rightarrow> packet \<Rightarrow> u32" where
  "slot_of et ids p =
     (if \<not> readable et p then CTR_SKIPPED
      else if identity_of et ids p = None then CTR_UNTAGGED else CTR_TAGGED)"

lemma bump_DSCP_IDS [simp]: "DSCP_IDS (bump slot maps) = DSCP_IDS maps"
  by (simp add: bump_def split: option.split)

lemma steer_DSCP_IDS [simp]: "DSCP_IDS (snd (snd (steer et rel maps ctx))) = DSCP_IDS maps"
  by (simp add: steer_def Let_def split: sum.split option.split)

lemma slot_less: "slot < COUNTER_SLOTS \<longleftrightarrow> slot \<in> {CTR_TAGGED, CTR_UNTAGGED, CTR_SKIPPED}"
proof -
  have "slot < 3 \<longleftrightarrow> unat slot < 3" by (simp add: word_less_nat_alt)
  also have "\<dots> \<longleftrightarrow> unat slot = 0 \<or> unat slot = 1 \<or> unat slot = 2" by linarith
  also have "\<dots> \<longleftrightarrow> slot \<in> {0, 1, 2}" by (simp add: word_unat_eq_iff)
  finally show ?thesis by (simp add: const_defs)
qed

lemma counter_bump:
  assumes "counters_present maps" "slot < COUNTER_SLOTS"
  shows "counters_present (bump slot maps)"
    "counter (bump slot maps) s = counter maps s + (if s = slot then 1 else 0)"
proof -
  from assms obtain v where v: "COUNTERS maps slot = Some v"
    by (auto simp: counters_present_def)
  with assms show "counters_present (bump slot maps)"
    "counter (bump slot maps) s = counter maps s + (if s = slot then 1 else 0)"
    by (auto simp: bump_def counters_present_def counter_def)
qed

lemma steer_counters:
  assumes "counters_present maps"
  shows "counters_present (snd (snd (steer et rel maps ctx))) \<and>
    (\<exists>slot < COUNTER_SLOTS. \<forall>s. counter (snd (snd (steer et rel maps ctx))) s =
       counter maps s + (if s = slot then 1 else 0))"
proof -
  have "\<exists>slot < COUNTER_SLOTS. snd (snd (steer et rel maps ctx)) = bump slot maps"
    by (auto simp: steer_def Let_def slot_less split: sum.split option.split)
  then show ?thesis using counter_bump [OF assms] by metis
qed

lemma steer_all_counters:
  assumes "counters_present maps"
  shows "counters_present (snd (steer_all et maps ps)) \<and>
    (\<Sum>s \<in> {CTR_TAGGED, CTR_UNTAGGED, CTR_SKIPPED}. counter (snd (steer_all et maps ps)) s) =
    (\<Sum>s \<in> {CTR_TAGGED, CTR_UNTAGGED, CTR_SKIPPED}. counter maps s) + of_nat (length ps)"
  using assms
proof (induction ps arbitrary: maps)
  case (Cons p ps)
  obtain rel ctx where p: "p = (rel, ctx)" by (cases p)
  let ?m = "snd (snd (steer et rel maps ctx))"
  obtain slot where m: "counters_present ?m" "slot < COUNTER_SLOTS"
    "\<And>s. counter ?m s = counter maps s + (if s = slot then 1 else 0)"
    using steer_counters [OF Cons.prems, of et rel ctx] by auto
  have "(\<Sum>s \<in> {CTR_TAGGED, CTR_UNTAGGED, CTR_SKIPPED}. counter ?m s) =
      (\<Sum>s \<in> {CTR_TAGGED, CTR_UNTAGGED, CTR_SKIPPED}. counter maps s) + 1"
    using m(2) by (simp add: m(3) sum.distrib slot_less)
  moreover have "snd (steer_all et maps (p # ps)) = snd (steer_all et ?m ps)"
    by (simp add: p dumbarp_routerd_def split: prod.split)
  ultimately show ?case using Cons.IH [OF m(1)] by simp
qed simp

text \<open>One packet against its specification, and all of them.\<close>

lemma steer_spec:
  assumes "loads rel hdr"
  shows "steer et rel maps ctx =
    (let p = (rel, hdr, ctx)
     in (fst (steered et (DSCP_IDS maps) p), snd (steered et (DSCP_IDS maps) p),
         bump (slot_of et (DSCP_IDS maps) p) maps))"
proof -
  have "if 1 < length hdr then rel 1 = (0, hdr ! 1) else fst (rel 1) \<noteq> 0"
    using assms [unfolded loads_def, rule_format, of 1] by simp
  then show ?thesis
    by (cases "rel 1") (auto simp: steer_def load_net_u8_def slot_of_def IPV4_TOS_OFFSET_def Let_def
      split: if_splits option.splits)
qed

lemma slot_of_less: "slot_of et ids p < COUNTER_SLOTS"
  by (simp add: slot_of_def slot_less)

lemma steer_all_spec:
  assumes "counters_present maps" and "\<forall>(rel, hdr, ctx) \<in> set ps. loads rel hdr"
    and "steer_all et maps (map (\<lambda>(rel, hdr, ctx). (rel, ctx)) ps) = (out, maps')"
  shows "out = map (steered et (DSCP_IDS maps)) ps \<and> DSCP_IDS maps' = DSCP_IDS maps \<and>
    (\<forall>slot. counter maps' slot = counter maps slot +
       of_nat (length (filter (\<lambda>p. slot_of et (DSCP_IDS maps) p = slot) ps)))"
  using assms
proof (induction ps arbitrary: maps out)
  case (Cons p ps)
  obtain rel hdr ctx where p: "p = (rel, hdr, ctx)" by (cases p)
  let ?slot = "slot_of et (DSCP_IDS maps) p"
  let ?m = "bump ?slot maps"
  obtain out1 where 1: "steer_all et ?m (map (\<lambda>(rel, hdr, ctx). (rel, ctx)) ps) = (out1, maps')"
    and out: "out = steered et (DSCP_IDS maps) p # out1"
    using Cons.prems(2,3) steer_spec [of rel hdr et maps ctx]
    by (auto simp: p dumbarp_routerd_def Let_def split: prod.splits)
  note b = counter_bump [OF Cons.prems(1) slot_of_less [of et "DSCP_IDS maps" p]]
  from Cons.IH [OF b(1) _ 1] Cons.prems(2) show ?case by (simp add: out b(2))
qed simp

section \<open>Properties\<close>

text \<open>
  C12. The router's classifier over any sequence of packets. Every packet is accepted. A packet whose
  second network-header byte holds a nonzero DSCP that is an identity of \<open>DSCP_IDS\<close> leaves with the mark
  recorded for it; any other packet (not IPv4, too short, untagged, or with an unknown tag) keeps the
  mark it came with. Each of the three counters grows by exactly the number of packets of its class, in
  64-bit arithmetic, and the identities are left alone.
\<close>

theorem steer_marks:
  assumes "counters_present maps" and "\<forall>(rel, hdr, ctx) \<in> set ps. loads rel hdr"
    and "steer_all et maps (map (\<lambda>(rel, hdr, ctx). (rel, ctx)) ps) = (out, maps')"
  shows "out = map (steered et (DSCP_IDS maps)) ps \<and> DSCP_IDS maps' = DSCP_IDS maps \<and>
    (\<forall>slot < COUNTER_SLOTS. counter maps' slot = counter maps slot +
       of_nat (length (filter (\<lambda>p. slot_of et (DSCP_IDS maps) p = slot) ps)))"
  using steer_all_spec [OF assms] by simp

definition sample_steer_maps :: steer_maps where
  "sample_steer_maps = \<lparr>DSCP_IDS = [5 \<mapsto> 5], COUNTERS = [0 \<mapsto> 0, 1 \<mapsto> 7, 2 \<mapsto> 0]\<rparr>"

definition sample_load :: "u8 list \<Rightarrow> load_relative" where
  "sample_load hdr off = (if unat off < length hdr then (0, hdr ! unat off) else (- 14, 0))"

definition sample_packets :: "packet list" where
  "sample_packets = map (\<lambda>(hdr, proto). (sample_load hdr, hdr, \<lparr>st_protocol = proto, st_mark = 9\<rparr>))
     [([0x45, 21], 8), ([0x45, 1], 8), ([0x45, 24], 8), ([0x45], 8), ([0x60, 21], 0xdd86)]"

theorem steer_marks_witness:
  "let r = steer_all 8 sample_steer_maps (map (\<lambda>(rel, hdr, ctx). (rel, ctx)) sample_packets)
   in map fst (fst r) = [0, 0, 0, 0, 0] \<and> map (st_mark \<circ> snd) (fst r) = [5, 9, 9, 9, 9] \<and>
      counter (snd r) CTR_TAGGED = 1 \<and> counter (snd r) CTR_UNTAGGED = 9 \<and>
      counter (snd r) CTR_SKIPPED = 2"
proof -
  let ?ps = "map (\<lambda>(rel, hdr, ctx). (rel, ctx)) sample_packets"
  have "counters_present sample_steer_maps"
    unfolding counters_present_def slot_less by (simp add: const_defs sample_steer_maps_def)
  moreover have "\<forall>(rel, hdr, ctx) \<in> set sample_packets. loads rel hdr"
    by (auto simp: sample_packets_def loads_def sample_load_def)
  moreover obtain out maps' where "steer_all 8 sample_steer_maps ?ps = (out, maps')"
    by (metis surj_pair)
  ultimately show ?thesis
    using steer_marks [of sample_steer_maps sample_packets 8 out maps']
    by (simp add: slot_less sample_packets_def sample_steer_maps_def slot_of_def const_defs
        counter_def TC_ACT_OK_def drop_bit_eq_div)
qed

text \<open>
  C13. Every packet is counted exactly once: over any sequence of packets, the counters for tagged,
  untagged and skipped packets together grow by the number of packets (in 64-bit arithmetic).
\<close>

theorem steer_counts_every_packet:
  assumes "counters_present maps"
  shows "counter (snd (steer_all et maps ps)) CTR_TAGGED + counter (snd (steer_all et maps ps)) CTR_UNTAGGED +
      counter (snd (steer_all et maps ps)) CTR_SKIPPED =
    counter maps CTR_TAGGED + counter maps CTR_UNTAGGED + counter maps CTR_SKIPPED + of_nat (length ps)"
  using steer_all_counters [OF assms, of et ps] by (simp add: const_defs add.assoc)

theorem steer_counts_every_packet_witness:
  "let maps = \<lparr>DSCP_IDS = [5 \<mapsto> 5], COUNTERS = [0 \<mapsto> 0, 1 \<mapsto> 0, 2 \<mapsto> 0]\<rparr>;
       m = snd (steer_all 8 maps [(\<lambda>_. (0, 20), \<lparr>st_protocol = 8, st_mark = 0\<rparr>),
                                  (\<lambda>_. (0, 0), \<lparr>st_protocol = 6, st_mark = 0\<rparr>)])
   in counter m CTR_TAGGED + counter m CTR_UNTAGGED + counter m CTR_SKIPPED = 2"
proof -
  have "counters_present \<lparr>DSCP_IDS = [5 \<mapsto> 5], COUNTERS = [0 \<mapsto> 0, 1 \<mapsto> 0, 2 \<mapsto> 0]\<rparr>"
    unfolding counters_present_def slot_less by (simp add: const_defs)
  from steer_counts_every_packet [OF this, of 8
      "[(\<lambda>_. (0, 20), \<lparr>st_protocol = 8, st_mark = 0\<rparr>), (\<lambda>_. (0, 0), \<lparr>st_protocol = 6, st_mark = 0\<rparr>)]"]
  show ?thesis by (simp add: Let_def counter_def const_defs)
qed

end
