(* ===== verification/Rust_Std.thy ===== *)
theory Rust_Std
  imports Prelude
begin

text \<open>
  What the userspace crates use of the Rust standard library beyond machine integers: decimal and
  hexadecimal text, \<open>str::trim\<close>, \<open>str::split\<close>, \<open>str::strip_prefix\<close>, \<open>std::net::Ipv4Addr\<close> with its text
  form, and the loop that collects fallible results. The locale \<open>text_codec\<close> is the contract of a
  type with a text form; it is interpreted on IPv4 addresses here and used by the API, gateway and
  Kubernetes components.
\<close>

section \<open>Strings\<close>

definition is_digit :: "char \<Rightarrow> bool" where
  "is_digit c \<longleftrightarrow> 48 \<le> (of_char c :: nat) \<and> (of_char c :: nat) \<le> 57"

definition digit_val :: "char \<Rightarrow> nat" where
  "digit_val c = of_char c - 48"

definition digit_char :: "nat \<Rightarrow> char" where
  "digit_char n = char_of (48 + n)"

fun dec :: "nat \<Rightarrow> string" where
  "dec n = (if n < 10 then [digit_char n] else dec (n div 10) @ [digit_char (n mod 10)])"

declare dec.simps [simp del]

definition dec_val :: "string \<Rightarrow> nat" where
  "dec_val s = foldl (\<lambda>n c. 10 * n + digit_val c) 0 s"

text \<open>ASCII white space, as \<open>str::trim\<close> strips it from ASCII text.\<close>

definition is_space :: "char \<Rightarrow> bool" where
  "is_space c \<longleftrightarrow> (of_char c :: nat) \<in> {9, 10, 11, 12, 13, 32}"

definition trim :: "string \<Rightarrow> string" where
  "trim s = rev (dropWhile is_space (rev (dropWhile is_space s)))"

text \<open>\<open>s.split(c)\<close>: the pieces between the separators, always at least one.\<close>

fun split_on :: "char \<Rightarrow> string \<Rightarrow> string list" where
  "split_on c [] = [[]]"
| "split_on c (x # xs) =
     (if x = c then [] # split_on c xs
      else case split_on c xs of p # ps \<Rightarrow> (x # p) # ps | [] \<Rightarrow> [[x]])"

fun strip_prefix :: "string \<Rightarrow> string \<Rightarrow> string option" where
  "strip_prefix [] s = Some s"
| "strip_prefix (p # ps) [] = None"
| "strip_prefix (p # ps) (c # s) = (if p = c then strip_prefix ps s else None)"

lemma strip_prefix_iff: "strip_prefix p s = Some r \<longleftrightarrow> s = p @ r"
  by (induction p s rule: strip_prefix.induct) auto

lemma split_on_nonempty [simp]: "split_on c s \<noteq> []"
  by (induction s) (auto split: list.split)

lemma split_on_no_sep: "c \<notin> set s \<Longrightarrow> split_on c s = [s]"
  by (induction s) auto

lemma split_on_append: "c \<notin> set s \<Longrightarrow> split_on c (s @ c # r) = s # split_on c r"
  by (induction s) auto

section \<open>Collecting fallible results\<close>

text \<open>\<open>for x in xs { out.push(f(x)?) }\<close>: stops at the first error.\<close>

fun try_map :: "('a \<Rightarrow> 'e + 'b) \<Rightarrow> 'a list \<Rightarrow> 'e + 'b list" where
  "try_map f [] = Inr []"
| "try_map f (x # xs) =
     (case f x of
        Inl e \<Rightarrow> Inl e
      | Inr y \<Rightarrow> (case try_map f xs of Inl e \<Rightarrow> Inl e | Inr ys \<Rightarrow> Inr (y # ys)))"

lemma try_map_Inr_iff: "try_map f xs = Inr ys \<longleftrightarrow> list_all2 (\<lambda>x y. f x = Inr y) xs ys"
proof (induction xs arbitrary: ys)
  case Nil
  then show ?case by auto
next
  case (Cons x xs)
  have "try_map f xs = Inr zs \<Longrightarrow> list_all2 (\<lambda>x y. f x = Inr y) xs ws \<longleftrightarrow> ws = zs" for zs ws
    using Cons.IH [of ws] by auto
  moreover have "try_map f xs = Inl e \<Longrightarrow> \<not> list_all2 (\<lambda>x y. f x = Inr y) xs ws" for e ws
    using Cons.IH [of ws] by auto
  ultimately show ?case
    by (cases ys; cases "f x"; cases "try_map f xs") auto
qed

lemma try_map_Inl: "try_map f xs = Inl e \<Longrightarrow> \<exists>x \<in> set xs. f x = Inl e"
  by (induction xs) (auto split: sum.splits)

section \<open>Decimal text\<close>

lemma digit_char_props:
  assumes "n < 10"
  shows "is_digit (digit_char n)" "digit_val (digit_char n) = n" "digit_char n = CHR ''0'' \<longleftrightarrow> n = 0"
proof -
  have v: "(of_char (digit_char n) :: nat) = 48 + n"
    using assms by (simp add: digit_char_def)
  with assms show "is_digit (digit_char n)" "digit_val (digit_char n) = n"
    by (simp_all add: is_digit_def digit_val_def)
  have "digit_char n = CHR ''0'' \<longleftrightarrow> (of_char (digit_char n) :: nat) = of_char (CHR ''0'')"
    by (metis char_of_char)
  then show "digit_char n = CHR ''0'' \<longleftrightarrow> n = 0" by (simp add: v)
qed

lemma dec_digits: "list_all is_digit (dec n)"
  by (induction n rule: dec.induct) (subst dec.simps, auto simp: digit_char_props)

lemma dec_nonempty [simp]: "dec n \<noteq> []"
  by (subst dec.simps) simp

lemma dec_val_dec [simp]: "dec_val (dec n) = n"
proof (induction n rule: dec.induct)
  case (1 n)
  then show ?case by (subst dec.simps) (auto simp: dec_val_def digit_char_props)
qed

lemma dec_leading_zero: "hd (dec n) = CHR ''0'' \<Longrightarrow> n = 0"
proof (induction n rule: dec.induct)
  case (1 n)
  show ?case
  proof (cases "n < 10")
    case True
    with "1.prems" show ?thesis by (subst (asm) dec.simps) (simp add: digit_char_props)
  next
    case False
    with "1.prems" have "hd (dec (n div 10)) = CHR ''0''" by (subst (asm) dec.simps) simp
    with "1.IH" False have "n div 10 = 0" by simp
    with False show ?thesis by simp
  qed
qed

lemma length_dec_le: "n < 10 ^ k \<Longrightarrow> 0 < k \<Longrightarrow> length (dec n) \<le> k"
proof (induction k arbitrary: n)
  case (Suc k)
  show ?case
  proof (cases "n < 10")
    case False
    with Suc.prems have "0 < k" "n div 10 < 10 ^ k" by (cases k, auto)
    with Suc.IH False show ?thesis by (subst dec.simps) simp
  qed (subst dec.simps, simp)
qed simp

section \<open>Durations\<close>

text \<open>\<open>Duration::from_secs\<close>; the clock ticks in nanoseconds.\<close>

definition from_secs :: "u64 \<Rightarrow> nat" where
  "from_secs s = 1000000000 * unat s"

section \<open>IPv4 addresses\<close>

text \<open>
  \<open>std::net::Ipv4Addr\<close> is its four octets. \<open>Display\<close> prints them in decimal with dots between;
  \<open>FromStr\<close> refuses a text of more than 15 characters, reads four octets of one to three digits
  with no leading zero and at most 255, and wants the whole text consumed.
\<close>

type_synonym ipv4addr = bytes4

fun Ipv4Addr_to_string :: "ipv4addr \<Rightarrow> string" where
  "Ipv4Addr_to_string (a, b, c, d) =
     dec (unat a) @ ''.'' @ dec (unat b) @ ''.'' @ dec (unat c) @ ''.'' @ dec (unat d)"

definition octet_parse :: "string \<Rightarrow> u8 option" where
  "octet_parse s =
     (if s \<noteq> [] \<and> length s \<le> 3 \<and> list_all is_digit s \<and> (hd s = CHR ''0'' \<longrightarrow> length s = 1) \<and> dec_val s \<le> 255
      then Some (of_nat (dec_val s)) else None)"

definition Ipv4Addr_parse :: "string \<Rightarrow> ipv4addr option" where
  "Ipv4Addr_parse s =
     (if 15 < length s then None
      else case split_on (CHR ''.'') s of
        [a, b, c, d] \<Rightarrow>
          (case (octet_parse a, octet_parse b, octet_parse c, octet_parse d) of
             (Some w, Some x, Some y, Some z) \<Rightarrow> Some (w, x, y, z)
           | _ \<Rightarrow> None)
      | _ \<Rightarrow> None)"

lemma unat_u8_le: "unat (a :: u8) \<le> 255"
proof -
  have "unat a < 2 ^ LENGTH(8)" by (rule unsigned_less)
  then show ?thesis by simp
qed

lemma dot_notin_dec: "CHR ''.'' \<notin> set (dec n)"
  using dec_digits [of n] by (auto simp: list_all_iff is_digit_def)

lemma length_dec_octet: "length (dec (unat (a :: u8))) \<le> 3"
  using length_dec_le [of "unat a" 3] unat_u8_le [of a] by simp

lemma dec_zero: "dec 0 = ''0''"
  by (subst dec.simps) (code_simp)

lemma octet_parse_dec [simp]: "octet_parse (dec (unat a)) = Some a"
proof -
  have "hd (dec (unat a)) = CHR ''0'' \<longrightarrow> length (dec (unat a)) = 1"
    using dec_leading_zero [of "unat a"] by (auto simp: dec_zero)
  then show ?thesis
    using length_dec_octet [of a] dec_digits [of "unat a"] unat_u8_le [of a]
    by (simp add: octet_parse_def)
qed

lemma Ipv4Addr_parse_to_string [simp]: "Ipv4Addr_parse (Ipv4Addr_to_string ip) = Some ip"
proof -
  obtain a b c d where ip: "ip = (a, b, c, d)" by (cases ip)
  have "length (Ipv4Addr_to_string ip) \<le> 15"
    using length_dec_octet [of a] length_dec_octet [of b] length_dec_octet [of c] length_dec_octet [of d]
    by (simp add: ip)
  moreover have "split_on (CHR ''.'') (Ipv4Addr_to_string ip) =
      [dec (unat a), dec (unat b), dec (unat c), dec (unat d)]"
    by (simp add: ip split_on_append split_on_no_sep dot_notin_dec)
  ultimately show ?thesis by (simp add: Ipv4Addr_parse_def ip)
qed

text \<open>The contract of a type with a text form, and what its clients get from it.\<close>

locale text_codec =
  fixes to_text :: "'a \<Rightarrow> string" and of_text :: "string \<Rightarrow> 'a option"
  assumes of_to_text: "of_text (to_text a) = Some a"
begin

lemma to_text_inj: "to_text a = to_text b \<longleftrightarrow> a = b"
  by (metis of_to_text option.inject)

lemma try_map_to_text:
  assumes "\<And>s a. of_text s = Some a \<Longrightarrow> f s = Inr a"
  shows "try_map f (map to_text as) = Inr as"
  by (induction as) (simp_all add: assms of_to_text)

lemma distinct_to_text: "distinct (map to_text as) \<longleftrightarrow> distinct as"
  by (simp add: distinct_map inj_on_def to_text_inj)

end

interpretation ipv4: text_codec Ipv4Addr_to_string Ipv4Addr_parse
  by unfold_locales simp

end
