(* ===== verification/Api.thy ===== *)
theory Api
  imports Rust_Std
begin

text \<open>
  The crate \<open>dumbarp-api\<close>: the wire records and their validation (\<open>src/dumbarp-api/src/lib.rs\<close>), the
  HTTP client (\<open>client.rs\<close>) and the cache that keeps the last good answer of every polled source for
  a bounded time (\<open>cache.rs\<close>). The HTTP client library, the URL library and the JSON decoders are
  parameters (\<open>http_env\<close> and the \<open>decode\<close> arguments). Instants and durations are natural numbers of
  clock ticks, so \<open>Instant::duration_since\<close> is truncated subtraction, as in the standard library.
\<close>

section \<open>Wire records\<close>

record LeasesResponse =
  lr_ips :: "string list"
  lr_dumbarpd_id :: "u8 option"

record Leases =
  l_ips :: "ipv4addr list"
  l_dumbarpd_id :: "u8 option"

record DaemonEntryView =
  v_name :: string
  v_nexthop :: string
  v_device :: string
  v_dumbarpd_id :: "u8 option"
  v_ips :: "string list"

record DaemonsResponse =
  daemons :: "DaemonEntryView list"

record DaemonRoutes =
  r_name :: string
  r_nexthop :: ipv4addr
  r_device :: string
  r_dumbarpd_id :: "u8 option"
  r_ips :: "ipv4addr list"

text \<open>The errors of the crate, with the data their messages carry.\<close>

datatype api_error =
    BadIp string string
  | BadNexthop string string string
  | EmptyDevice string string
  | BadUrl string
  | GetFailed string
  | NonSuccess string
  | BadJson string

definition parse_ips :: "string list \<Rightarrow> string \<Rightarrow> api_error + ipv4addr list" where
  "parse_ips raw label =
     try_map (\<lambda>s. case Ipv4Addr_parse s of None \<Rightarrow> Inl (BadIp s label) | Some ip \<Rightarrow> Inr ip) raw"

definition LeasesResponse_parse :: "LeasesResponse \<Rightarrow> string \<Rightarrow> api_error + Leases" where
  "LeasesResponse_parse self label =
     (case parse_ips (lr_ips self) label of
        Inl e \<Rightarrow> Inl e
      | Inr ips \<Rightarrow> Inr \<lparr>l_ips = ips, l_dumbarpd_id = lr_dumbarpd_id self\<rparr>)"

text \<open>The body of the loop of \<open>DaemonsResponse::parse\<close>.\<close>

definition parse_entry :: "string \<Rightarrow> DaemonEntryView \<Rightarrow> api_error + DaemonRoutes" where
  "parse_entry label d =
     (case Ipv4Addr_parse (v_nexthop d) of
        None \<Rightarrow> Inl (BadNexthop (v_nexthop d) (v_name d) label)
      | Some nexthop \<Rightarrow>
          if v_device d = [] then Inl (EmptyDevice (v_name d) label)
          else case parse_ips (v_ips d) (v_name d) of
            Inl e \<Rightarrow> Inl e
          | Inr ips \<Rightarrow> Inr \<lparr>r_name = v_name d, r_nexthop = nexthop, r_device = v_device d,
                          r_dumbarpd_id = v_dumbarpd_id d, r_ips = ips\<rparr>)"

definition DaemonsResponse_parse :: "DaemonsResponse \<Rightarrow> string \<Rightarrow> api_error + DaemonRoutes list" where
  "DaemonsResponse_parse self label = try_map (parse_entry label) (daemons self)"

section \<open>Client\<close>

text \<open>
  What the client calls of the URL and HTTP libraries, for one call: joining a path to the endpoint,
  sending a GET with a bearer token, and turning an error status into an error.
\<close>

record ('url, 'resp) http_env =
  url_join :: "'url \<Rightarrow> string \<Rightarrow> 'url option"
  send_get :: "'url \<Rightarrow> string \<Rightarrow> 'resp option"
  error_for_status :: "'resp \<Rightarrow> 'resp option"

definition get_json ::
  "('url, 'resp) http_env \<Rightarrow> ('resp \<Rightarrow> 'a option) \<Rightarrow> 'url \<Rightarrow> string \<Rightarrow> string \<Rightarrow> api_error + 'a" where
  "get_json http json endpoint path token =
     (case url_join http endpoint path of
        None \<Rightarrow> Inl (BadUrl path)
      | Some url \<Rightarrow>
          (case send_get http url token of
             None \<Rightarrow> Inl (GetFailed path)
           | Some resp \<Rightarrow>
               (case error_for_status http resp of
                  None \<Rightarrow> Inl (NonSuccess path)
                | Some resp' \<Rightarrow>
                    (case json resp' of None \<Rightarrow> Inl (BadJson path) | Some body \<Rightarrow> Inr body))))"

definition fetch_leases ::
  "('url, 'resp) http_env \<Rightarrow> ('resp \<Rightarrow> LeasesResponse option) \<Rightarrow> 'url \<Rightarrow> string \<Rightarrow> string \<Rightarrow>
     api_error + Leases" where
  "fetch_leases http json endpoint token label =
     (case get_json http json endpoint ''leases'' token of
        Inl e \<Rightarrow> Inl e
      | Inr body \<Rightarrow> LeasesResponse_parse body label)"

definition fetch_daemons ::
  "('url, 'resp) http_env \<Rightarrow> ('resp \<Rightarrow> DaemonsResponse option) \<Rightarrow> 'url \<Rightarrow> string \<Rightarrow> string \<Rightarrow>
     api_error + DaemonRoutes list" where
  "fetch_daemons http json endpoint token label =
     (case get_json http json endpoint ''daemons'' token of
        Inl e \<Rightarrow> Inl e
      | Inr body \<Rightarrow> DaemonsResponse_parse body label)"

section \<open>Cache\<close>

record 'v CachedEntry =
  cvalue :: 'v
  last_success :: nat

record RoundStats =
  fetched_ok :: nat
  used_cache :: nat
  dropped :: nat

type_synonym 'v Cache = "(string, 'v CachedEntry) hashmap"

definition Cache_default :: "'v Cache" where
  "Cache_default = []"

definition RoundStats_default :: RoundStats where
  "RoundStats_default = \<lparr>fetched_ok = 0, used_cache = 0, dropped = 0\<rparr>"

text \<open>The body of the loop of \<open>apply_round\<close>, for one \<open>(name, result)\<close>.\<close>

definition apply_result ::
  "nat \<Rightarrow> nat \<Rightarrow> string \<times> ('e + 'v) \<Rightarrow> RoundStats \<times> 'v Cache \<Rightarrow> RoundStats \<times> 'v Cache" where
  "apply_result now stale_after r st =
     (let (name, result) = r; (stats, cached) = st in
      case result of
        Inr v \<Rightarrow> (stats\<lparr>fetched_ok := fetched_ok stats + 1\<rparr>,
                 hm_insert name \<lparr>cvalue = v, last_success = now\<rparr> cached)
      | Inl err \<Rightarrow>
          (case hm_get cached name of
             Some entry \<Rightarrow>
               if now - last_success entry < stale_after
               then (stats\<lparr>used_cache := used_cache stats + 1\<rparr>, cached)
               else (stats\<lparr>dropped := dropped stats + 1\<rparr>, hm_remove name cached)
           | None \<Rightarrow> (stats\<lparr>dropped := dropped stats + 1\<rparr>, hm_remove name cached)))"

definition snapshot :: "'v Cache \<Rightarrow> (string, 'v) hashmap" where
  "snapshot cached = hm_map cvalue cached"

definition apply_round ::
  "nat \<Rightarrow> (string \<times> ('e + 'v)) list \<Rightarrow> nat \<Rightarrow> 'v Cache \<Rightarrow>
     (RoundStats \<times> (string, 'v) hashmap) \<times> 'v Cache" where
  "apply_round now results stale_after cached =
     (let (stats, cached') = fold (apply_result now stale_after) results (RoundStats_default, cached)
      in ((stats, snapshot cached'), cached'))"

text \<open>
  A sequence of rounds, each at its own instant, and the polls of one source in it. \<open>served\<close> says what
  the cache promises for a source from its polls alone: the value of the latest successful poll,
  if the last poll is that one or came less than \<open>stale_after\<close> after it.
\<close>

definition run_rounds ::
  "nat \<Rightarrow> (nat \<times> (string \<times> ('e + 'v)) list) list \<Rightarrow> 'v Cache \<Rightarrow> 'v Cache" where
  "run_rounds stale_after rounds cached =
     fold (\<lambda>(now, results) c. snd (apply_round now results stale_after c)) rounds cached"

definition round_polls :: "string \<Rightarrow> nat \<times> (string \<times> ('e + 'v)) list \<Rightarrow> (nat \<times> ('e + 'v)) list" where
  "round_polls name r = map (\<lambda>(_, result). (fst r, result)) (filter (\<lambda>(n, _). n = name) (snd r))"

definition polls ::
  "string \<Rightarrow> (nat \<times> (string \<times> ('e + 'v)) list) list \<Rightarrow> (nat \<times> ('e + 'v)) list" where
  "polls name rounds = concat (map (round_polls name) rounds)"

definition latest_ok :: "(nat \<times> ('e + 'v)) list \<Rightarrow> (nat \<times> 'v) option" where
  "latest_ok ps = fold (\<lambda>(t, r) acc. case r of Inr v \<Rightarrow> Some (t, v) | Inl _ \<Rightarrow> acc) ps None"

definition served :: "nat \<Rightarrow> (nat \<times> ('e + 'v)) list \<Rightarrow> 'v option" where
  "served stale_after ps =
     (case latest_ok ps of
        None \<Rightarrow> None
      | Some (t, v) \<Rightarrow>
          if \<not> isl (snd (last ps)) \<or> fst (last ps) - t < stale_after then Some v else None)"

section \<open>Lemmas on the wire records\<close>

lemma parse_ips_to_string [simp]: "parse_ips (map Ipv4Addr_to_string ips) label = Inr ips"
  unfolding parse_ips_def by (rule ipv4.try_map_to_text) simp

lemma parse_ips_Inr:
  "parse_ips raw label = Inr ips \<longleftrightarrow> list_all2 (\<lambda>s ip. Ipv4Addr_parse s = Some ip) raw ips"
proof -
  have "(case Ipv4Addr_parse s of None \<Rightarrow> Inl (BadIp s label) | Some ip \<Rightarrow> Inr ip) = Inr ip \<longleftrightarrow>
      Ipv4Addr_parse s = Some ip" for s ip
    by (simp split: option.split)
  then show ?thesis by (simp add: parse_ips_def try_map_Inr_iff)
qed

lemma LeasesResponse_parse_Inr:
  "LeasesResponse_parse r label = Inr l \<longleftrightarrow>
     parse_ips (lr_ips r) label = Inr (l_ips l) \<and> l_dumbarpd_id l = lr_dumbarpd_id r"
  by (auto simp: LeasesResponse_parse_def split: sum.split)

lemma parse_entry_Inr:
  "parse_entry label d = Inr r \<longleftrightarrow>
     Ipv4Addr_parse (v_nexthop d) = Some (r_nexthop r) \<and> v_device d \<noteq> [] \<and>
     parse_ips (v_ips d) (v_name d) = Inr (r_ips r) \<and>
     r_name r = v_name d \<and> r_device r = v_device d \<and> r_dumbarpd_id r = v_dumbarpd_id d"
  by (auto simp: parse_entry_def split: sum.split option.split)

section \<open>Lemmas on the cache\<close>

text \<open>One source's cell, and how a poll changes it.\<close>

definition cell_step ::
  "nat \<Rightarrow> nat \<times> ('e + 'v) \<Rightarrow> 'v CachedEntry option \<Rightarrow> 'v CachedEntry option" where
  "cell_step stale_after p cell =
     (case snd p of
        Inr v \<Rightarrow> Some \<lparr>cvalue = v, last_success = fst p\<rparr>
      | Inl _ \<Rightarrow>
          (case cell of
             Some entry \<Rightarrow> if fst p - last_success entry < stale_after then Some entry else None
           | None \<Rightarrow> None))"

lemma cell_step_simps [simp]:
  "cell_step stale (t, Inr v) cell = Some \<lparr>cvalue = v, last_success = t\<rparr>"
  "cell_step stale (t, Inl e) None = None"
  "cell_step stale (t, Inl e) (Some c) = (if t - last_success c < stale then Some c else None)"
  by (simp_all add: cell_step_def)

lemma apply_result_get:
  "hm_get (snd (apply_result now stale (n, r) st)) k =
     (if k = n then cell_step stale (now, r) (hm_get (snd st) n) else hm_get (snd st) k)"
  by (cases st) (auto simp: apply_result_def cell_step_def split: sum.split option.split)

lemma apply_result_ok: "hm_ok (snd st) \<Longrightarrow> hm_ok (snd (apply_result now stale r st))"
  by (cases st; cases r) (auto simp: apply_result_def split: sum.split option.split)

lemma apply_round_snd:
  "snd (apply_round now rs stale c) = snd (fold (apply_result now stale) rs (RoundStats_default, c))"
  by (simp add: apply_round_def split: prod.split)

lemma apply_round_view: "snd (fst (apply_round now rs stale c)) = snapshot (snd (apply_round now rs stale c))"
  by (simp add: apply_round_def split: prod.split)

lemma fold_apply_result_get:
  "hm_get (snd (fold (apply_result now stale) rs st)) k =
     fold (cell_step stale) (round_polls k (now, rs)) (hm_get (snd st) k)"
proof (induction rs arbitrary: st)
  case Nil
  then show ?case by (simp add: round_polls_def)
next
  case (Cons r rs)
  obtain n x where "r = (n, x)" by (cases r)
  then show ?case
    using Cons.IH [of "apply_result now stale r st"]
    by (auto simp: round_polls_def apply_result_get)
qed

lemma apply_round_ok: "hm_ok c \<Longrightarrow> hm_ok (snd (apply_round now rs stale c))"
proof -
  have "hm_ok (snd st) \<Longrightarrow> hm_ok (snd (fold (apply_result now stale) rs st))"
    for st
    by (induction rs arbitrary: st) (auto simp: apply_result_ok)
  then show "hm_ok c \<Longrightarrow> hm_ok (snd (apply_round now rs stale c))"
    by (simp add: apply_round_snd)
qed

lemma run_rounds_get:
  "hm_get (run_rounds stale rounds c) k = fold (cell_step stale) (polls k rounds) (hm_get c k)"
  by (induction rounds arbitrary: c)
    (auto simp: run_rounds_def polls_def apply_round_snd fold_apply_result_get)

lemma latest_ok_snoc:
  "latest_ok (ps @ [(t, r)]) = (case r of Inr v \<Rightarrow> Some (t, v) | Inl _ \<Rightarrow> latest_ok ps)"
  by (simp add: latest_ok_def split: sum.split)

lemma cell_of_polls:
  assumes "sorted (map fst ps)"
  shows "fold (cell_step stale) ps None =
    (case latest_ok ps of
       None \<Rightarrow> None
     | Some (t, v) \<Rightarrow>
         if \<not> isl (snd (last ps)) \<or> fst (last ps) - t < stale
         then Some \<lparr>cvalue = v, last_success = t\<rparr> else None)"
  using assms
proof (induction ps rule: rev_induct)
  case Nil
  then show ?case by (simp add: latest_ok_def)
next
  case (snoc p ps)
  obtain t r where p: "p = (t, r)" by (cases p)
  from snoc.prems have "sorted (map fst ps)" and le: "ps \<noteq> [] \<Longrightarrow> fst (last ps) \<le> t"
    by (auto simp: p sorted_append)
  note IH = snoc.IH [OF this(1)]
  have nil: "latest_ok ps = Some x \<Longrightarrow> ps \<noteq> []" for x
    by (auto simp: latest_ok_def)
  show ?case
  proof (cases "latest_ok ps")
    case None
    then show ?thesis by (cases r) (simp_all add: p IH latest_ok_snoc)
  next
    case (Some x)
    obtain t0 v where x: "x = (t0, v)" by (cases x)
    with Some have "ps \<noteq> []" "latest_ok ps = Some (t0, v)" using nil by auto
    then have "\<not> (\<not> isl (snd (last ps)) \<or> fst (last ps) - t0 < stale) \<Longrightarrow> \<not> t - t0 < stale"
      using le by auto
    with Some show ?thesis
      by (cases r) (auto simp: p x IH latest_ok_snoc)
  qed
qed

lemma sorted_polls: "sorted (map fst rounds) \<Longrightarrow> sorted (map fst (polls name rounds))"
proof (induction rounds)
  case (Cons r rounds)
  have "fst ` set (polls name rounds) \<subseteq> fst ` set rounds"
    by (force simp: polls_def round_polls_def)
  moreover have "sorted (map fst (round_polls name r))"
    by (auto simp: round_polls_def sorted_iff_nth_mono split: prod.split)
  moreover have "\<forall>x \<in> set (round_polls name r). fst x = fst r"
    by (auto simp: round_polls_def)
  moreover have "map fst (polls name (r # rounds)) =
      map fst (round_polls name r) @ map fst (polls name rounds)"
    by (simp add: polls_def)
  ultimately show ?case using Cons by (fastforce simp: sorted_append)
qed (simp add: polls_def)

lemma snapshot_get: "hm_get (snapshot c) k = map_option cvalue (hm_get c k)"
  by (simp add: snapshot_def)

lemma apply_round_get:
  "hm_get (snd (apply_round now rs stale c)) k =
     fold (cell_step stale) (round_polls k (now, rs)) (hm_get c k)"
  by (simp add: apply_round_snd fold_apply_result_get)

lemma round_polls_distinct:
  assumes "distinct (map fst rs)" "(n, r) \<in> set rs"
  shows "round_polls n (now, rs) = [(now, r)]"
proof -
  have "filter (\<lambda>(m, _). m = n) rs = [(n, r)]"
    using assms
  proof (induction rs)
    case (Cons x rs)
    moreover have "filter (\<lambda>(m, _). m = n) rs = []" if "n \<notin> fst ` set rs"
      using that by (force simp: filter_empty_conv)
    ultimately show ?case by (cases x) (force simp: image_iff)
  qed simp
  then show ?thesis by (simp add: round_polls_def)
qed

lemma round_polls_unpolled: "n \<notin> fst ` set rs \<Longrightarrow> round_polls n (now, rs) = []"
  by (force simp: round_polls_def filter_empty_conv)

text \<open>
  The contract the pollers rely on: what one round of polling (each source polled once) makes of the
  values the store serves, and, from it, what a sequence of rounds may serve.
\<close>

locale round_store =
  fixes store_round :: "nat \<Rightarrow> (string \<times> ('e + 'v)) list \<Rightarrow> 's \<Rightarrow> 's"
    and store_view :: "'s \<Rightarrow> string \<Rightarrow> 'v option"
  assumes view_success:
      "distinct (map fst rs) \<Longrightarrow> (n, Inr v) \<in> set rs \<Longrightarrow> store_view (store_round now rs s) n = Some v"
    and view_failure:
      "distinct (map fst rs) \<Longrightarrow> (n, Inl e) \<in> set rs \<Longrightarrow>
         store_view (store_round now rs s) n \<in> {None, store_view s n}"
    and view_unpolled:
      "n \<notin> fst ` set rs \<Longrightarrow> store_view (store_round now rs s) n = store_view s n"
begin

lemma view_source:
  assumes "distinct (map fst rs)" "store_view (store_round now rs s) n = Some v"
  shows "(n, Inr v) \<in> set rs \<or> store_view s n = Some v"
proof (cases "n \<in> fst ` set rs")
  case True
  then obtain r where r: "(n, r) \<in> set rs" by auto
  with assms show ?thesis
  proof (cases r)
    case (Inl e)
    with r assms show ?thesis using view_failure [of rs n e now s] by auto
  next
    case (Inr w)
    with r assms show ?thesis using view_success [of rs n w now s] by auto
  qed
next
  case False
  with assms show ?thesis by (simp add: view_unpolled)
qed

lemma view_origin:
  assumes "\<forall>(now, rs) \<in> set rounds. distinct (map fst rs)"
    and "store_view (fold (\<lambda>(now, rs). store_round now rs) rounds s) n = Some v"
  shows "(\<exists>(now, rs) \<in> set rounds. (n, Inr v) \<in> set rs) \<or> store_view s n = Some v"
  using assms
proof (induction rounds arbitrary: s)
  case (Cons r rounds)
  obtain now rs where r: "r = (now, rs)" by (cases r)
  with Cons have "(\<exists>(now, rs) \<in> set rounds. (n, Inr v) \<in> set rs) \<or>
      store_view (store_round now rs s) n = Some v"
    by auto
  with Cons.prems(1) show ?case using view_source [of rs now s n v] by (auto simp: r)
qed simp

end

lemma apply_round_failure:
  assumes "distinct (map fst rs)" "(n, Inl e) \<in> set rs"
  shows "hm_get (snapshot (snd (apply_round now rs stale c))) n \<in> {None, hm_get (snapshot c) n}"
  using assms
  by (cases "hm_get c n") (auto simp: apply_round_get round_polls_distinct snapshot_get)

interpretation cache: round_store
  "\<lambda>now rs c. snd (apply_round now rs stale_after c)" "\<lambda>c. hm_get (snapshot c)" for stale_after
proof unfold_locales
  fix rs :: "(string \<times> ('c + 'd)) list" and n v now and c :: "'d Cache"
  assume "distinct (map fst rs)" "(n, Inr v) \<in> set rs"
  then show "hm_get (snapshot (snd (apply_round now rs stale_after c))) n = Some v"
    by (simp add: apply_round_get round_polls_distinct snapshot_get)
next
  fix rs :: "(string \<times> ('c + 'd)) list" and n e now and c :: "'d Cache"
  assume "distinct (map fst rs)" "(n, Inl e) \<in> set rs"
  then show "hm_get (snapshot (snd (apply_round now rs stale_after c))) n \<in> {None, hm_get (snapshot c) n}"
    by (rule apply_round_failure)
next
  fix rs :: "(string \<times> ('c + 'd)) list" and n now and c :: "'d Cache"
  assume "n \<notin> fst ` set rs"
  then show "hm_get (snapshot (snd (apply_round now rs stale_after c))) n = hm_get (snapshot c) n"
    by (simp add: apply_round_get round_polls_unpolled snapshot_get)
qed

text \<open>
  The contract of a checked list of sources: an accepted list has distinct names. The pollers rely
  on it for every source to be polled once, under its own name.
\<close>

locale named_sources =
  fixes accepted :: "'e list \<Rightarrow> bool" and source_name :: "'e \<Rightarrow> string"
  assumes accepted_distinct: "accepted es \<Longrightarrow> distinct (map source_name es)"
begin

lemma round_distinct: "accepted es \<Longrightarrow> distinct (map fst (zip (map source_name es) (map f es)))"
  by (simp add: accepted_distinct)

lemma round_member: "e \<in> set es \<Longrightarrow> (source_name e, f e) \<in> set (zip (map source_name es) (map f es))"
  by (induction es) auto

lemma round_served:
  assumes "accepted es" "e \<in> set es" "f e = Inr v"
  shows "hm_get (snapshot (snd (apply_round now (zip (map source_name es) (map f es)) stale c))) (source_name e) = Some v"
  using cache.view_success [OF round_distinct [OF assms(1), of f], of "source_name e" v now stale c]
    round_member [OF assms(2), of f] assms(3) by simp

end

lemma apply_result_stats:
  "fst (apply_result now stale (n, r) st) =
     (case r of Inr v \<Rightarrow> (fst st)\<lparr>fetched_ok := fetched_ok (fst st) + 1\<rparr>
      | Inl _ \<Rightarrow> (case cell_step stale (now, r) (hm_get (snd st) n) of
          None \<Rightarrow> (fst st)\<lparr>dropped := dropped (fst st) + 1\<rparr>
        | Some _ \<Rightarrow> (fst st)\<lparr>used_cache := used_cache (fst st) + 1\<rparr>))"
  by (cases st; cases r; cases "hm_get (snd st) n") (auto simp: apply_result_def)

text \<open>The three counts of a round, read off its final cache.\<close>

definition round_counts ::
  "(string \<times> ('e + 'v)) list \<Rightarrow> (string \<Rightarrow> bool) \<Rightarrow> RoundStats \<Rightarrow> RoundStats" where
  "round_counts rs serves st =
     \<lparr>fetched_ok = fetched_ok st + length (filter (\<lambda>(n, r). \<not> isl r) rs),
      used_cache = used_cache st + length (filter (\<lambda>(n, r). isl r \<and> serves n) rs),
      dropped = dropped st + length (filter (\<lambda>(n, r). isl r \<and> \<not> serves n) rs)\<rparr>"

lemma fold_apply_result_stats:
  assumes "distinct (map fst rs)"
  shows "fst (fold (apply_result now stale) rs st) =
    round_counts rs (\<lambda>n. hm_get (snd (fold (apply_result now stale) rs st)) n \<noteq> None) (fst st)"
  using assms
proof (induction rs arbitrary: st)
  case Nil
  then show ?case by (simp add: round_counts_def)
next
  case (Cons x rs)
  obtain n r where x: "x = (n, r)" by (cases x)
  let ?s = "apply_result now stale (n, r) st"
  have n: "n \<notin> fst ` set rs" and d: "distinct (map fst rs)" using Cons.prems by (auto simp: x)
  have "hm_get (snd (fold (apply_result now stale) rs ?s)) n = cell_step stale (now, r) (hm_get (snd st) n)"
    using n by (simp add: fold_apply_result_get round_polls_unpolled apply_result_get)
  then show ?case
    using Cons.IH [OF d, of ?s]
    by (auto simp: x round_counts_def apply_result_stats split: sum.split option.split)
qed

lemma round_counts_total:
  "fetched_ok (round_counts rs serves st) + used_cache (round_counts rs serves st) +
     dropped (round_counts rs serves st) =
   fetched_ok st + used_cache st + dropped st + length rs"
proof (induction rs)
  case (Cons x rs)
  then show ?case by (cases x) (auto simp: round_counts_def)
qed (simp add: round_counts_def)

lemma run_rounds_serves:
  assumes "sorted (map fst rounds)"
  shows "hm_get (snapshot (run_rounds stale_after rounds Cache_default)) name =
    served stale_after (polls name rounds)"
proof -
  have "hm_get (run_rounds stale_after rounds Cache_default) name =
      fold (cell_step stale_after) (polls name rounds) None"
    by (simp add: run_rounds_get Cache_default_def)
  also note cell_of_polls [OF sorted_polls [OF assms]]
  finally show ?thesis
    by (simp add: snapshot_get served_def split: option.split)
qed

section \<open>Properties\<close>

text \<open>
  C14. The cache implements its promise. After any sequence of rounds at non-decreasing instants,
  starting from the empty cache, what the cache serves for a source is exactly what \<open>served\<close> says
  from the polls of that source: the value of its latest successful poll, as long as the last poll
  was that one or came less than \<open>stale_after\<close> later, and nothing otherwise.
\<close>

theorem cache_serves_latest_fresh:
  assumes "sorted (map fst rounds)"
  shows "hm_get (snapshot (run_rounds stale_after rounds Cache_default)) name =
    served stale_after (polls name rounds)"
  using assms by (rule run_rounds_serves)

theorem cache_serves_latest_fresh_witness:
  "hm_get (snapshot (run_rounds 5
      [(0, [(''a'', Inr (7 :: nat)), (''b'', Inr 8)]), (4, [(''a'', Inl ()), (''b'', Inr 9)]),
       (6, [(''a'', Inl ())])] Cache_default)) ''a'' = None"
  using cache_serves_latest_fresh
    [of "[(0, [(''a'', Inr (7 :: nat)), (''b'', Inr 8)]), (4, [(''a'', Inl ()), (''b'', Inr 9)]),
       (6, [(''a'', Inl ())])]" 5 "''a''"]
  by (simp add: served_def polls_def round_polls_def latest_ok_def)

text \<open>
  The statistics of a round are exact. When every source is polled once, \<open>fetched_ok\<close> counts the
  sources whose fetch succeeded, \<open>used_cache\<close> the sources whose fetch failed but which the returned
  view still serves, and \<open>dropped\<close> the polled sources the returned view no longer serves; so the three
  add up to the number of sources polled.
\<close>

theorem round_stats_exact:
  assumes "distinct (map fst results)"
    and "apply_round now results stale_after cached = ((stats, view), cached')"
  shows "fetched_ok stats = length (filter (\<lambda>(n, r). \<not> isl r) results) \<and>
    used_cache stats = length (filter (\<lambda>(n, r). isl r \<and> hm_get view n \<noteq> None) results) \<and>
    dropped stats = length (filter (\<lambda>(n, r). hm_get view n = None) results) \<and>
    fetched_ok stats + used_cache stats + dropped stats = length results"
proof -
  let ?f = "fold (apply_result now stale_after) results (RoundStats_default, cached)"
  have st: "stats = fst ?f" and v: "hm_get view n = None \<longleftrightarrow> hm_get (snd ?f) n = None" for n
    using assms(2) by (auto simp: apply_round_def snapshot_get split: prod.splits)
  have v_eq: "view = snapshot (snd (apply_round now results stale_after cached))"
    using apply_round_view [of now results stale_after cached] assms(2) by simp
  have ok: "hm_get view n \<noteq> None" if "(n, Inr x) \<in> set results" for n x
    using cache.view_success [OF assms(1) that, of now stale_after cached] by (simp add: v_eq)
  have dr: "filter (\<lambda>(n, r). isl r \<and> hm_get view n = None) results =
      filter (\<lambda>(n, r). hm_get view n = None) results"
  proof (rule filter_cong [OF refl])
    fix x assume x: "x \<in> set results"
    have "x = (fst x, Inr b) \<Longrightarrow> hm_get view (fst x) \<noteq> None" for b
      using ok [of "fst x" b] x by metis
    then show "(case x of (n, r) \<Rightarrow> isl r \<and> hm_get view n = None) = (case x of (n, r) \<Rightarrow> hm_get view n = None)"
      by (cases "snd x") (simp_all add: case_prod_beta prod_eq_iff)
  qed
  have eq: "stats = round_counts results (\<lambda>n. hm_get view n \<noteq> None) RoundStats_default"
    using fold_apply_result_stats [OF assms(1), of now stale_after "(RoundStats_default, cached)"]
    by (simp add: st v)
  show ?thesis
    using round_counts_total [of results "\<lambda>n. hm_get view n \<noteq> None" RoundStats_default]
    unfolding eq [symmetric] by (simp add: eq round_counts_def RoundStats_default_def dr)
qed

theorem round_stats_exact_witness:
  "fetched_ok (fst (fst (apply_round 9 [(''a'', Inr (7 :: nat)), (''b'', Inl ()), (''c'', Inl ())] 5
      [(''b'', \<lparr>cvalue = 1, last_success = 8\<rparr>), (''c'', \<lparr>cvalue = 2, last_success = 1\<rparr>)]))) = 1 \<and>
   used_cache (fst (fst (apply_round 9 [(''a'', Inr (7 :: nat)), (''b'', Inl ()), (''c'', Inl ())] 5
      [(''b'', \<lparr>cvalue = 1, last_success = 8\<rparr>), (''c'', \<lparr>cvalue = 2, last_success = 1\<rparr>)]))) = 1"
  using round_stats_exact [of "[(''a'', Inr (7 :: nat)), (''b'', Inl ()), (''c'', Inl ())]" 9 5
      "[(''b'', \<lparr>cvalue = 1, last_success = 8\<rparr>), (''c'', \<lparr>cvalue = 2, last_success = 1\<rparr>)]"]
  by (simp add: apply_round_def apply_result_def snapshot_def hm_map_def RoundStats_default_def)

end
