(* ===== verification/Routing.thy ===== *)
theory Routing
  imports Api "HOL-Library.Multiset"
begin

text \<open>
  The crate \<open>dumbarp-routing\<close> (\<open>src/dumbarp-routing/src/lib.rs\<close>): \<open>RouteManager::reconcile\<close> makes the
  kernel's policy rules and routes agree with a list of wanted \<open>RouteSpec\<close>s, one routing table per
  source address. The netlink library and the kernel behind it are the parameter \<open>netlink\<close>, a record
  of the requests the code makes over an abstract kernel state \<open>'s\<close>; \<open>netlink_laws\<close> states what the
  code relies on. The order in which a run visits a hash set is the parameter \<open>iter\<close>. The lines the
  code writes with \<open>tracing::warn!\<close> are a value of the model, so that a theorem can say what was
  reported.
\<close>

section \<open>Messages of the netlink library\<close>

datatype IpAddr = V4 ipv4addr | V6 "128 word"

datatype AddressFamily = Inet | OtherFamily u8

datatype RuleAction = ToTable | OtherAction u8

datatype RuleAttribute =
    Priority u32
  | Source IpAddr
  | RuleTable u32
  | FwMark u32
  | FwMask u32
  | OtherRuleAttribute "u8 list"

record RuleMessage =
  rule_family :: AddressFamily
  rule_src_len :: u8
  rule_table :: u8
  rule_action :: RuleAction
  rule_attributes :: "RuleAttribute list"

datatype RouteProtocol = ProtoOther u8 | ProtoNamed string

datatype RouteAddress = RouteInet ipv4addr | OtherRouteAddress "u8 list"

datatype RouteAttribute =
    Gateway RouteAddress
  | Oif u32
  | RouteTable u32
  | OtherRouteAttribute "u8 list"

record RouteMessage =
  route_family :: AddressFamily
  route_protocol :: RouteProtocol
  route_table :: u8
  route_onlink :: bool
  route_attributes :: "RouteAttribute list"

text \<open>The arguments the code gives to the request builders of the library.\<close>

record RuleAddReq =
  ra_source_prefix :: "ipv4addr \<times> u8"
  ra_table_id :: u32
  ra_action :: RuleAction
  ra_priority :: u32
  ra_fw_mark :: "u32 option"
  ra_attributes :: "RuleAttribute list"

record RouteReq =
  rq_table_id :: u32
  rq_protocol :: RouteProtocol
  rq_output_interface :: "u32 option"
  rq_gateway :: "ipv4addr option"
  rq_onlink :: bool

datatype nl_error = NlError string

record 's netlink =
  nl_rule_default :: RuleMessage
  nl_link_get :: "'s \<Rightarrow> string \<Rightarrow> nl_error + u32 option"
  nl_rule_dump :: "'s \<Rightarrow> nl_error + RuleMessage list"
  nl_route_dump :: "'s \<Rightarrow> nl_error + RouteMessage list"
  nl_rule_add :: "RuleAddReq \<Rightarrow> 's \<Rightarrow> (nl_error + unit) \<times> 's"
  nl_rule_del :: "RuleMessage \<Rightarrow> 's \<Rightarrow> (nl_error + unit) \<times> 's"
  nl_route_add :: "RouteReq \<Rightarrow> 's \<Rightarrow> (nl_error + unit) \<times> 's"
  nl_route_del :: "RouteReq \<Rightarrow> 's \<Rightarrow> (nl_error + unit) \<times> 's"

section \<open>The route manager\<close>

definition DUMBARP_PROTO_RAW :: u8 where [const_defs]: "DUMBARP_PROTO_RAW = 0x9A"
definition DUMBARP_PROTO :: RouteProtocol where "DUMBARP_PROTO = ProtoOther DUMBARP_PROTO_RAW"
definition DUMBARP_PRIORITY :: u32 where [const_defs]: "DUMBARP_PRIORITY = 9876"
definition FWMASK_EXACT :: u32 where [const_defs]: "FWMASK_EXACT = 0xFFFFFFFF"

record RouteSpec =
  sp_src :: ipv4addr
  sp_gateway :: ipv4addr
  sp_iface :: string
  sp_fwmark :: "u32 option"

record ResolvedSpec =
  rs_src :: ipv4addr
  rs_gateway :: ipv4addr
  rs_ifindex :: u32
  rs_fwmark :: "u32 option"

record CurrentRule =
  cr_src :: ipv4addr
  cr_fwmark :: "u32 option"
  cr_fwmask :: "u32 option"

record CurrentRoute =
  ct_gateway :: ipv4addr
  ct_oif :: u32
  ct_onlink :: bool

record ParsedRoute =
  pr_table :: u32
  pr_gateway :: ipv4addr
  pr_oif :: u32
  pr_onlink :: bool

definition into_value :: "ParsedRoute \<Rightarrow> CurrentRoute" where
  "into_value self = \<lparr>ct_gateway = pr_gateway self, ct_oif = pr_oif self, ct_onlink = pr_onlink self\<rparr>"

definition expected_fwmask :: "u32 option \<Rightarrow> u32 option" where
  "expected_fwmask fwmark = map_option (\<lambda>_. FWMASK_EXACT) fwmark"

definition CurrentRule_matches :: "CurrentRule \<Rightarrow> ResolvedSpec \<Rightarrow> bool" where
  "CurrentRule_matches self want \<longleftrightarrow>
     cr_src self = rs_src want \<and> cr_fwmark self = rs_fwmark want \<and>
     cr_fwmask self = expected_fwmask (rs_fwmark want)"

definition table_id_for :: "ipv4addr \<Rightarrow> u32" where
  "table_id_for ip =
     (let raw = u32_from_be_bytes ip in
      if raw = 0 \<or> raw = 253 \<or> raw = 254 \<or> raw = 255 then raw + 0x10000 else raw)"

text \<open>The attributes the loop of \<open>parse_dumbarp_rule\<close> collects; a later one replaces an earlier.\<close>

record rule_attrs =
  at_priority :: "u32 option"
  at_src :: "ipv4addr option"
  at_table :: "u32 option"
  at_fwmark :: "u32 option"
  at_fwmask :: "u32 option"

fun rule_attr_step :: "RuleAttribute \<Rightarrow> rule_attrs \<Rightarrow> rule_attrs" where
  "rule_attr_step (Priority p) a = a\<lparr>at_priority := Some p\<rparr>"
| "rule_attr_step (Source (V4 v4)) a = a\<lparr>at_src := Some v4\<rparr>"
| "rule_attr_step (RuleTable t) a = a\<lparr>at_table := Some t\<rparr>"
| "rule_attr_step (FwMark m) a = a\<lparr>at_fwmark := Some m\<rparr>"
| "rule_attr_step (FwMask m) a = a\<lparr>at_fwmask := Some m\<rparr>"
| "rule_attr_step (Source (V6 _)) a = a"
| "rule_attr_step (OtherRuleAttribute _) a = a"

definition rule_attrs_empty :: rule_attrs where
  "rule_attrs_empty =
     \<lparr>at_priority = None, at_src = None, at_table = None, at_fwmark = None, at_fwmask = None\<rparr>"

definition parse_dumbarp_rule :: "RuleMessage \<Rightarrow> (u32 \<times> CurrentRule) option" where
  "parse_dumbarp_rule msg =
     (if rule_family msg \<noteq> Inet then None
      else
        let a = fold rule_attr_step (rule_attributes msg) rule_attrs_empty in
        if at_priority a \<noteq> Some DUMBARP_PRIORITY then None
        else case at_src a of
          None \<Rightarrow> None
        | Some src \<Rightarrow>
            if rule_src_len msg \<noteq> 32 then None
            else
              let table = (case at_table a of Some t \<Rightarrow> t | None \<Rightarrow> ucast (rule_table msg));
                  fwmark = (case at_fwmark a of Some m \<Rightarrow> if m \<noteq> 0 then Some m else None | None \<Rightarrow> None)
              in Some (table, \<lparr>cr_src = src, cr_fwmark = fwmark,
                   cr_fwmask = (if fwmark = None then None else at_fwmask a)\<rparr>))"

record route_attrs =
  rt_gateway :: "ipv4addr option"
  rt_oif :: "u32 option"
  rt_table :: "u32 option"

fun route_attr_step :: "RouteAttribute \<Rightarrow> route_attrs \<Rightarrow> route_attrs" where
  "route_attr_step (Gateway (RouteInet v4)) a = a\<lparr>rt_gateway := Some v4\<rparr>"
| "route_attr_step (Oif idx) a = a\<lparr>rt_oif := Some idx\<rparr>"
| "route_attr_step (RouteTable t) a = a\<lparr>rt_table := Some t\<rparr>"
| "route_attr_step (Gateway (OtherRouteAddress _)) a = a"
| "route_attr_step (OtherRouteAttribute _) a = a"

definition parse_dumbarp_route :: "RouteMessage \<Rightarrow> ParsedRoute option" where
  "parse_dumbarp_route msg =
     (if route_family msg \<noteq> Inet then None
      else if route_protocol msg \<noteq> DUMBARP_PROTO then None
      else
        let onlink = route_onlink msg;
            a = fold route_attr_step (route_attributes msg)
                  \<lparr>rt_gateway = None, rt_oif = None, rt_table = None\<rparr>;
            table = (case rt_table a of Some t \<Rightarrow> t | None \<Rightarrow> ucast (route_table msg))
        in case (rt_gateway a, rt_oif a) of
             (Some gateway, Some oif) \<Rightarrow>
               Some \<lparr>pr_table = table, pr_gateway = gateway, pr_oif = oif, pr_onlink = onlink\<rparr>
           | _ \<Rightarrow> None)"

datatype route_error = LinkGet string | NoInterface string | RuleDump nl_error | RouteDump nl_error
  | AddRule | DelRule | AddRoute | DelRoute

definition ifindex :: "'s netlink \<Rightarrow> 's \<Rightarrow> string \<Rightarrow> route_error + u32" where
  "ifindex K s iface =
     (case nl_link_get K s iface of
        Inl _ \<Rightarrow> Inl (LinkGet iface)
      | Inr None \<Rightarrow> Inl (NoInterface iface)
      | Inr (Some index) \<Rightarrow> Inr index)"

text \<open>\<open>out.entry(table).or_default().push(rule)\<close> for every message that parses.\<close>

definition push_rule ::
  "(u32, CurrentRule list) hashmap \<Rightarrow> u32 \<times> CurrentRule \<Rightarrow> (u32, CurrentRule list) hashmap" where
  "push_rule out r =
     hm_insert (fst r) ((case hm_get out (fst r) of Some rs \<Rightarrow> rs | None \<Rightarrow> []) @ [snd r]) out"

definition list_rules :: "'s netlink \<Rightarrow> 's \<Rightarrow> route_error + (u32, CurrentRule list) hashmap" where
  "list_rules K s =
     (case nl_rule_dump K s of
        Inl e \<Rightarrow> Inl (RuleDump e)
      | Inr msgs \<Rightarrow> Inr (foldl push_rule [] (List.map_filter parse_dumbarp_rule msgs)))"

definition list_routes :: "'s netlink \<Rightarrow> 's \<Rightarrow> route_error + (u32, CurrentRoute) hashmap" where
  "list_routes K s =
     (case nl_route_dump K s of
        Inl e \<Rightarrow> Inl (RouteDump e)
      | Inr msgs \<Rightarrow> Inr (foldl (\<lambda>out r. hm_insert (pr_table r) (into_value r) out) []
          (List.map_filter parse_dumbarp_route msgs)))"

definition add_rule ::
  "'s netlink \<Rightarrow> ipv4addr \<Rightarrow> u32 \<Rightarrow> u32 option \<Rightarrow> 's \<Rightarrow> (route_error + unit) \<times> 's" where
  "add_rule K src table fwmark s =
     (let req = \<lparr>ra_source_prefix = (src, 32), ra_table_id = table, ra_action = ToTable,
                 ra_priority = DUMBARP_PRIORITY, ra_fw_mark = None, ra_attributes = []\<rparr>;
          req' = (case fwmark of
                    Some mark \<Rightarrow> req\<lparr>ra_fw_mark := Some mark, ra_attributes := [FwMask FWMASK_EXACT]\<rparr>
                  | None \<Rightarrow> req)
      in case nl_rule_add K req' s of (Inl _, s') \<Rightarrow> (Inl AddRule, s') | (Inr _, s') \<Rightarrow> (Inr (), s'))"

definition del_rule_msg :: "'s netlink \<Rightarrow> ipv4addr \<Rightarrow> u32 \<Rightarrow> u32 option \<Rightarrow> RuleMessage" where
  "del_rule_msg K src table fwmark =
     (let msg = (nl_rule_default K)\<lparr>rule_family := Inet, rule_src_len := 32, rule_action := ToTable\<rparr>
      in msg\<lparr>rule_attributes := rule_attributes msg @
           [Source (V4 src), RuleTable table, Priority DUMBARP_PRIORITY] @
           (case fwmark of Some mark \<Rightarrow> [FwMark mark] | None \<Rightarrow> [])\<rparr>)"

definition del_rule ::
  "'s netlink \<Rightarrow> ipv4addr \<Rightarrow> u32 \<Rightarrow> u32 option \<Rightarrow> 's \<Rightarrow> (route_error + unit) \<times> 's" where
  "del_rule K src table fwmark s =
     (case nl_rule_del K (del_rule_msg K src table fwmark) s of
        (Inl _, s') \<Rightarrow> (Inl DelRule, s')
      | (Inr _, s') \<Rightarrow> (Inr (), s'))"

definition add_route ::
  "'s netlink \<Rightarrow> u32 \<Rightarrow> ipv4addr \<Rightarrow> u32 \<Rightarrow> 's \<Rightarrow> (route_error + unit) \<times> 's" where
  "add_route K table gateway index s =
     (case nl_route_add K \<lparr>rq_table_id = table, rq_protocol = DUMBARP_PROTO,
        rq_output_interface = Some index, rq_gateway = Some gateway, rq_onlink = True\<rparr> s of
        (Inl _, s') \<Rightarrow> (Inl AddRoute, s')
      | (Inr _, s') \<Rightarrow> (Inr (), s'))"

definition del_route :: "'s netlink \<Rightarrow> u32 \<Rightarrow> 's \<Rightarrow> (route_error + unit) \<times> 's" where
  "del_route K table s =
     (case nl_route_del K \<lparr>rq_table_id = table, rq_protocol = DUMBARP_PROTO,
        rq_output_interface = None, rq_gateway = None, rq_onlink = False\<rparr> s of
        (Inl _, s') \<Rightarrow> (Inl DelRoute, s')
      | (Inr _, s') \<Rightarrow> (Inr (), s'))"

text \<open>The warnings of \<open>reconcile\<close>, with the table or the interface they name.\<close>

datatype warning =
    IfindexFailed string
  | MultipleRules u32 nat
  | DelRuleFailed u32 ipv4addr
  | DelRouteFailed u32
  | SkipAdd u32 ipv4addr
  | AddRuleFailed u32 ipv4addr
  | AddRouteFailed u32 ipv4addr

text \<open>The first loop of \<open>reconcile\<close>: one spec of \<open>desired\<close>.\<close>

record resolve_state =
  ifindex_cache :: "(string, u32) hashmap"
  resolved :: "(u32, ResolvedSpec) hashmap"
  resolve_log :: "warning list"

definition resolve_spec :: "'s netlink \<Rightarrow> 's \<Rightarrow> RouteSpec \<Rightarrow> resolve_state \<Rightarrow> resolve_state" where
  "resolve_spec K s spec st =
     (let add = (\<lambda>index st. st\<lparr>resolved := hm_insert (table_id_for (sp_src spec))
                   \<lparr>rs_src = sp_src spec, rs_gateway = sp_gateway spec, rs_ifindex = index,
                    rs_fwmark = sp_fwmark spec\<rparr> (resolved st)\<rparr>)
      in case hm_get (ifindex_cache st) (sp_iface spec) of
           Some idx \<Rightarrow> add idx st
         | None \<Rightarrow>
             (case ifindex K s (sp_iface spec) of
                Inr idx \<Rightarrow> add idx (st\<lparr>ifindex_cache := hm_insert (sp_iface spec) idx (ifindex_cache st)\<rparr>)
              | Inl err \<Rightarrow> st\<lparr>resolve_log := resolve_log st @ [IfindexFailed (sp_iface spec)]\<rparr>))"

definition resolve_all :: "'s netlink \<Rightarrow> 's \<Rightarrow> RouteSpec list \<Rightarrow> resolve_state" where
  "resolve_all K s desired =
     fold (resolve_spec K s) desired \<lparr>ifindex_cache = [], resolved = [], resolve_log = []\<rparr>"

text \<open>Deleting the rules of a table: the flag, the warnings and the kernel state.\<close>

fun del_rules ::
  "'s netlink \<Rightarrow> u32 \<Rightarrow> CurrentRule list \<Rightarrow> 's \<Rightarrow> bool \<times> warning list \<times> 's" where
  "del_rules K table [] s = (False, [], s)"
| "del_rules K table (rule # rules) s =
     (let (res, s') = del_rule K (cr_src rule) table (cr_fwmark rule) s;
          (failed, log, s'') = del_rules K table rules s'
      in case res of
           Inl _ \<Rightarrow> (True, DelRuleFailed table (cr_src rule) # log, s'')
         | Inr _ \<Rightarrow> (failed, log, s''))"

definition table_matches :: "ResolvedSpec option \<Rightarrow> CurrentRule list \<Rightarrow> CurrentRoute option \<Rightarrow> bool" where
  "table_matches want have_rules have_route =
     (case (want, have_rules, have_route) of
        (Some w, [r], Some rt) \<Rightarrow>
          CurrentRule_matches r w \<and> ct_gateway rt = rs_gateway w \<and> ct_oif rt = rs_ifindex w \<and> ct_onlink rt
      | _ \<Rightarrow> False)"

text \<open>The deletes and the adds in the body of the second loop of \<open>reconcile\<close>, and the body.\<close>

definition clear_table ::
  "'s netlink \<Rightarrow> u32 \<Rightarrow> CurrentRule list \<Rightarrow> CurrentRoute option \<Rightarrow> 's \<Rightarrow> bool \<times> warning list \<times> 's" where
  "clear_table K table have_rules have_route s =
     (let (delete_failed, log, s') = del_rules K table have_rules s
      in if have_route \<noteq> None
         then case del_route K table s' of
                (Inl _, s'') \<Rightarrow> (True, log @ [DelRouteFailed table], s'')
              | (Inr _, s'') \<Rightarrow> (delete_failed, log, s'')
         else (delete_failed, log, s'))"

definition install :: "'s netlink \<Rightarrow> u32 \<Rightarrow> ResolvedSpec \<Rightarrow> 's \<Rightarrow> warning list \<times> 's" where
  "install K table w s =
     (case add_rule K (rs_src w) table (rs_fwmark w) s of
        (Inl _, s1) \<Rightarrow> ([AddRuleFailed table (rs_src w)], s1)
      | (Inr _, s1) \<Rightarrow>
          (case add_route K table (rs_gateway w) (rs_ifindex w) s1 of
             (Inl _, s2) \<Rightarrow> ([AddRouteFailed table (rs_gateway w)], s2)
           | (Inr _, s2) \<Rightarrow> ([], s2)))"

definition reconcile_table ::
  "'s netlink \<Rightarrow> u32 \<Rightarrow> ResolvedSpec option \<Rightarrow> CurrentRule list \<Rightarrow> CurrentRoute option \<Rightarrow> 's \<Rightarrow>
     warning list \<times> 's" where
  "reconcile_table K table want have_rules have_route s =
     (if table_matches want have_rules have_route then ([], s)
      else
        let multiple = (if 1 < length have_rules then [MultipleRules table (length have_rules)] else []);
            (delete_failed, deletes, s1) = clear_table K table have_rules have_route s;
            log = multiple @ deletes
        in case want of
             None \<Rightarrow> (log, s1)
           | Some w \<Rightarrow>
               if delete_failed then (log @ [SkipAdd table (rs_src w)], s1)
               else let (adds, s2) = install K table w s1 in (log @ adds, s2))"

fun reconcile_tables ::
  "'s netlink \<Rightarrow> (u32 \<Rightarrow> ResolvedSpec option) \<Rightarrow> (u32 \<Rightarrow> CurrentRule list) \<Rightarrow>
     (u32 \<Rightarrow> CurrentRoute option) \<Rightarrow> u32 list \<Rightarrow> 's \<Rightarrow> warning list \<times> 's" where
  "reconcile_tables K want rules route [] s = ([], s)"
| "reconcile_tables K want rules route (table # tables) s =
     (let (log, s') = reconcile_table K table (want table) (rules table) (route table) s;
          (log', s'') = reconcile_tables K want rules route tables s'
      in (log @ log', s''))"

definition reconcile ::
  "'s netlink \<Rightarrow> (u32 list \<Rightarrow> u32 list) \<Rightarrow> RouteSpec list \<Rightarrow> 's \<Rightarrow>
     (route_error + unit) \<times> warning list \<times> 's" where
  "reconcile K iter desired s =
     (let st = resolve_all K s desired in
      case list_rules K s of
        Inl e \<Rightarrow> (Inl e, resolve_log st, s)
      | Inr current_rules \<Rightarrow>
          (case list_routes K s of
             Inl e \<Rightarrow> (Inl e, resolve_log st, s)
           | Inr current_routes \<Rightarrow>
               let all_tables = remdups (hm_keys current_rules @ hm_keys current_routes @ hm_keys (resolved st));
                   (log, s') = reconcile_tables K
                     (hm_get (resolved st))
                     (\<lambda>t. case hm_get current_rules t of Some rs \<Rightarrow> rs | None \<Rightarrow> [])
                     (hm_get current_routes) (iter all_tables) s
               in (Inr (), resolve_log st @ log, s')))"

section \<open>What the code relies on\<close>

text \<open>
  The dumbarp rules and routes a dump shows, and the laws of the netlink requests: a successful add
  makes one message appear that carries what was asked for, a successful delete makes one message
  disappear that has every attribute of the request, a failed request changes nothing, rule requests
  leave the routes alone and route requests the rules, and no dumped rule has two different
  attributes of one kind.
\<close>

fun sel_priority where "sel_priority (Priority p) = Some p" | "sel_priority _ = None"
fun sel_src where "sel_src (Source (V4 a)) = Some a" | "sel_src _ = None"
fun sel_table where "sel_table (RuleTable t) = Some t" | "sel_table _ = None"
fun sel_fwmark where "sel_fwmark (FwMark m) = Some m" | "sel_fwmark _ = None"
fun sel_fwmask where "sel_fwmask (FwMask m) = Some m" | "sel_fwmask _ = None"
fun sel_gateway where "sel_gateway (Gateway (RouteInet a)) = Some a" | "sel_gateway _ = None"
fun sel_oif where "sel_oif (Oif i) = Some i" | "sel_oif _ = None"
fun sel_rtable where "sel_rtable (RouteTable t) = Some t" | "sel_rtable _ = None"

definition rule_msgs :: "'s netlink \<Rightarrow> 's \<Rightarrow> RuleMessage list" where
  "rule_msgs K s = (case nl_rule_dump K s of Inr ms \<Rightarrow> ms | Inl _ \<Rightarrow> [])"

definition route_msgs :: "'s netlink \<Rightarrow> 's \<Rightarrow> RouteMessage list" where
  "route_msgs K s = (case nl_route_dump K s of Inr ms \<Rightarrow> ms | Inl _ \<Rightarrow> [])"

fun attr_kind :: "RuleAttribute \<Rightarrow> nat option" where
  "attr_kind (Priority _) = Some 0"
| "attr_kind (Source _) = Some 1"
| "attr_kind (RuleTable _) = Some 2"
| "attr_kind (FwMark _) = Some 3"
| "attr_kind (FwMask _) = Some 4"
| "attr_kind (OtherRuleAttribute _) = None"

definition unique_attrs :: "RuleMessage \<Rightarrow> bool" where
  "unique_attrs m \<longleftrightarrow> distinct (List.map_filter attr_kind (rule_attributes m))"

definition rule_shows :: "RuleAddReq \<Rightarrow> RuleMessage \<Rightarrow> bool" where
  "rule_shows req m \<longleftrightarrow>
     rule_family m = Inet \<and> rule_src_len m = snd (ra_source_prefix req) \<and>
     {Source (V4 (fst (ra_source_prefix req))), RuleTable (ra_table_id req), Priority (ra_priority req)} \<union>
       set (ra_attributes req) \<union> (case ra_fw_mark req of Some k \<Rightarrow> {FwMark k} | None \<Rightarrow> {})
       \<subseteq> set (rule_attributes m) \<and>
     (ra_fw_mark req = None \<longrightarrow> list_all (\<lambda>k. k = 0) (List.map_filter sel_fwmark (rule_attributes m)))"

definition rule_selected :: "RuleMessage \<Rightarrow> RuleMessage \<Rightarrow> bool" where
  "rule_selected req m \<longleftrightarrow>
     rule_family m = rule_family req \<and> rule_src_len m = rule_src_len req \<and>
     set (rule_attributes req) \<subseteq> set (rule_attributes m)"

definition route_shows :: "RouteReq \<Rightarrow> RouteMessage \<Rightarrow> bool" where
  "route_shows req m \<longleftrightarrow>
     route_family m = Inet \<and> route_protocol m = rq_protocol req \<and> route_onlink m = rq_onlink req \<and>
     List.map_filter sel_rtable (route_attributes m) = [rq_table_id req] \<and>
     List.map_filter sel_oif (route_attributes m) =
       (case rq_output_interface req of Some i \<Rightarrow> [i] | None \<Rightarrow> []) \<and>
     List.map_filter sel_gateway (route_attributes m) =
       (case rq_gateway req of Some g \<Rightarrow> [g] | None \<Rightarrow> [])"

definition route_selected :: "RouteReq \<Rightarrow> RouteMessage \<Rightarrow> bool" where
  "route_selected req m \<longleftrightarrow>
     route_family m = Inet \<and> route_protocol m = rq_protocol req \<and>
     List.map_filter sel_rtable (route_attributes m) = [rq_table_id req]"

definition appears :: "('m \<Rightarrow> bool) \<Rightarrow> 'm list \<Rightarrow> 'm list \<Rightarrow> bool" where
  "appears P old new \<longleftrightarrow> (\<exists>pre m post. old = pre @ post \<and> new = pre @ m # post \<and> P m)"

definition netlink_laws :: "'s netlink \<Rightarrow> bool" where
  "netlink_laws K \<longleftrightarrow>
     (\<forall>s. \<forall>m \<in> set (rule_msgs K s). unique_attrs m) \<and>
     (\<forall>req s s'. nl_rule_add K req s = (Inr (), s') \<longrightarrow>
        appears (rule_shows req) (rule_msgs K s) (rule_msgs K s') \<and> route_msgs K s' = route_msgs K s) \<and>
     (\<forall>req s s'. nl_rule_del K req s = (Inr (), s') \<longrightarrow>
        appears (rule_selected req) (rule_msgs K s') (rule_msgs K s) \<and> route_msgs K s' = route_msgs K s) \<and>
     (\<forall>req s s'. nl_route_add K req s = (Inr (), s') \<longrightarrow>
        appears (route_shows req) (route_msgs K s) (route_msgs K s') \<and> rule_msgs K s' = rule_msgs K s) \<and>
     (\<forall>req s s'. nl_route_del K req s = (Inr (), s') \<longrightarrow>
        appears (route_selected req) (route_msgs K s') (route_msgs K s) \<and> rule_msgs K s' = rule_msgs K s) \<and>
     (\<forall>req s. isl (fst (nl_rule_add K req s)) \<longrightarrow> snd (nl_rule_add K req s) = s) \<and>
     (\<forall>req s. isl (fst (nl_rule_del K req s)) \<longrightarrow> snd (nl_rule_del K req s) = s) \<and>
     (\<forall>req s. isl (fst (nl_route_add K req s)) \<longrightarrow> snd (nl_route_add K req s) = s) \<and>
     (\<forall>req s. isl (fst (nl_route_del K req s)) \<longrightarrow> snd (nl_route_del K req s) = s)"

definition iter_ok :: "('a list \<Rightarrow> 'a list) \<Rightarrow> bool" where
  "iter_ok iter \<longleftrightarrow> (\<forall>xs. mset (iter xs) = mset xs)"

section \<open>The kernel as seen by the code\<close>

definition rules_at :: "'s netlink \<Rightarrow> 's \<Rightarrow> u32 \<Rightarrow> CurrentRule multiset" where
  "rules_at K s t =
     image_mset snd (filter_mset (\<lambda>p. fst p = t) (mset (List.map_filter parse_dumbarp_rule (rule_msgs K s))))"

definition routes_at :: "'s netlink \<Rightarrow> 's \<Rightarrow> u32 \<Rightarrow> CurrentRoute multiset" where
  "routes_at K s t =
     image_mset into_value
       (filter_mset (\<lambda>r. pr_table r = t) (mset (List.map_filter parse_dumbarp_route (route_msgs K s))))"

definition rule_for :: "ResolvedSpec \<Rightarrow> CurrentRule" where
  "rule_for w = \<lparr>cr_src = rs_src w, cr_fwmark = rs_fwmark w, cr_fwmask = expected_fwmask (rs_fwmark w)\<rparr>"

definition route_for :: "ResolvedSpec \<Rightarrow> CurrentRoute" where
  "route_for w = \<lparr>ct_gateway = rs_gateway w, ct_oif = rs_ifindex w, ct_onlink = True\<rparr>"

definition in_sync :: "'s netlink \<Rightarrow> 's \<Rightarrow> u32 \<Rightarrow> ResolvedSpec option \<Rightarrow> bool" where
  "in_sync K s t want \<longleftrightarrow>
     rules_at K s t = (case want of Some w \<Rightarrow> {#rule_for w#} | None \<Rightarrow> {#}) \<and>
     routes_at K s t = (case want of Some w \<Rightarrow> {#route_for w#} | None \<Rightarrow> {#})"

text \<open>
  The routes of the dumbarp protocol are the ones this code adds: each has a gateway and an output
  interface, and there is at most one per table.
\<close>

definition routes_wf :: "'s netlink \<Rightarrow> 's \<Rightarrow> bool" where
  "routes_wf K s \<longleftrightarrow>
     (\<forall>m \<in> set (route_msgs K s). route_family m = Inet \<and> route_protocol m = DUMBARP_PROTO \<longrightarrow>
        parse_dumbarp_route m \<noteq> None) \<and>
     (\<forall>t. size (routes_at K s t) \<le> 1)"

text \<open>The table a warning reports a failed request for.\<close>

fun failed_table :: "warning \<Rightarrow> u32 option" where
  "failed_table (DelRuleFailed t _) = Some t"
| "failed_table (DelRouteFailed t) = Some t"
| "failed_table (SkipAdd t _) = Some t"
| "failed_table (AddRuleFailed t _) = Some t"
| "failed_table (AddRouteFailed t _) = Some t"
| "failed_table (IfindexFailed _) = None"
| "failed_table (MultipleRules _ _) = None"

section \<open>Lemmas on the parsers\<close>

lemma last_wins_Some:
  assumes "\<And>x a. f (step x a) = (case sel x of Some v \<Rightarrow> Some v | None \<Rightarrow> f a)"
    and "x \<in> set xs" "sel x = Some v" "\<And>y w. y \<in> set xs \<Longrightarrow> sel y = Some w \<Longrightarrow> w = v"
  shows "f (fold step xs a) = Some v"
  using assms(2-)
proof (induction xs rule: rev_induct)
  case (snoc y ys)
  show ?case
  proof (cases "sel y")
    case None
    with snoc.prems(1,2) have "x \<in> set ys" by auto
    then have "f (fold step ys a) = Some v"
      using snoc.prems(2) by (rule snoc.IH) (rule snoc.prems(3), simp_all)
    with None show ?thesis by (simp add: assms(1))
  next
    case (Some w)
    moreover from this have "w = v" by (intro snoc.prems(3)) simp_all
    ultimately show ?thesis by (simp add: assms(1))
  qed
qed simp

lemma last_wins_None:
  assumes "\<And>x a. f (step x a) = (case sel x of Some v \<Rightarrow> Some v | None \<Rightarrow> f a)"
    and "\<And>y. y \<in> set xs \<Longrightarrow> sel y = None"
  shows "f (fold step xs a) = f a"
  using assms(2)
proof (induction xs rule: rev_induct)
  case (snoc y ys)
  then have "sel y = None" "f (fold step ys a) = f a" by auto
  then show ?case by (simp add: assms(1))
qed simp

lemma rule_attr_step_sel:
  "at_priority (rule_attr_step x a) = (case sel_priority x of Some v \<Rightarrow> Some v | None \<Rightarrow> at_priority a)"
  "at_src (rule_attr_step x a) = (case sel_src x of Some v \<Rightarrow> Some v | None \<Rightarrow> at_src a)"
  "at_table (rule_attr_step x a) = (case sel_table x of Some v \<Rightarrow> Some v | None \<Rightarrow> at_table a)"
  "at_fwmark (rule_attr_step x a) = (case sel_fwmark x of Some v \<Rightarrow> Some v | None \<Rightarrow> at_fwmark a)"
  "at_fwmask (rule_attr_step x a) = (case sel_fwmask x of Some v \<Rightarrow> Some v | None \<Rightarrow> at_fwmask a)"
  by (cases "(x, a)" rule: rule_attr_step.cases; simp)+

lemma route_attr_step_sel:
  "rt_gateway (route_attr_step y b) = (case sel_gateway y of Some v \<Rightarrow> Some v | None \<Rightarrow> rt_gateway b)"
  "rt_oif (route_attr_step y b) = (case sel_oif y of Some v \<Rightarrow> Some v | None \<Rightarrow> rt_oif b)"
  "rt_table (route_attr_step y b) = (case sel_rtable y of Some v \<Rightarrow> Some v | None \<Rightarrow> rt_table b)"
  by (cases "(y, b)" rule: route_attr_step.cases; simp)+

lemma sel_iff:
  "sel_priority x = Some p \<longleftrightarrow> x = Priority p"
  "sel_src x = Some i \<longleftrightarrow> x = Source (V4 i)"
  "sel_table x = Some p \<longleftrightarrow> x = RuleTable p"
  "sel_fwmark x = Some p \<longleftrightarrow> x = FwMark p"
  "sel_fwmask x = Some p \<longleftrightarrow> x = FwMask p"
  "sel_gateway y = Some i \<longleftrightarrow> y = Gateway (RouteInet i)"
  "sel_oif y = Some p \<longleftrightarrow> y = Oif p"
  "sel_rtable y = Some p \<longleftrightarrow> y = RouteTable p"
  by (auto elim: sel_priority.elims sel_src.elims sel_table.elims sel_fwmark.elims sel_fwmask.elims
      sel_gateway.elims sel_oif.elims sel_rtable.elims)

lemmas attr_read =
  last_wins_Some [where f = at_priority and step = rule_attr_step, OF rule_attr_step_sel(1)]
  last_wins_Some [where f = at_src and step = rule_attr_step, OF rule_attr_step_sel(2)]
  last_wins_Some [where f = at_table and step = rule_attr_step, OF rule_attr_step_sel(3)]
  last_wins_Some [where f = at_fwmark and step = rule_attr_step, OF rule_attr_step_sel(4)]
  last_wins_Some [where f = at_fwmask and step = rule_attr_step, OF rule_attr_step_sel(5)]

lemmas route_attr_read =
  last_wins_Some [where f = rt_gateway and step = route_attr_step, OF route_attr_step_sel(1)]
  last_wins_Some [where f = rt_oif and step = route_attr_step, OF route_attr_step_sel(2)]
  last_wins_Some [where f = rt_table and step = route_attr_step, OF route_attr_step_sel(3)]

lemma set_map_filter_iff: "v \<in> set (List.map_filter f xs) \<longleftrightarrow> (\<exists>x \<in> set xs. f x = Some v)"
  by (force simp: List.map_filter_def)

lemma map_filter_distinct_eq:
  assumes "distinct (List.map_filter f xs)" "x \<in> set xs" "y \<in> set xs" "f x = Some k" "f y = Some k"
  shows "x = y"
  using assms
proof (induction xs)
  case (Cons z zs)
  have no: "k \<notin> set (List.map_filter f zs)" "distinct (List.map_filter f zs)" if "f z = Some k"
    using Cons.prems(1) that by simp_all
  show ?case
  proof (cases "f z = Some k")
    case True
    with no Cons.prems(2-) have "x = z" "y = z" by (auto simp: set_map_filter_iff)
    then show ?thesis by simp
  next
    case False
    with Cons.prems have "x \<in> set zs" "y \<in> set zs" by auto
    moreover have "distinct (List.map_filter f zs)"
      using Cons.prems(1) by (simp split: option.splits)
    ultimately show ?thesis using Cons.IH Cons.prems(4,5) by simp
  qed
qed simp

lemma unique_attrs_eq:
  assumes "unique_attrs m" "x \<in> set (rule_attributes m)" "y \<in> set (rule_attributes m)"
    and "attr_kind x = Some k" "attr_kind y = Some k"
  shows "x = y"
  using map_filter_distinct_eq [OF assms(1) [unfolded unique_attrs_def] assms(2-)] .

lemma unique_attrsD:
  assumes "unique_attrs m"
  shows "Priority p \<in> set (rule_attributes m) \<Longrightarrow> Priority p' \<in> set (rule_attributes m) \<Longrightarrow> p' = p"
    and "Source (V4 i) \<in> set (rule_attributes m) \<Longrightarrow> Source (V4 i') \<in> set (rule_attributes m) \<Longrightarrow> i' = i"
    and "RuleTable t \<in> set (rule_attributes m) \<Longrightarrow> RuleTable t' \<in> set (rule_attributes m) \<Longrightarrow> t' = t"
    and "FwMark k \<in> set (rule_attributes m) \<Longrightarrow> FwMark k' \<in> set (rule_attributes m) \<Longrightarrow> k' = k"
    and "FwMask k \<in> set (rule_attributes m) \<Longrightarrow> FwMask k' \<in> set (rule_attributes m) \<Longrightarrow> k' = k"
  using unique_attrs_eq [OF assms, of "Priority p'" "Priority p" 0]
    unique_attrs_eq [OF assms, of "Source (V4 i')" "Source (V4 i)" 1]
    unique_attrs_eq [OF assms, of "RuleTable t'" "RuleTable t" 2]
    unique_attrs_eq [OF assms, of "FwMark k'" "FwMark k" 3]
    unique_attrs_eq [OF assms, of "FwMask k'" "FwMask k" 4]
  by simp_all

lemma unique_attrs_read:
  assumes "unique_attrs m"
  shows "Priority p \<in> set (rule_attributes m) \<Longrightarrow>
      at_priority (fold rule_attr_step (rule_attributes m) a) = Some p"
    and "Source (V4 i) \<in> set (rule_attributes m) \<Longrightarrow>
      at_src (fold rule_attr_step (rule_attributes m) a) = Some i"
    and "RuleTable t \<in> set (rule_attributes m) \<Longrightarrow>
      at_table (fold rule_attr_step (rule_attributes m) a) = Some t"
    and "FwMark k \<in> set (rule_attributes m) \<Longrightarrow>
      at_fwmark (fold rule_attr_step (rule_attributes m) a) = Some k"
    and "FwMask k \<in> set (rule_attributes m) \<Longrightarrow>
      at_fwmask (fold rule_attr_step (rule_attributes m) a) = Some k"
proof -
  note u = unique_attrsD [OF assms]
  show "Priority p \<in> set (rule_attributes m) \<Longrightarrow>
      at_priority (fold rule_attr_step (rule_attributes m) a) = Some p"
    by (rule attr_read(1) [of "Priority p"]) (simp_all only: sel_iff, blast intro: u(1))
  show "Source (V4 i) \<in> set (rule_attributes m) \<Longrightarrow>
      at_src (fold rule_attr_step (rule_attributes m) a) = Some i"
    by (rule attr_read(2) [of "Source (V4 i)"]) (simp_all only: sel_iff, blast intro: u(2))
  show "RuleTable t \<in> set (rule_attributes m) \<Longrightarrow>
      at_table (fold rule_attr_step (rule_attributes m) a) = Some t"
    by (rule attr_read(3) [of "RuleTable t"]) (simp_all only: sel_iff, blast intro: u(3))
  show "FwMark k \<in> set (rule_attributes m) \<Longrightarrow>
      at_fwmark (fold rule_attr_step (rule_attributes m) a) = Some k"
    by (rule attr_read(4) [of "FwMark k"]) (simp_all only: sel_iff, blast intro: u(4))
  show "FwMask k \<in> set (rule_attributes m) \<Longrightarrow>
      at_fwmask (fold rule_attr_step (rule_attributes m) a) = Some k"
    by (rule attr_read(5) [of "FwMask k"]) (simp_all only: sel_iff, blast intro: u(5))
qed

lemma parse_rule_shown:
  assumes "unique_attrs m" "rule_family m = Inet" "rule_src_len m = 32"
    and "{Source (V4 src), RuleTable t, Priority DUMBARP_PRIORITY} \<subseteq> set (rule_attributes m)"
  shows "\<exists>r. parse_dumbarp_rule m = Some (t, r) \<and> cr_src r = src \<and>
    cr_fwmark r = (case at_fwmark (fold rule_attr_step (rule_attributes m) rule_attrs_empty) of
      Some k \<Rightarrow> if k \<noteq> 0 then Some k else None | None \<Rightarrow> None) \<and>
    cr_fwmask r = (if cr_fwmark r = None then None
      else at_fwmask (fold rule_attr_step (rule_attributes m) rule_attrs_empty))"
proof -
  note read = unique_attrs_read [OF assms(1)]
  show ?thesis
    using assms(2,3,4) read(1) [of DUMBARP_PRIORITY rule_attrs_empty] read(2) [of src rule_attrs_empty]
      read(3) [of t rule_attrs_empty]
    by (simp add: parse_dumbarp_rule_def Let_def)
qed

lemma parse_rule_added:
  assumes "unique_attrs m" "rule_family m = Inet" "rule_src_len m = 32" "fwmark \<noteq> Some 0"
    and "{Source (V4 src), RuleTable t, Priority DUMBARP_PRIORITY} \<subseteq> set (rule_attributes m)"
    and "case fwmark of Some k \<Rightarrow> {FwMark k, FwMask FWMASK_EXACT} \<subseteq> set (rule_attributes m)
         | None \<Rightarrow> \<forall>k. FwMark k \<in> set (rule_attributes m) \<longrightarrow> k = 0"
  shows "parse_dumbarp_rule m =
    Some (t, \<lparr>cr_src = src, cr_fwmark = fwmark, cr_fwmask = expected_fwmask fwmark\<rparr>)"
proof (cases fwmark)
  case (Some k)
  with assms(6) have "at_fwmark (fold rule_attr_step (rule_attributes m) rule_attrs_empty) = Some k"
    "at_fwmask (fold rule_attr_step (rule_attributes m) rule_attrs_empty) = Some FWMASK_EXACT"
    using unique_attrs_read [OF assms(1)] by auto
  with Some assms(4) show ?thesis
    using parse_rule_shown [OF assms(1-3,5)] by (auto simp: expected_fwmask_def)
next
  case None
  have "at_fwmark (fold rule_attr_step (rule_attributes m) rule_attrs_empty) \<in> {None, Some 0}"
  proof (cases "FwMark 0 \<in> set (rule_attributes m)")
    case True
    then show ?thesis using unique_attrs_read(4) [OF assms(1)] by simp
  next
    case False
    have "sel_fwmark y = None" if "y \<in> set (rule_attributes m)" for y
      using that None False assms(6) by (cases "sel_fwmark y") (auto simp: sel_iff)
    then have "at_fwmark (fold rule_attr_step (rule_attributes m) rule_attrs_empty) = at_fwmark rule_attrs_empty"
      by (intro last_wins_None [where f = at_fwmark and step = rule_attr_step, OF rule_attr_step_sel(4)])
    then show ?thesis by (simp add: rule_attrs_empty_def)
  qed
  with None show ?thesis
    using parse_rule_shown [OF assms(1-3,5)] by (auto simp: expected_fwmask_def)
qed

lemma map_filter_single:
  assumes "List.map_filter f xs = [v]"
  shows "\<exists>x \<in> set xs. f x = Some v" "y \<in> set xs \<Longrightarrow> f y = Some w \<Longrightarrow> w = v"
proof -
  from assms have "set (List.map_filter f xs) = {v}" by simp
  then show "\<exists>x \<in> set xs. f x = Some v" "y \<in> set xs \<Longrightarrow> f y = Some w \<Longrightarrow> w = v"
    by (metis set_map_filter_iff singletonI) (metis \<open>set (List.map_filter f xs) = {v}\<close> set_map_filter_iff singletonD)
qed

lemma route_table_read:
  assumes "List.map_filter sel_rtable as = [x]"
  shows "rt_table (fold route_attr_step as a) = Some x"
proof -
  from map_filter_single(1) [OF assms] obtain y where "y \<in> set as" "sel_rtable y = Some x" by blast
  then show ?thesis by (rule route_attr_read(3)) (rule map_filter_single(2) [OF assms])
qed

lemma parse_route_added:
  assumes "route_shows \<lparr>rq_table_id = t, rq_protocol = DUMBARP_PROTO, rq_output_interface = Some i,
      rq_gateway = Some g, rq_onlink = True\<rparr> m"
  shows "parse_dumbarp_route m = Some \<lparr>pr_table = t, pr_gateway = g, pr_oif = i, pr_onlink = True\<rparr>"
proof -
  let ?as = "route_attributes m"
  have g: "List.map_filter sel_gateway ?as = [g]" and i: "List.map_filter sel_oif ?as = [i]"
    using assms by (simp_all add: route_shows_def)
  from map_filter_single(1) [OF g] obtain y where "y \<in> set ?as" "sel_gateway y = Some g" by blast
  then have "rt_gateway (fold route_attr_step ?as a) = Some g" for a
    by (rule route_attr_read(1)) (rule map_filter_single(2) [OF g])
  moreover from map_filter_single(1) [OF i] obtain z where "z \<in> set ?as" "sel_oif z = Some i" by blast
  then have "rt_oif (fold route_attr_step ?as a) = Some i" for a
    by (rule route_attr_read(2)) (rule map_filter_single(2) [OF i])
  ultimately show ?thesis
    using assms by (simp add: parse_dumbarp_route_def route_shows_def Let_def route_table_read)
qed

lemma parse_route_selected:
  assumes "route_selected \<lparr>rq_table_id = t, rq_protocol = DUMBARP_PROTO, rq_output_interface = None,
      rq_gateway = None, rq_onlink = False\<rparr> m"
    and "parse_dumbarp_route m = Some p"
  shows "pr_table p = t"
proof -
  have "rt_table (fold route_attr_step (route_attributes m) a) = Some t" for a
    using assms(1) by (intro route_table_read) (simp add: route_selected_def)
  with assms(2) show ?thesis
    by (auto simp: parse_dumbarp_route_def Let_def split: option.splits if_splits)
qed

section \<open>Lemmas on the requests\<close>

lemma map_filter_append: "List.map_filter f (xs @ ys) = List.map_filter f xs @ List.map_filter f ys"
  by (simp add: List.map_filter_def)

lemma appears_rules:
  assumes "appears P (rule_msgs K s) (rule_msgs K s')"
    and "\<And>m. P m \<Longrightarrow> m \<in> set (rule_msgs K s') \<Longrightarrow> \<exists>r. parse_dumbarp_rule m = Some (t, r) \<and> Q r"
  shows "\<exists>r. Q r \<and> (\<forall>t'. rules_at K s' t' = rules_at K s t' + (if t' = t then {#r#} else {#})) \<and>
    filter (\<lambda>m. parse_dumbarp_rule m = None) (rule_msgs K s') =
    filter (\<lambda>m. parse_dumbarp_rule m = None) (rule_msgs K s)"
proof -
  from assms(1) obtain pre m post where
    m: "rule_msgs K s = pre @ post" "rule_msgs K s' = pre @ m # post" "P m"
    unfolding appears_def by blast
  moreover from this assms(2) obtain r where "parse_dumbarp_rule m = Some (t, r)" "Q r"
    by auto
  ultimately show ?thesis
    by (auto simp: rules_at_def map_filter_append intro!: exI [of _ r])
qed

lemma appears_routes:
  assumes "appears P (route_msgs K s) (route_msgs K s')"
    and "\<And>m. P m \<Longrightarrow> m \<in> set (route_msgs K s') \<Longrightarrow>
      \<exists>r. parse_dumbarp_route m = Some r \<and> pr_table r = t \<and> Q (into_value r)"
  shows "\<exists>r. Q r \<and> (\<forall>t'. routes_at K s' t' = routes_at K s t' + (if t' = t then {#r#} else {#}))"
proof -
  from assms(1) obtain pre m post where
    m: "route_msgs K s = pre @ post" "route_msgs K s' = pre @ m # post" "P m"
    unfolding appears_def by blast
  moreover from this assms(2) obtain r where "parse_dumbarp_route m = Some r" "pr_table r = t" "Q (into_value r)"
    by auto
  ultimately show ?thesis
    by (auto simp: routes_at_def map_filter_append intro!: exI [of _ "into_value r"])
qed

lemma same_rules: "rule_msgs K s' = rule_msgs K s \<Longrightarrow> rules_at K s' = rules_at K s"
  by (rule ext) (simp add: rules_at_def)

lemma same_routes: "route_msgs K s' = route_msgs K s \<Longrightarrow> routes_at K s' = routes_at K s"
  by (rule ext) (simp add: routes_at_def)

text \<open>The rules of the kernel that are none of the code's business.\<close>

definition foreign_rules :: "'s netlink \<Rightarrow> 's \<Rightarrow> RuleMessage list" where
  "foreign_rules K s = filter (\<lambda>m. parse_dumbarp_rule m = None) (rule_msgs K s)"

lemma netlink_lawsD:
  assumes "netlink_laws K"
  shows "m \<in> set (rule_msgs K s) \<Longrightarrow> unique_attrs m"
    and "nl_rule_add K ra s = (Inr (), s') \<Longrightarrow>
      appears (rule_shows ra) (rule_msgs K s) (rule_msgs K s') \<and> route_msgs K s' = route_msgs K s"
    and "nl_rule_del K rd s = (Inr (), s') \<Longrightarrow>
      appears (rule_selected rd) (rule_msgs K s') (rule_msgs K s) \<and> route_msgs K s' = route_msgs K s"
    and "nl_route_add K rq s = (Inr (), s') \<Longrightarrow>
      appears (route_shows rq) (route_msgs K s) (route_msgs K s') \<and> rule_msgs K s' = rule_msgs K s"
    and "nl_route_del K rq s = (Inr (), s') \<Longrightarrow>
      appears (route_selected rq) (route_msgs K s') (route_msgs K s) \<and> rule_msgs K s' = rule_msgs K s"
    and "nl_rule_add K ra s = (Inl e, s') \<Longrightarrow> s' = s"
    and "nl_rule_del K rd s = (Inl e, s') \<Longrightarrow> s' = s"
    and "nl_route_add K rq s = (Inl e, s') \<Longrightarrow> s' = s"
    and "nl_route_del K rq s = (Inl e, s') \<Longrightarrow> s' = s"
proof -
  note l = assms [unfolded netlink_laws_def]
  show "m \<in> set (rule_msgs K s) \<Longrightarrow> unique_attrs m" using conjunct1 [OF l] by simp
  show "nl_rule_add K ra s = (Inr (), s') \<Longrightarrow>
      appears (rule_shows ra) (rule_msgs K s) (rule_msgs K s') \<and> route_msgs K s' = route_msgs K s"
    and "nl_rule_del K rd s = (Inr (), s') \<Longrightarrow>
      appears (rule_selected rd) (rule_msgs K s') (rule_msgs K s) \<and> route_msgs K s' = route_msgs K s"
    and "nl_route_add K rq s = (Inr (), s') \<Longrightarrow>
      appears (route_shows rq) (route_msgs K s) (route_msgs K s') \<and> rule_msgs K s' = rule_msgs K s"
    and "nl_route_del K rq s = (Inr (), s') \<Longrightarrow>
      appears (route_selected rq) (route_msgs K s') (route_msgs K s) \<and> rule_msgs K s' = rule_msgs K s"
    using conjunct2 [OF l] by simp_all
  have "isl (fst (nl_rule_add K ra s)) \<Longrightarrow> snd (nl_rule_add K ra s) = s"
    "isl (fst (nl_rule_del K rd s)) \<Longrightarrow> snd (nl_rule_del K rd s) = s"
    "isl (fst (nl_route_add K rq s)) \<Longrightarrow> snd (nl_route_add K rq s) = s"
    "isl (fst (nl_route_del K rq s)) \<Longrightarrow> snd (nl_route_del K rq s) = s"
    using l by simp_all
  then show "nl_rule_add K ra s = (Inl e, s') \<Longrightarrow> s' = s"
    "nl_rule_del K rd s = (Inl e, s') \<Longrightarrow> s' = s"
    "nl_route_add K rq s = (Inl e, s') \<Longrightarrow> s' = s"
    "nl_route_del K rq s = (Inl e, s') \<Longrightarrow> s' = s"
    by simp_all
qed

lemma requests_failed:
  assumes "netlink_laws K"
  shows "add_rule K src t fm s = (Inl e, s') \<Longrightarrow> s' = s"
    and "del_rule K src t fm s = (Inl e, s') \<Longrightarrow> s' = s"
    and "add_route K t g i s = (Inl e, s') \<Longrightarrow> s' = s"
    and "del_route K t s = (Inl e, s') \<Longrightarrow> s' = s"
  by (auto simp: add_rule_def del_rule_def add_route_def del_route_def Let_def
      split: prod.splits sum.splits dest: netlink_lawsD(6-9) [OF assms])

lemma add_rule_done:
  assumes "netlink_laws K" "add_rule K src t fm s = (Inr u, s')" "fm \<noteq> Some 0"
  shows "rules_at K s' t' = rules_at K s t' +
      (if t' = t then {#\<lparr>cr_src = src, cr_fwmark = fm, cr_fwmask = expected_fwmask fm\<rparr>#} else {#})"
    and "routes_at K s' = routes_at K s" and "route_msgs K s' = route_msgs K s"
    and "foreign_rules K s' = foreign_rules K s"
proof -
  define req where "req = \<lparr>ra_source_prefix = (src, 32), ra_table_id = t, ra_action = ToTable,
     ra_priority = DUMBARP_PRIORITY, ra_fw_mark = fm,
     ra_attributes = (case fm of Some _ \<Rightarrow> [FwMask FWMASK_EXACT] | None \<Rightarrow> [])\<rparr>"
  have "nl_rule_add K req s = (Inr (), s')"
    using assms(2) by (cases fm) (auto simp: add_rule_def req_def split: prod.splits sum.splits)
  note law = netlink_lawsD(2) [OF assms(1) this]
  have "parse_dumbarp_rule m = Some (t, \<lparr>cr_src = src, cr_fwmark = fm, cr_fwmask = expected_fwmask fm\<rparr>)"
    if "rule_shows req m" "m \<in> set (rule_msgs K s')" for m
    using that assms(3) netlink_lawsD(1) [OF assms(1)]
    by (intro parse_rule_added)
      (auto simp: rule_shows_def req_def list_all_iff set_map_filter_iff sel_iff split: option.splits)
  then have "\<exists>r. r = \<lparr>cr_src = src, cr_fwmark = fm, cr_fwmask = expected_fwmask fm\<rparr> \<and>
      (\<forall>t'. rules_at K s' t' = rules_at K s t' + (if t' = t then {#r#} else {#})) \<and>
      filter (\<lambda>m. parse_dumbarp_rule m = None) (rule_msgs K s') =
      filter (\<lambda>m. parse_dumbarp_rule m = None) (rule_msgs K s)"
    using law by (intro appears_rules [of "rule_shows req"]) auto
  then show "rules_at K s' t' = rules_at K s t' +
      (if t' = t then {#\<lparr>cr_src = src, cr_fwmark = fm, cr_fwmask = expected_fwmask fm\<rparr>#} else {#})"
    "foreign_rules K s' = foreign_rules K s"
    by (auto simp: foreign_rules_def)
  from law show "route_msgs K s' = route_msgs K s" by simp
  then show "routes_at K s' = routes_at K s" by (rule same_routes)
qed

lemma del_rule_done:
  assumes "netlink_laws K" "del_rule K src t fm s = (Inr u, s')"
  shows "\<exists>r. cr_src r = src \<and>
      (\<forall>t'. rules_at K s t' = rules_at K s' t' + (if t' = t then {#r#} else {#}))"
    and "routes_at K s' = routes_at K s" and "route_msgs K s' = route_msgs K s"
    and "foreign_rules K s' = foreign_rules K s"
proof -
  have "nl_rule_del K (del_rule_msg K src t fm) s = (Inr (), s')"
    using assms(2) by (auto simp: del_rule_def split: prod.splits sum.splits)
  note law = netlink_lawsD(3) [OF assms(1) this]
  have "\<exists>r. parse_dumbarp_rule m = Some (t, r) \<and> cr_src r = src"
    if "rule_selected (del_rule_msg K src t fm) m" "m \<in> set (rule_msgs K s)" for m
    using that netlink_lawsD(1) [OF assms(1)] parse_rule_shown [of m src t]
    by (auto simp: rule_selected_def del_rule_msg_def Let_def)
  then have "\<exists>r. cr_src r = src \<and>
      (\<forall>t'. rules_at K s t' = rules_at K s' t' + (if t' = t then {#r#} else {#})) \<and>
      filter (\<lambda>m. parse_dumbarp_rule m = None) (rule_msgs K s) =
      filter (\<lambda>m. parse_dumbarp_rule m = None) (rule_msgs K s')"
    using law by (intro appears_rules [of "rule_selected (del_rule_msg K src t fm)"]) auto
  then show "\<exists>r. cr_src r = src \<and>
      (\<forall>t'. rules_at K s t' = rules_at K s' t' + (if t' = t then {#r#} else {#}))"
    "foreign_rules K s' = foreign_rules K s"
    by (auto simp: foreign_rules_def)
  from law show "route_msgs K s' = route_msgs K s" by simp
  then show "routes_at K s' = routes_at K s" by (rule same_routes)
qed

definition routes_parse :: "'s netlink \<Rightarrow> 's \<Rightarrow> bool" where
  "routes_parse K s \<longleftrightarrow>
     (\<forall>m \<in> set (route_msgs K s). route_family m = Inet \<and> route_protocol m = DUMBARP_PROTO \<longrightarrow>
        parse_dumbarp_route m \<noteq> None)"

lemma routes_wf_alt: "routes_wf K s \<longleftrightarrow> routes_parse K s \<and> (\<forall>t. size (routes_at K s t) \<le> 1)"
  by (simp add: routes_wf_def routes_parse_def)

lemma add_route_done:
  assumes "netlink_laws K" "add_route K t g i s = (Inr u, s')"
  shows "routes_at K s' t' = routes_at K s t' +
      (if t' = t then {#\<lparr>ct_gateway = g, ct_oif = i, ct_onlink = True\<rparr>#} else {#})"
    and "rules_at K s' = rules_at K s" and "rule_msgs K s' = rule_msgs K s"
    and "routes_parse K s \<Longrightarrow> routes_parse K s'"
proof -
  define req where "req = \<lparr>rq_table_id = t, rq_protocol = DUMBARP_PROTO, rq_output_interface = Some i,
      rq_gateway = Some g, rq_onlink = True\<rparr>"
  have "nl_route_add K req s = (Inr (), s')"
    using assms(2) by (auto simp: add_route_def req_def split: prod.splits sum.splits)
  note law = netlink_lawsD(4) [OF assms(1) this]
  note parse = parse_route_added [of t i g, folded req_def]
  have "\<exists>r. r = \<lparr>ct_gateway = g, ct_oif = i, ct_onlink = True\<rparr> \<and>
      (\<forall>t'. routes_at K s' t' = routes_at K s t' + (if t' = t then {#r#} else {#}))"
    using law by (intro appears_routes [of "route_shows req"]) (auto simp: parse into_value_def)
  then show "routes_at K s' t' = routes_at K s t' +
      (if t' = t then {#\<lparr>ct_gateway = g, ct_oif = i, ct_onlink = True\<rparr>#} else {#})"
    by simp
  from law obtain pre m post where m: "route_msgs K s = pre @ post" "route_msgs K s' = pre @ m # post"
    "route_shows req m"
    unfolding appears_def by blast
  then show "routes_parse K s \<Longrightarrow> routes_parse K s'"
    by (auto simp: routes_parse_def parse)
  from law show "rule_msgs K s' = rule_msgs K s" by simp
  then show "rules_at K s' = rules_at K s" by (rule same_rules)
qed

lemma del_route_done:
  assumes "netlink_laws K" "del_route K t s = (Inr u, s')" "routes_parse K s"
  shows "\<exists>r. \<forall>t'. routes_at K s t' = routes_at K s' t' + (if t' = t then {#r#} else {#})"
    and "rules_at K s' = rules_at K s" and "rule_msgs K s' = rule_msgs K s"
    and "routes_parse K s'"
proof -
  define req where "req = \<lparr>rq_table_id = t, rq_protocol = DUMBARP_PROTO, rq_output_interface = None,
      rq_gateway = None, rq_onlink = False\<rparr>"
  have "nl_route_del K req s = (Inr (), s')"
    using assms(2) by (auto simp: del_route_def req_def split: prod.splits sum.splits)
  note law = netlink_lawsD(5) [OF assms(1) this]
  have sel: "\<exists>r. parse_dumbarp_route m = Some r \<and> pr_table r = t \<and> True"
    if m: "route_selected req m" "m \<in> set (route_msgs K s)" for m
  proof -
    from m assms(3) have "parse_dumbarp_route m \<noteq> None"
      by (auto simp: routes_parse_def route_selected_def req_def)
    then show ?thesis using parse_route_selected [OF m(1) [unfolded req_def]] by auto
  qed
  have "\<exists>r. True \<and> (\<forall>t'. routes_at K s t' = routes_at K s' t' + (if t' = t then {#r#} else {#}))"
    using law sel by (intro appears_routes [of "route_selected req"]) auto
  then show "\<exists>r. \<forall>t'. routes_at K s t' = routes_at K s' t' + (if t' = t then {#r#} else {#})"
    by simp
  from law assms(3) show "routes_parse K s'"
    by (auto simp: routes_parse_def appears_def)
  from law show "rule_msgs K s' = rule_msgs K s" by simp
  then show "rules_at K s' = rules_at K s" by (rule same_rules)
qed

section \<open>Lemmas on the reconciliation of a table\<close>

lemma del_rules_effect:
  assumes "netlink_laws K" "del_rules K t rs s = (failed, log, s')"
  shows "rules_at K s' t \<subseteq># rules_at K s t"
    and "\<not> failed \<Longrightarrow> size (rules_at K s t) = size (rules_at K s' t) + length rs"
    and "t' \<noteq> t \<Longrightarrow> rules_at K s' t' = rules_at K s t'"
    and "route_msgs K s' = route_msgs K s"
    and "foreign_rules K s' = foreign_rules K s"
    and "failed \<longleftrightarrow> log \<noteq> []" and "w \<in> set log \<Longrightarrow> failed_table w = Some t"
proof -
  have "rules_at K s' t \<subseteq># rules_at K s t \<and>
    (\<not> failed \<longrightarrow> size (rules_at K s t) = size (rules_at K s' t) + length rs) \<and>
    (t' \<noteq> t \<longrightarrow> rules_at K s' t' = rules_at K s t') \<and>
    route_msgs K s' = route_msgs K s \<and> foreign_rules K s' = foreign_rules K s \<and>
    (failed \<longleftrightarrow> log \<noteq> []) \<and> (w \<in> set log \<longrightarrow> failed_table w = Some t)"
    using assms(2)
  proof (induction rs arbitrary: s s' failed log)
    case (Cons r rs)
    obtain res s1 where d: "del_rule K (cr_src r) t (cr_fwmark r) s = (res, s1)"
      by (cases "del_rule K (cr_src r) t (cr_fwmark r) s")
    obtain f l s2 where ds: "del_rules K t rs s1 = (f, l, s2)"
      by (cases "del_rules K t rs s1")
    note IH = Cons.IH [OF ds]
    show ?case
    proof (cases res)
      case (Inl e)
      with d have "s1 = s" using requests_failed(2) [OF assms(1)] by simp
      with IH Cons.prems Inl d ds show ?thesis by (auto simp: Let_def)
    next
      case (Inr u)
      with d obtain x where "\<forall>t'. rules_at K s t' = rules_at K s1 t' + (if t' = t then {#x#} else {#})"
        "route_msgs K s1 = route_msgs K s" "foreign_rules K s1 = foreign_rules K s"
        using del_rule_done [OF assms(1), of "cr_src r" t "cr_fwmark r" s u s1] by auto
      with IH Cons.prems Inr d ds show ?thesis
        by (auto simp: Let_def intro: subset_mset.order_trans)
    qed
  qed simp
  then show "rules_at K s' t \<subseteq># rules_at K s t"
    "\<not> failed \<Longrightarrow> size (rules_at K s t) = size (rules_at K s' t) + length rs"
    "t' \<noteq> t \<Longrightarrow> rules_at K s' t' = rules_at K s t'"
    "route_msgs K s' = route_msgs K s" "foreign_rules K s' = foreign_rules K s"
    "failed \<longleftrightarrow> log \<noteq> []" "w \<in> set log \<Longrightarrow> failed_table w = Some t"
    by simp_all
qed

text \<open>What the code has listed for a table agrees with the kernel.\<close>

definition listed ::
  "'s netlink \<Rightarrow> 's \<Rightarrow> u32 \<Rightarrow> CurrentRule list \<Rightarrow> CurrentRoute option \<Rightarrow> bool" where
  "listed K s t rules route \<longleftrightarrow>
     rules_at K s t = mset rules \<and> routes_at K s t = (case route of None \<Rightarrow> {#} | Some r \<Rightarrow> {#r#})"

lemma routes_wf_cong:
  "route_msgs K s' = route_msgs K s \<Longrightarrow> routes_wf K s' = routes_wf K s"
  using same_routes [of K s' s] by (simp add: routes_wf_def)

lemma clear_table_effect:
  assumes "netlink_laws K" "routes_wf K s" "listed K s t rules route"
    and "clear_table K t rules route s = (failed, log, s')"
  shows "rules_at K s' t \<subseteq># rules_at K s t \<and>
    (\<not> failed \<longrightarrow> rules_at K s' t = {#} \<and> routes_at K s' t = {#}) \<and>
    (t' \<noteq> t \<longrightarrow> rules_at K s' t' = rules_at K s t' \<and> routes_at K s' t' = routes_at K s t') \<and>
    routes_wf K s' \<and> foreign_rules K s' = foreign_rules K s \<and>
    (failed \<longleftrightarrow> log \<noteq> []) \<and> (w \<in> set log \<longrightarrow> failed_table w = Some t)"
proof -
  obtain f1 l1 s1 where d: "del_rules K t rules s = (f1, l1, s1)"
    by (cases "del_rules K t rules s")
  note e = del_rules_effect [OF assms(1) d]
  have empty: "rules_at K s1 t = {#}" if "\<not> f1"
    using e(2) [OF that] assms(3) by (simp add: listed_def flip: size_mset)
  have routes: "routes_at K s1 = routes_at K s" using e(4) by (rule same_routes)
  have wf: "routes_wf K s1" using assms(2) by (simp add: routes_wf_cong [OF e(4)])
  show ?thesis
  proof (cases route)
    case None
    with d assms(3,4) e empty routes wf show ?thesis
      by (auto simp: clear_table_def listed_def)
  next
    case (Some r)
    obtain res s2 where dr: "del_route K t s1 = (res, s2)" by (cases "del_route K t s1")
    show ?thesis
    proof (cases res)
      case (Inl x)
      with dr have "s2 = s1" using requests_failed(4) [OF assms(1)] by simp
      with d dr Inl Some assms(4) e empty routes wf show ?thesis
        by (auto simp: clear_table_def)
    next
      case (Inr u)
      with dr wf have r: "\<exists>r. \<forall>t'. routes_at K s1 t' = routes_at K s2 t' + (if t' = t then {#r#} else {#})"
        "rules_at K s2 = rules_at K s1" "rule_msgs K s2 = rule_msgs K s1" "routes_parse K s2"
        using del_route_done [OF assms(1), of t s1 u s2] by (auto simp: routes_wf_alt)
      then obtain x where x: "\<And>t'. routes_at K s1 t' = routes_at K s2 t' + (if t' = t then {#x#} else {#})"
        by blast
      have "size (routes_at K s2 t'') \<le> size (routes_at K s1 t'')" for t''
        using x [of t''] by simp
      with wf r(4) have "routes_wf K s2"
        unfolding routes_wf_alt using order_trans by blast
      moreover have "routes_at K s2 t = {#}"
        using x [of t] assms(3) Some routes by (simp add: listed_def)
      moreover have "foreign_rules K s2 = foreign_rules K s1"
        using r(3) by (simp add: foreign_rules_def)
      moreover have eq: "failed = f1" "log = l1" "s' = s2"
        using assms(4) d dr Inr Some by (simp_all add: clear_table_def)
      moreover have "t' \<noteq> t \<Longrightarrow> routes_at K s2 t' = routes_at K s t'"
        using x [of t'] routes by simp
      ultimately show ?thesis
        using e empty by (simp add: r(2))
    qed
  qed
qed

lemma table_matches_in_sync:
  assumes "listed K s t rules route" "table_matches want rules route"
  shows "in_sync K s t want"
  using assms
  by (auto simp: table_matches_def listed_def in_sync_def rule_for_def route_for_def CurrentRule_matches_def
      split: option.splits list.splits)

lemma in_sync_table_matches:
  assumes "listed K s t rules route" "in_sync K s t (Some w)"
  shows "table_matches (Some w) rules route"
proof -
  from assms have "rules = [rule_for w]" "route = Some (route_for w)"
    by (auto simp: listed_def in_sync_def split: option.splits)
  then show ?thesis by (simp add: table_matches_def rule_for_def route_for_def CurrentRule_matches_def)
qed

lemma install_effect:
  assumes "netlink_laws K" "routes_wf K s" "rules_at K s t = {#}" "routes_at K s t = {#}"
    and "rs_fwmark v \<noteq> Some 0" "install K t v s = (log, s')"
  shows "routes_wf K s' \<and> foreign_rules K s' = foreign_rules K s \<and>
    (t' \<noteq> t \<longrightarrow> rules_at K s' t' = rules_at K s t' \<and> routes_at K s' t' = routes_at K s t') \<and>
    ((\<forall>w \<in> set log. failed_table w = None) \<longrightarrow> in_sync K s' t (Some v)) \<and>
    (rules_at K s' t = {#} \<or> rules_at K s' t = {#rule_for v#}) \<and>
    (w \<in> set log \<longrightarrow> failed_table w = Some t)"
proof -
  obtain res s2 where ar: "add_rule K (rs_src v) t (rs_fwmark v) s = (res, s2)"
    by (cases "add_rule K (rs_src v) t (rs_fwmark v) s")
  show ?thesis
  proof (cases res)
    case (Inl x)
    with ar have "s2 = s" using requests_failed(1) [OF assms(1)] by simp
    with ar Inl assms show ?thesis by (auto simp: install_def)
  next
    case (Inr u)
    note a = add_rule_done [OF assms(1) ar [unfolded Inr] assms(5)]
    have r2: "rules_at K s2 t = {#rule_for v#}" "routes_wf K s2"
      using a(1) [of t] assms(2,3) routes_wf_cong [OF a(3)] by (simp_all add: rule_for_def)
    obtain res' s3 where at: "add_route K t (rs_gateway v) (rs_ifindex v) s2 = (res', s3)"
      by (cases "add_route K t (rs_gateway v) (rs_ifindex v) s2")
    show ?thesis
    proof (cases res')
      case (Inl x)
      with at have "s3 = s2" using requests_failed(3) [OF assms(1)] by simp
      then have "s' = s2" "log = [AddRouteFailed t (rs_gateway v)]"
        using at ar Inr Inl assms(6) by (auto simp: install_def)
      with a r2 show ?thesis by simp
    next
      case (Inr u')
      note b = add_route_done [OF assms(1) at [unfolded Inr]]
      have eq: "s' = s3" "log = []"
        using at ar \<open>res = Inr u\<close> Inr assms(6) by (auto simp: install_def)
      have "size (routes_at K s3 x) \<le> 1" for x
        using b(1) [of x] r2(2) a(2) assms(4) by (simp add: routes_wf_alt)
      then have "routes_wf K s3"
        using b(4) r2(2) by (simp add: routes_wf_alt)
      moreover have "foreign_rules K s3 = foreign_rules K s2"
        using b(3) by (simp add: foreign_rules_def)
      moreover have "in_sync K s3 t (Some v)"
        using r2 b(1) [of t] b(2) a(2) assms(4) by (simp add: in_sync_def route_for_def)
      ultimately show ?thesis
        using a b(1) [of t'] b(2) r2 by (simp add: eq)
    qed
  qed
qed

lemma reconcile_table_effect:
  assumes "netlink_laws K" "routes_wf K s" "listed K s t rules route"
    and "\<And>w. want = Some w \<Longrightarrow> rs_fwmark w \<noteq> Some 0"
    and "reconcile_table K t want rules route s = (log, s')"
  shows "routes_wf K s' \<and> foreign_rules K s' = foreign_rules K s \<and>
    (t' \<noteq> t \<longrightarrow> rules_at K s' t' = rules_at K s t' \<and> routes_at K s' t' = routes_at K s t') \<and>
    ((\<forall>w \<in> set log. failed_table w = None) \<longrightarrow> in_sync K s' t want) \<and>
    (rules_at K s' t \<subseteq># rules_at K s t \<or> (\<exists>w. want = Some w \<and> rules_at K s' t = {#rule_for w#})) \<and>
    (w \<in> set log \<longrightarrow> failed_table w \<in> {None, Some t})"
proof (cases "table_matches want rules route")
  case True
  with assms(2,3,5) show ?thesis
    by (auto simp: reconcile_table_def table_matches_in_sync)
next
  case False
  obtain f l s1 where c: "clear_table K t rules route s = (f, l, s1)"
    by (cases "clear_table K t rules route s")
  note e = clear_table_effect [OF assms(1-3) c]
  have l: "\<forall>w \<in> set l. failed_table w = Some t" and fl: "f \<longleftrightarrow> l \<noteq> []"
    using clear_table_effect [OF assms(1-3) c] by blast+
  show ?thesis
  proof (cases want)
    case None
    with False c assms(5) e [of t' w] l fl show ?thesis
      by (cases l) (auto simp: reconcile_table_def in_sync_def)
  next
    case (Some v)
    show ?thesis
    proof (cases f)
      case True
      with Some False c assms(5) e [of t' w] l show ?thesis
        by (auto simp: reconcile_table_def)
    next
      case fF: False
      obtain l' where inst: "install K t v s1 = (l', s')"
        and log: "log = (if 1 < length rules then [MultipleRules t (length rules)] else []) @ l @ l'"
        using assms(5) False fF Some c
        by (auto simp: reconcile_table_def Let_def split: prod.splits)
      note i = install_effect [OF assms(1) _ _ _ assms(4) [OF Some] inst]
      from e fF have "routes_wf K s1" "rules_at K s1 t = {#}" "routes_at K s1 t = {#}" by simp_all
      note i = i [OF this]
      have "l = []" using fF fl by simp
      then have "(\<forall>w \<in> set log. failed_table w = None) \<longleftrightarrow> (\<forall>w \<in> set l'. failed_table w = None)"
        and "w \<in> set log \<Longrightarrow> failed_table w = None \<or> w \<in> set l'"
        by (auto simp: log split: if_splits)
      note fw = this
      have e': "t' \<noteq> t \<Longrightarrow> rules_at K s1 t' = rules_at K s t' \<and> routes_at K s1 t' = routes_at K s t'"
        "foreign_rules K s1 = foreign_rules K s"
        using e [of t' w] by simp_all
      show ?thesis
        unfolding Some fw(1)
      proof (intro conjI impI)
        show "rules_at K s' t \<subseteq># rules_at K s t \<or> (\<exists>w. Some v = Some w \<and> rules_at K s' t = {#rule_for w#})"
          using i [of t' w] by auto
        show "failed_table w \<in> {None, Some t}" if "w \<in> set log"
          using fw(2) [OF that] i [of t' w] by auto
      qed (use i [of t' w] e' in simp_all)
    qed
  qed
qed

section \<open>Lemmas on the whole pass\<close>

lemma listed_cong:
  "rules_at K s' t = rules_at K s t \<Longrightarrow> routes_at K s' t = routes_at K s t \<Longrightarrow>
     listed K s' t rules route = listed K s t rules route"
  by (simp add: listed_def)

lemma in_sync_cong:
  "rules_at K s' t = rules_at K s t \<Longrightarrow> routes_at K s' t = routes_at K s t \<Longrightarrow>
     in_sync K s' t want = in_sync K s t want"
  by (simp add: in_sync_def)

definition old_or_wanted :: "'s netlink \<Rightarrow> 's \<Rightarrow> 's \<Rightarrow> u32 \<Rightarrow> ResolvedSpec option \<Rightarrow> bool" where
  "old_or_wanted K s s' t want \<longleftrightarrow>
     rules_at K s' t \<subseteq># rules_at K s t \<or> (\<exists>w. want = Some w \<and> rules_at K s' t = {#rule_for w#})"

lemma reconcile_tables_effect:
  assumes "netlink_laws K" "routes_wf K s" "distinct ts"
    and "\<And>t. t \<in> set ts \<Longrightarrow> listed K s t (rules t) (route t)"
    and "\<And>t w. want t = Some w \<Longrightarrow> rs_fwmark w \<noteq> Some 0"
    and "reconcile_tables K want rules route ts s = (log, s')"
  shows "foreign_rules K s' = foreign_rules K s \<and> old_or_wanted K s s' t (want t) \<and>
    (if t \<in> set ts then (\<forall>w \<in> set log. failed_table w \<noteq> Some t) \<longrightarrow> in_sync K s' t (want t)
     else rules_at K s' t = rules_at K s t \<and> routes_at K s' t = routes_at K s t)"
  using assms(2,3,4,6)
proof (induction ts arbitrary: s log)
  case Nil
  then show ?case by (simp add: old_or_wanted_def)
next
  case (Cons u ts)
  obtain l s1 where one: "reconcile_table K u (want u) (rules u) (route u) s = (l, s1)"
    by (cases "reconcile_table K u (want u) (rules u) (route u) s")
  obtain l' where rest: "reconcile_tables K want rules route ts s1 = (l', s')" and log: "log = l @ l'"
    using Cons.prems(4) one by (auto split: prod.splits)
  have "listed K s u (rules u) (route u)" by (rule Cons.prems(3)) simp
  note e = reconcile_table_effect [OF assms(1) Cons.prems(1) this assms(5) [of u] one, simplified]
  have frame: "rules_at K s1 x = rules_at K s x" "routes_at K s1 x = routes_at K s x" if "x \<noteq> u" for x
    using e [where t' = x] that by simp_all
  have "listed K s1 x (rules x) (route x)" if "x \<in> set ts" for x
  proof -
    from that Cons.prems(2) have "x \<noteq> u" by auto
    with Cons.prems(3) [of x] that frame [of x] show ?thesis by (simp add: listed_def)
  qed
  moreover have "routes_wf K s1" "distinct ts" using e Cons.prems(2) by simp_all
  ultimately have IH: "foreign_rules K s' = foreign_rules K s1 \<and> old_or_wanted K s1 s' t (want t) \<and>
    (if t \<in> set ts then (\<forall>w \<in> set l'. failed_table w \<noteq> Some t) \<longrightarrow> in_sync K s' t (want t)
     else rules_at K s' t = rules_at K s1 t \<and> routes_at K s' t = routes_at K s1 t)"
    using rest by (intro Cons.IH) auto
  have foreign: "foreign_rules K s1 = foreign_rules K s" using e by simp
  show ?case
  proof (cases "t = u")
    case False
    with IH foreign frame [of t] show ?thesis
      by (auto simp: old_or_wanted_def log)
  next
    case True
    with Cons.prems(2) have "t \<notin> set ts" by simp
    with IH have same: "rules_at K s' t = rules_at K s1 t" "routes_at K s' t = routes_at K s1 t"
      "foreign_rules K s' = foreign_rules K s1"
      by simp_all
    moreover have "in_sync K s1 t (want t)" if "\<forall>w \<in> set log. failed_table w \<noteq> Some t"
    proof -
      have "failed_table w = None" if w: "w \<in> set l" for w
        using e [where w = w] w \<open>\<forall>w \<in> set log. failed_table w \<noteq> Some t\<close> by (auto simp: True log)
      with e show ?thesis by (simp add: True)
    qed
    moreover have "old_or_wanted K s s1 t (want t)"
      using e by (simp add: True old_or_wanted_def)
    ultimately show ?thesis
      using foreign True by (auto simp: old_or_wanted_def in_sync_def)
  qed
qed

definition get_rules :: "(u32, CurrentRule list) hashmap \<Rightarrow> u32 \<Rightarrow> CurrentRule list" where
  "get_rules m t = (case hm_get m t of Some rs \<Rightarrow> rs | None \<Rightarrow> [])"

lemma foldl_push_rule:
  "mset (get_rules (foldl push_rule out ps) t) =
     mset (get_rules out t) + image_mset snd (filter_mset (\<lambda>p. fst p = t) (mset ps))"
  by (induction ps arbitrary: out) (auto simp: push_rule_def get_rules_def)

lemma foldl_push_rule_None:
  "hm_get (foldl push_rule out ps) t = None \<longleftrightarrow> hm_get out t = None \<and> t \<notin> fst ` set ps"
  by (induction ps arbitrary: out) (auto simp: push_rule_def)

lemma foldl_insert_route:
  "hm_get (foldl (\<lambda>out r. hm_insert (pr_table r) (into_value r) out) [] rs) t =
     (if filter (\<lambda>r. pr_table r = t) rs = [] then None
      else Some (into_value (last (filter (\<lambda>r. pr_table r = t) rs))))"
  by (induction rs rule: rev_induct) auto

lemma list_rules_get:
  assumes "list_rules K s = Inr m"
  shows "mset (get_rules m t) = rules_at K s t" "t \<in> set (hm_keys m) \<longleftrightarrow> rules_at K s t \<noteq> {#}"
proof -
  from assms have m: "m = foldl push_rule [] (List.map_filter parse_dumbarp_rule (rule_msgs K s))"
    by (auto simp: list_rules_def rule_msgs_def split: sum.splits)
  show "mset (get_rules m t) = rules_at K s t"
    by (simp add: m foldl_push_rule rules_at_def) (simp add: get_rules_def)
  have "t \<in> set (hm_keys m) \<longleftrightarrow> hm_get m t \<noteq> None"
    by (simp add: map_of_eq_None_iff)
  also have "\<dots> \<longleftrightarrow> t \<in> fst ` set (List.map_filter parse_dumbarp_rule (rule_msgs K s))"
    by (simp add: m foldl_push_rule_None)
  also have "\<dots> \<longleftrightarrow> rules_at K s t \<noteq> {#}"
    by (force simp: rules_at_def simp flip: set_mset_eq_empty_iff)
  finally show "t \<in> set (hm_keys m) \<longleftrightarrow> rules_at K s t \<noteq> {#}" .
qed

lemma list_routes_get:
  assumes "list_routes K s = Inr m" "size (routes_at K s t) \<le> 1"
  shows "routes_at K s t = (case hm_get m t of None \<Rightarrow> {#} | Some r \<Rightarrow> {#r#})"
    and "t \<in> set (hm_keys m) \<longleftrightarrow> routes_at K s t \<noteq> {#}"
proof -
  let ?f = "filter (\<lambda>r. pr_table r = t) (List.map_filter parse_dumbarp_route (route_msgs K s))"
  have at: "routes_at K s t = mset (map into_value ?f)"
    unfolding routes_at_def by (simp only: mset_map mset_filter)
  from assms(1) have get: "hm_get m t = (if ?f = [] then None else Some (into_value (last ?f)))"
    by (auto simp: list_routes_def route_msgs_def foldl_insert_route split: sum.splits)
  have "length ?f \<le> 1" using assms(2) unfolding at size_mset by simp
  then have "?f = [] \<or> (\<exists>x. ?f = [x])"
    by (cases ?f) auto
  then show r: "routes_at K s t = (case hm_get m t of None \<Rightarrow> {#} | Some r \<Rightarrow> {#r#})"
    unfolding at get by fastforce
  have "t \<in> set (hm_keys m) \<longleftrightarrow> hm_get m t \<noteq> None"
    by (simp add: map_of_eq_None_iff)
  with r show "t \<in> set (hm_keys m) \<longleftrightarrow> routes_at K s t \<noteq> {#}"
    by (auto split: option.splits)
qed

text \<open>
  What \<open>desired\<close> asks of a table, without the interface cache: the last spec of that table whose
  interface the kernel knows.
\<close>

definition wanted :: "'s netlink \<Rightarrow> 's \<Rightarrow> RouteSpec list \<Rightarrow> u32 \<Rightarrow> ResolvedSpec option" where
  "wanted K s desired t =
     fold (\<lambda>spec acc.
       case ifindex K s (sp_iface spec) of
         Inr idx \<Rightarrow>
           if table_id_for (sp_src spec) = t
           then Some \<lparr>rs_src = sp_src spec, rs_gateway = sp_gateway spec, rs_ifindex = idx,
                      rs_fwmark = sp_fwmark spec\<rparr>
           else acc
       | Inl _ \<Rightarrow> acc) desired None"

lemma wanted_snoc:
  "wanted K s (desired @ [spec]) t =
     (case ifindex K s (sp_iface spec) of
        Inr idx \<Rightarrow>
          if table_id_for (sp_src spec) = t
          then Some \<lparr>rs_src = sp_src spec, rs_gateway = sp_gateway spec, rs_ifindex = idx,
                     rs_fwmark = sp_fwmark spec\<rparr>
          else wanted K s desired t
      | Inl _ \<Rightarrow> wanted K s desired t)"
  by (simp add: wanted_def split: sum.split)

lemma resolve_all_wanted:
  "hm_get (resolved (resolve_all K s desired)) t = wanted K s desired t \<and>
   (\<forall>i idx. hm_get (ifindex_cache (resolve_all K s desired)) i = Some idx \<longrightarrow> ifindex K s i = Inr idx) \<and>
   (\<forall>w \<in> set (resolve_log (resolve_all K s desired)). \<exists>i. w = IfindexFailed i)"
proof (induction desired rule: rev_induct)
  case Nil
  then show ?case by (simp add: resolve_all_def wanted_def)
next
  case (snoc spec desired)
  let ?st = "resolve_all K s desired"
  have st: "resolve_all K s (desired @ [spec]) = resolve_spec K s spec ?st"
    by (simp add: resolve_all_def)
  show ?case
  proof (cases "hm_get (ifindex_cache ?st) (sp_iface spec)")
    case (Some idx)
    with snoc have "ifindex K s (sp_iface spec) = Inr idx" by simp
    with Some snoc show ?thesis by (auto simp: st resolve_spec_def wanted_snoc)
  next
    case None
    with snoc show ?thesis
      by (cases "ifindex K s (sp_iface spec)") (auto simp: st resolve_spec_def wanted_snoc)
  qed
qed

lemma wanted_fwmark:
  assumes "\<forall>spec \<in> set desired. sp_fwmark spec \<noteq> Some 0" "wanted K s desired t = Some w"
  shows "rs_fwmark w \<noteq> Some 0"
  using assms
  by (induction desired rule: rev_induct) (auto simp: wanted_def split: sum.splits if_splits)

text \<open>A pass that returns \<open>Ok\<close>, taken apart.\<close>

lemma reconcile_unfold:
  assumes "reconcile K iter desired s = (Inr (), log, s')" "iter_ok iter"
  obtains crules croutes ts log' where "list_rules K s = Inr crules" "list_routes K s = Inr croutes"
    "distinct ts" "set ts = set (hm_keys crules) \<union> set (hm_keys croutes) \<union> {t. wanted K s desired t \<noteq> None}"
    "reconcile_tables K (wanted K s desired) (get_rules crules) (hm_get croutes) ts s = (log', s')"
    "set log = set (resolve_log (resolve_all K s desired)) \<union> set log'"
proof -
  let ?st = "resolve_all K s desired"
  from assms(1) obtain crules croutes where l: "list_rules K s = Inr crules" "list_routes K s = Inr croutes"
    by (auto simp: reconcile_def Let_def split: sum.splits)
  let ?ts = "iter (remdups (hm_keys crules @ hm_keys croutes @ hm_keys (resolved ?st)))"
  have want: "hm_get (resolved ?st) = wanted K s desired"
    by (rule ext) (simp add: resolve_all_wanted)
  have ms: "mset ?ts = mset (remdups (hm_keys crules @ hm_keys croutes @ hm_keys (resolved ?st)))"
    using assms(2) by (simp add: iter_ok_def)
  then have "distinct ?ts" by (metis distinct_remdups mset_eq_imp_distinct_iff)
  moreover have "set ?ts = set (hm_keys crules) \<union> set (hm_keys croutes) \<union> {t. wanted K s desired t \<noteq> None}"
    using mset_eq_setD [OF ms] by (auto simp: map_of_eq_None_iff simp flip: want)
  moreover obtain log' where
    "reconcile_tables K (wanted K s desired) (get_rules crules) (hm_get croutes) ?ts s = (log', s')"
    "log = resolve_log ?st @ log'"
    using assms(1) l by (auto simp: reconcile_def Let_def want get_rules_def [abs_def] split: prod.splits)
  ultimately show thesis using l that by auto
qed

lemma reconcile_effect:
  assumes "netlink_laws K" "iter_ok iter" "routes_wf K s" "\<forall>spec \<in> set desired. sp_fwmark spec \<noteq> Some 0"
    and "reconcile K iter desired s = (Inr (), log, s')"
  shows "foreign_rules K s' = foreign_rules K s \<and> old_or_wanted K s s' t (wanted K s desired t) \<and>
    ((\<forall>w \<in> set log. failed_table w \<noteq> Some t) \<longrightarrow> in_sync K s' t (wanted K s desired t))"
proof -
  obtain crules croutes ts log' where l: "list_rules K s = Inr crules" "list_routes K s = Inr croutes"
    and ts: "distinct ts" "set ts = set (hm_keys crules) \<union> set (hm_keys croutes) \<union> {t. wanted K s desired t \<noteq> None}"
    and r: "reconcile_tables K (wanted K s desired) (get_rules crules) (hm_get croutes) ts s = (log', s')"
    and log: "set log = set (resolve_log (resolve_all K s desired)) \<union> set log'"
    using reconcile_unfold [OF assms(5,2)] by metis
  note rts = list_routes_get [OF l(2)]
  have size: "size (routes_at K s t) \<le> 1" for t using assms(3) by (simp add: routes_wf_def)
  have li: "listed K s t (get_rules crules t) (hm_get croutes t)" for t
    using list_rules_get(1) [OF l(1)] rts(1) [OF size] by (simp add: listed_def)
  have e: "foreign_rules K s' = foreign_rules K s \<and> old_or_wanted K s s' t (wanted K s desired t) \<and>
      (if t \<in> set ts then (\<forall>w \<in> set log'. failed_table w \<noteq> Some t) \<longrightarrow> in_sync K s' t (wanted K s desired t)
       else rules_at K s' t = rules_at K s t \<and> routes_at K s' t = routes_at K s t)"
    by (rule reconcile_tables_effect [OF assms(1,3) ts(1) _ _ r]) (rule li, erule wanted_fwmark [OF assms(4)])
  have "in_sync K s t (wanted K s desired t)" if "t \<notin> set ts"
    using that list_rules_get(2) [OF l(1)] rts(2) [OF size] by (simp add: ts(2) in_sync_def)
  with e show ?thesis by (cases "t \<in> set ts") (simp_all add: log in_sync_def)
qed

section \<open>A concrete kernel\<close>

text \<open>
  A kernel whose state is the two lists of messages, with every interface known as index 7: adds
  append, deletes remove the first selected message and fail when there is none. It satisfies the
  laws.
\<close>

type_synonym list_kernel = "RuleMessage list \<times> RouteMessage list"

fun remove_first :: "('a \<Rightarrow> bool) \<Rightarrow> 'a list \<Rightarrow> 'a list option" where
  "remove_first P [] = None"
| "remove_first P (x # xs) = (if P x then Some xs else map_option ((#) x) (remove_first P xs))"

definition added_rule :: "RuleAddReq \<Rightarrow> RuleMessage" where
  "added_rule req =
     \<lparr>rule_family = Inet, rule_src_len = snd (ra_source_prefix req), rule_table = 0,
      rule_action = ra_action req,
      rule_attributes = [Source (V4 (fst (ra_source_prefix req))), RuleTable (ra_table_id req),
        Priority (ra_priority req)] @ ra_attributes req @
        (case ra_fw_mark req of Some k \<Rightarrow> [FwMark k] | None \<Rightarrow> [])\<rparr>"

definition added_route :: "RouteReq \<Rightarrow> RouteMessage" where
  "added_route req =
     \<lparr>route_family = Inet, route_protocol = rq_protocol req, route_table = 0, route_onlink = rq_onlink req,
      route_attributes = [RouteTable (rq_table_id req)] @
        (case rq_output_interface req of Some i \<Rightarrow> [Oif i] | None \<Rightarrow> []) @
        (case rq_gateway req of Some g \<Rightarrow> [Gateway (RouteInet g)] | None \<Rightarrow> [])\<rparr>"

definition list_netlink :: "list_kernel netlink" where
  "list_netlink =
     \<lparr>nl_rule_default = \<lparr>rule_family = OtherFamily 0, rule_src_len = 0, rule_table = 0,
        rule_action = OtherAction 0, rule_attributes = []\<rparr>,
      nl_link_get = (\<lambda>s iface. Inr (Some 7)),
      nl_rule_dump = (\<lambda>s. if list_all unique_attrs (fst s) then Inr (fst s) else Inl (NlError [])),
      nl_route_dump = (\<lambda>s. Inr (snd s)),
      nl_rule_add = (\<lambda>req s.
        if list_all unique_attrs (fst s @ [added_rule req]) \<and> rule_shows req (added_rule req)
        then (Inr (), (fst s @ [added_rule req], snd s)) else (Inl (NlError []), s)),
      nl_rule_del = (\<lambda>req s.
        case (if list_all unique_attrs (fst s) then remove_first (rule_selected req) (fst s) else None) of
          Some ms \<Rightarrow> (Inr (), (ms, snd s)) | None \<Rightarrow> (Inl (NlError []), s)),
      nl_route_add = (\<lambda>req s. (Inr (), (fst s, snd s @ [added_route req]))),
      nl_route_del = (\<lambda>req s.
        case remove_first (route_selected req) (snd s) of
          Some ms \<Rightarrow> (Inr (), (fst s, ms)) | None \<Rightarrow> (Inl (NlError []), s))\<rparr>"

lemma remove_first_appears: "remove_first P xs = Some ys \<Longrightarrow> appears P ys xs"
proof (induction xs arbitrary: ys)
  case (Cons x xs)
  show ?case
  proof (cases "P x")
    case True
    with Cons.prems show ?thesis
      by (auto simp: appears_def intro!: exI [of _ "[]"])
  next
    case False
    with Cons.prems obtain zs where "remove_first P xs = Some zs" "ys = x # zs" by auto
    with Cons.IH show ?thesis
      unfolding appears_def by (metis append_Cons)
  qed
qed simp

lemma remove_first_list_all: "remove_first P xs = Some ys \<Longrightarrow> list_all Q xs \<Longrightarrow> list_all Q ys"
  by (induction xs arbitrary: ys) (auto split: if_splits)

lemma route_shows_added: "route_shows req (added_route req)"
  by (simp add: route_shows_def added_route_def split: option.split)

lemma appears_last: "P m \<Longrightarrow> appears P xs (xs @ [m])"
  unfolding appears_def by (metis append_Nil2)

lemma list_netlink_msgs:
  "rule_msgs list_netlink s = (if list_all unique_attrs (fst s) then fst s else [])"
  "route_msgs list_netlink s = snd s"
  by (simp_all add: rule_msgs_def route_msgs_def list_netlink_def)

lemma list_netlink_laws: "netlink_laws list_netlink"
  unfolding netlink_laws_def
proof (intro conjI allI impI ballI)
  fix s m assume "m \<in> set (rule_msgs list_netlink s)"
  then show "unique_attrs m" by (auto simp: list_netlink_msgs list_all_iff split: if_splits)
next
  fix req s s' assume "nl_rule_add list_netlink req s = (Inr (), s')"
  then have "s' = (fst s @ [added_rule req], snd s)" "list_all unique_attrs (fst s @ [added_rule req])"
    "rule_shows req (added_rule req)"
    by (auto simp: list_netlink_def split: if_splits)
  then show "appears (rule_shows req) (rule_msgs list_netlink s) (rule_msgs list_netlink s')"
    "route_msgs list_netlink s' = route_msgs list_netlink s"
    by (simp_all add: list_netlink_msgs appears_last)
next
  fix req s s' assume "nl_rule_del list_netlink req s = (Inr (), s')"
  then obtain ms where "s' = (ms, snd s)" "list_all unique_attrs (fst s)"
    "remove_first (rule_selected req) (fst s) = Some ms"
    by (auto simp: list_netlink_def split: if_splits option.splits)
  then show "appears (rule_selected req) (rule_msgs list_netlink s') (rule_msgs list_netlink s)"
    "route_msgs list_netlink s' = route_msgs list_netlink s"
    by (simp_all add: list_netlink_msgs remove_first_appears remove_first_list_all)
next
  fix req s s' assume "nl_route_add list_netlink req s = (Inr (), s')"
  then have "s' = (fst s, snd s @ [added_route req])"
    by (simp add: list_netlink_def)
  then show "appears (route_shows req) (route_msgs list_netlink s) (route_msgs list_netlink s')"
    "rule_msgs list_netlink s' = rule_msgs list_netlink s"
    by (simp_all add: list_netlink_msgs appears_last route_shows_added)
next
  fix req s s' assume "nl_route_del list_netlink req s = (Inr (), s')"
  then obtain ms where "s' = (fst s, ms)" "remove_first (route_selected req) (snd s) = Some ms"
    by (auto simp: list_netlink_def split: option.splits)
  then show "appears (route_selected req) (route_msgs list_netlink s') (route_msgs list_netlink s)"
    "rule_msgs list_netlink s' = rule_msgs list_netlink s"
    by (simp_all add: list_netlink_msgs remove_first_appears)
qed (auto simp: list_netlink_def split: if_splits option.splits)

text \<open>
  A pass on the empty concrete kernel for two sources, one marked, and the state it leaves.
\<close>

definition sample_desired :: "RouteSpec list" where
  "sample_desired =
     [\<lparr>sp_src = (110, 13, 196, 173), sp_gateway = (10, 0, 0, 5), sp_iface = ''br0'', sp_fwmark = Some 2\<rparr>,
      \<lparr>sp_src = (0, 0, 0, 253), sp_gateway = (10, 0, 0, 6), sp_iface = ''br1'', sp_fwmark = None\<rparr>]"

definition sample_pass :: "(route_error + unit) \<times> warning list \<times> list_kernel" where
  "sample_pass = reconcile list_netlink (\<lambda>ts. ts) sample_desired ([], [])"

lemma sample_pass_ok: "fst sample_pass = Inr () \<and> fst (snd sample_pass) = []"
  by code_simp

lemma sample_hyps:
  "netlink_laws list_netlink" "iter_ok (\<lambda>ts :: u32 list. ts)" "routes_wf list_netlink ([], [])"
  "\<forall>spec \<in> set sample_desired. sp_fwmark spec \<noteq> Some 0"
  "reconcile list_netlink (\<lambda>ts. ts) sample_desired ([], []) = (Inr (), [], snd (snd sample_pass))"
proof -
  show "netlink_laws list_netlink" by (rule list_netlink_laws)
  show "iter_ok (\<lambda>ts :: u32 list. ts)" by (simp add: iter_ok_def)
  show "routes_wf list_netlink ([], [])"
    by (simp add: routes_wf_def routes_at_def list_netlink_msgs)
  show "\<forall>spec \<in> set sample_desired. sp_fwmark spec \<noteq> Some 0"
    by (simp add: sample_desired_def)
  show "reconcile list_netlink (\<lambda>ts. ts) sample_desired ([], []) = (Inr (), [], snd (snd sample_pass))"
    using sample_pass_ok unfolding sample_pass_def by (metis prod.collapse)
qed

section \<open>Properties\<close>

text \<open>
  C15. A pass converges. Under the netlink laws, for every table for which the pass reports no failed
  request, the kernel afterwards has exactly what the desired specs ask of that table: the one
  rule of the last spec of that table whose interface resolves, with its mark and the exact mask, and
  the one on-link route through its gateway; and no dumbarp rule and no dumbarp route in a table no
  spec asks for. A failure in one table does not disturb another.
\<close>

theorem reconcile_converges:
  assumes "netlink_laws K" "iter_ok iter" "routes_wf K s"
    and "\<forall>spec \<in> set desired. sp_fwmark spec \<noteq> Some 0"
    and "reconcile K iter desired s = (Inr (), log, s')"
    and "\<forall>w \<in> set log. failed_table w \<noteq> Some t"
  shows "in_sync K s' t (wanted K s desired t)"
  using reconcile_effect [OF assms(1-5), of t] assms(6) by simp

theorem reconcile_converges_witness:
  "in_sync list_netlink (snd (snd sample_pass)) (table_id_for (110, 13, 196, 173))
     (wanted list_netlink ([], []) sample_desired (table_id_for (110, 13, 196, 173)))"
  using reconcile_converges [OF sample_hyps] by simp

text \<open>
  C16. A pass never mixes old and new state. Whatever requests fail, afterwards the dumbarp rules of
  every table are either some of those it had before (nothing was added while a stale rule or route
  remained), or exactly the one wanted rule.
\<close>

theorem reconcile_old_or_wanted:
  assumes "netlink_laws K" "iter_ok iter" "routes_wf K s"
    and "\<forall>spec \<in> set desired. sp_fwmark spec \<noteq> Some 0"
    and "reconcile K iter desired s = (Inr (), log, s')"
  shows "rules_at K s' t \<subseteq># rules_at K s t \<or>
    (\<exists>w. wanted K s desired t = Some w \<and> rules_at K s' t = {#rule_for w#})"
  using reconcile_effect [OF assms, of t] by (simp add: old_or_wanted_def)

theorem reconcile_old_or_wanted_witness:
  "let t = table_id_for (110, 13, 196, 173)
   in rules_at list_netlink (snd (snd sample_pass)) t \<subseteq># {#} \<or>
      rules_at list_netlink (snd (snd sample_pass)) t =
        {#rule_for \<lparr>rs_src = (110, 13, 196, 173), rs_gateway = (10, 0, 0, 5), rs_ifindex = 7,
           rs_fwmark = Some 2\<rparr>#}"
proof -
  let ?t = "table_id_for (110, 13, 196, 173)"
  have "wanted list_netlink ([], []) sample_desired ?t = Some \<lparr>rs_src = (110, 13, 196, 173),
      rs_gateway = (10, 0, 0, 5), rs_ifindex = 7, rs_fwmark = Some 2\<rparr>"
    by code_simp
  with reconcile_old_or_wanted [OF sample_hyps, of ?t] show ?thesis
    by (simp add: Let_def rules_at_def list_netlink_msgs)
qed

text \<open>
  A pass leaves the rest of the policy rules alone: every rule that is not a dumbarp rule (another
  priority, another family, no IPv4 source, or a prefix that is not a single address) is still there
  afterwards, in the same order.
\<close>

theorem reconcile_keeps_foreign_rules:
  assumes "netlink_laws K" "iter_ok iter" "routes_wf K s"
    and "\<forall>spec \<in> set desired. sp_fwmark spec \<noteq> Some 0"
    and "reconcile K iter desired s = (Inr (), log, s')"
  shows "filter (\<lambda>m. parse_dumbarp_rule m = None) (rule_msgs K s') =
    filter (\<lambda>m. parse_dumbarp_rule m = None) (rule_msgs K s)"
  using reconcile_effect [OF assms] by (simp add: foreign_rules_def)

theorem reconcile_keeps_foreign_rules_witness:
  "filter (\<lambda>m. parse_dumbarp_rule m = None) (rule_msgs list_netlink (snd (snd sample_pass))) =
    filter (\<lambda>m. parse_dumbarp_rule m = None) (rule_msgs list_netlink ([], []))"
  by (rule reconcile_keeps_foreign_rules [OF sample_hyps])

lemma reconcile_tables_noop:
  "(\<And>t. t \<in> set ts \<Longrightarrow> table_matches (want t) (rules t) (route t)) \<Longrightarrow>
     reconcile_tables K want rules route ts s = ([], s)"
  by (induction ts) (auto simp: reconcile_table_def)

text \<open>
  C17. A pass over a kernel that already agrees with the desired specs makes no request at all: it
  returns \<open>Ok\<close>, the kernel state is the same, and the only warnings are about interfaces that do not
  resolve.
\<close>

theorem reconcile_idempotent:
  assumes "iter_ok iter" "list_rules K s = Inr crules" "list_routes K s = Inr croutes"
    and "\<forall>t. in_sync K s t (wanted K s desired t)"
  shows "\<exists>log. reconcile K iter desired s = (Inr (), log, s) \<and> (\<forall>w \<in> set log. \<exists>i. w = IfindexFailed i)"
proof -
  obtain res log s' where r: "reconcile K iter desired s = (res, log, s')"
    by (cases "reconcile K iter desired s")
  then have "res = Inr ()"
    using assms(2,3) by (auto simp: reconcile_def Let_def split: prod.splits)
  with r have r': "reconcile K iter desired s = (Inr (), log, s')" by simp
  obtain crules' croutes' ts log' where l: "list_rules K s = Inr crules'" "list_routes K s = Inr croutes'"
    and ts: "set ts = set (hm_keys crules') \<union> set (hm_keys croutes') \<union> {t. wanted K s desired t \<noteq> None}"
    and rt: "reconcile_tables K (wanted K s desired) (get_rules crules') (hm_get croutes') ts s = (log', s')"
    and log: "set log = set (resolve_log (resolve_all K s desired)) \<union> set log'"
    using reconcile_unfold [OF r' assms(1)] by metis
  with assms(2,3) have eq: "crules' = crules" "croutes' = croutes" by simp_all
  have size: "size (routes_at K s t) \<le> 1" for t
    using assms(4) by (simp add: in_sync_def split: option.splits)
  have "table_matches (wanted K s desired t) (get_rules crules t) (hm_get croutes t)" if "t \<in> set ts" for t
  proof -
    have "in_sync K s t (wanted K s desired t)" using assms(4) by blast
    moreover have "rules_at K s t \<noteq> {#} \<or> routes_at K s t \<noteq> {#} \<or> wanted K s desired t \<noteq> None"
      using that list_rules_get(2) [OF assms(2), of t] list_routes_get(2) [OF assms(3) size, of t]
      by (simp add: ts eq)
    ultimately have "wanted K s desired t \<noteq> None" by (cases "wanted K s desired t") (auto simp: in_sync_def)
    moreover have "listed K s t (get_rules crules t) (hm_get croutes t)"
      using list_rules_get(1) [OF assms(2)] list_routes_get(1) [OF assms(3) size] by (simp add: listed_def)
    ultimately show ?thesis
      using assms(4) in_sync_table_matches by (metis not_None_eq)
  qed
  then have "log' = []" "s' = s" using rt by (simp_all add: eq reconcile_tables_noop)
  then show ?thesis using r' log resolve_all_wanted [of K s desired] by simp
qed

text \<open>The witness is the kernel the sample pass leaves, which holds two rules and two routes.\<close>

lemma sample_pass_in_sync:
  "in_sync list_netlink (snd (snd sample_pass)) t (wanted list_netlink (snd (snd sample_pass)) sample_desired t)"
proof -
  have "wanted list_netlink (snd (snd sample_pass)) sample_desired t = wanted list_netlink ([], []) sample_desired t"
    by (simp add: wanted_def ifindex_def) (simp add: list_netlink_def)
  then show ?thesis using reconcile_effect [OF sample_hyps, of t] by simp
qed

theorem reconcile_idempotent_witness:
  "length (fst (snd (snd sample_pass))) = 2 \<and>
   length (snd (snd (snd sample_pass))) = 2 \<and>
   (\<exists>log. reconcile list_netlink (\<lambda>ts. ts) sample_desired (snd (snd sample_pass)) =
       (Inr (), log, snd (snd sample_pass)) \<and> (\<forall>w \<in> set log. \<exists>i. w = IfindexFailed i))"
proof (intro conjI)
  let ?s = "snd (snd sample_pass)"
  have "case list_rules list_netlink ?s of Inl _ \<Rightarrow> False | Inr _ \<Rightarrow> True" by code_simp
  then obtain crules where r: "list_rules list_netlink ?s = Inr crules" by (auto split: sum.splits)
  have "case list_routes list_netlink ?s of Inl _ \<Rightarrow> False | Inr _ \<Rightarrow> True" by code_simp
  then obtain croutes where t: "list_routes list_netlink ?s = Inr croutes" by (auto split: sum.splits)
  show "\<exists>log. reconcile list_netlink (\<lambda>ts. ts) sample_desired ?s = (Inr (), log, ?s) \<and>
      (\<forall>w \<in> set log. \<exists>i. w = IfindexFailed i)"
    by (rule reconcile_idempotent [OF sample_hyps(2) r t]) (simp add: sample_pass_in_sync)
  show "length (fst ?s) = 2" by code_simp
  show "length (snd ?s) = 2" by code_simp
qed

lemma table_shift_reserved:
  fixes a :: u32
  shows "(if a = 0 \<or> a = 253 \<or> a = 254 \<or> a = 255 then a + 0x10000 else a) \<notin> {0, 253, 254, 255}"
  by auto

lemma table_shift:
  fixes a b :: u32
  shows "(if a = 0 \<or> a = 253 \<or> a = 254 \<or> a = 255 then a + 0x10000 else a) =
      (if b = 0 \<or> b = 253 \<or> b = 254 \<or> b = 255 then b + 0x10000 else b) \<longleftrightarrow>
    a = b \<or> a = 0 \<and> b = 0x10000 \<or> a = 0x10000 \<and> b = 0 \<or> a = 253 \<and> b = 0x100FD \<or> a = 0x100FD \<and> b = 253 \<or>
    a = 254 \<and> b = 0x100FE \<or> a = 0x100FE \<and> b = 254 \<or> a = 255 \<and> b = 0x100FF \<or> a = 0x100FF \<and> b = 255"
  by auto

text \<open>
  C18. Table numbers. No source address is given one of the four tables the kernel reserves, and two
  different source addresses share a table only in four known pairs: \<open>0.0.0.k\<close> with \<open>0.1.0.k\<close> for
  \<open>k\<close> = 0, 253, 254 or 255.
\<close>

theorem table_id_for_sound:
  "table_id_for ip \<notin> {0, 253, 254, 255} \<and>
   (table_id_for ip = table_id_for ip' \<longleftrightarrow>
     ip = ip' \<or> (\<exists>k \<in> {0, 253, 254, 255}. {ip, ip'} = {(0, 0, 0, k), (0, 1, 0, k)}))"
proof -
  let ?f = u32_from_be_bytes
  have inj: "ip = q \<longleftrightarrow> ?f ip = ?f q" for ip q
    using u32_from_be_bytes_inj by blast
  have val: "?f (0, 0, 0, 0) = 0" "?f (0, 0, 0, 253) = 253" "?f (0, 0, 0, 254) = 254" "?f (0, 0, 0, 255) = 255"
    "?f (0, 1, 0, 0) = 0x10000" "?f (0, 1, 0, 253) = 0x100FD" "?f (0, 1, 0, 254) = 0x100FE"
    "?f (0, 1, 0, 255) = 0x100FF"
    by code_simp+
  show ?thesis
    unfolding table_id_for_def Let_def doubleton_eq_iff inj [of ip] inj [of ip']
    by (simp add: val table_shift table_shift_reserved)
qed

end
