(* ===== verification/Lifecycle.thy ===== *)
theory Lifecycle
  imports Routing
begin

text \<open>
  What the lives of the services have in common: opening the route manager (\<open>RouteManager::new\<close> of
  \<open>src/dumbarp-routing/src/lib.rs\<close>), and the timer tasks that run one pass per tick. The locale \<open>tick_loop\<close>
  is the contract of such a task; every service's loop interprets it. Also here: what any routing
  pass, successful or not, keeps of the kernel's state.
\<close>

section \<open>Opening the route manager\<close>

text \<open>
  The route manager is its netlink handle. \<open>new_connection\<close> is the netlink library's: it fails or
  gives a handle, whose connection the runtime then drives.
\<close>

datatype connect_error = OpeningNetlink

definition RouteManager_new :: "unit + 's netlink \<Rightarrow> connect_error + 's netlink" where
  "RouteManager_new new_connection =
     (case new_connection of Inl _ \<Rightarrow> Inl OpeningNetlink | Inr handle \<Rightarrow> Inr handle)"

lemma RouteManager_new_Inr [simp]: "RouteManager_new c = Inr K \<longleftrightarrow> c = Inr K"
  by (simp add: RouteManager_new_def split: sum.split)

section \<open>Timer tasks\<close>

text \<open>
  A timer task runs a pass per tick; \<open>ok\<close> is what is known of the world at a tick, \<open>inv\<close> what every pass
  keeps in such a world. Then a run of any length keeps it.
\<close>

locale tick_loop =
  fixes pass :: "'e \<Rightarrow> 's \<Rightarrow> 's" and loop :: "'e list \<Rightarrow> 's \<Rightarrow> 's"
    and ok :: "'e \<Rightarrow> bool" and inv :: "'s \<Rightarrow> bool"
  assumes loop_Nil: "loop [] s = s"
    and loop_Cons: "loop (e # es) s = loop es (pass e s)"
    and pass_inv: "ok e \<Longrightarrow> inv s \<Longrightarrow> inv (pass e s)"
begin

lemma loop_append: "loop (es @ fs) s = loop fs (loop es s)"
  by (induction es arbitrary: s) (simp_all add: loop_Nil loop_Cons)

lemma loop_inv: "list_all ok es \<Longrightarrow> inv s \<Longrightarrow> inv (loop es s)"
  by (induction es arbitrary: s) (simp_all add: loop_Nil loop_Cons pass_inv)

lemma loop_reaches_inv:
  assumes "list_all ok fs" "inv (loop es s)"
  shows "inv (loop (es @ fs) s)"
  using loop_inv [OF assms] by (simp add: loop_append)

end

section \<open>What every pass keeps\<close>

lemma reconcile_tables_wf:
  assumes "netlink_laws K" "\<And>t w. want t = Some w \<Longrightarrow> rs_fwmark w \<noteq> Some 0"
  shows "routes_wf K s \<Longrightarrow> distinct ts \<Longrightarrow> (\<And>t. t \<in> set ts \<Longrightarrow> listed K s t (rules t) (route t)) \<Longrightarrow>
    reconcile_tables K want rules route ts s = (log, s') \<Longrightarrow> routes_wf K s'"
proof (induction ts arbitrary: s log)
  case Nil
  then show ?case by simp
next
  case (Cons u ts)
  obtain l s1 where one: "reconcile_table K u (want u) (rules u) (route u) s = (l, s1)"
    by (cases "reconcile_table K u (want u) (rules u) (route u) s")
  obtain l' where rest: "reconcile_tables K want rules route ts s1 = (l', s')"
    using Cons.prems(4) one by (auto split: prod.splits)
  have "listed K s u (rules u) (route u)" by (rule Cons.prems(3)) simp
  note e = reconcile_table_effect [OF assms(1) Cons.prems(1) this assms(2) [of u] one, simplified]
  have "listed K s1 x (rules x) (route x)" if "x \<in> set ts" for x
  proof -
    from that Cons.prems(2) have "x \<noteq> u" by auto
    with Cons.prems(3) [of x] that e [where t' = x] show ?thesis by (simp add: listed_def)
  qed
  with e Cons.prems(2) rest show ?case by (intro Cons.IH [of s1 l']) auto
qed

lemma reconcile_wf:
  assumes "netlink_laws K" "iter_ok iter" "routes_wf K s" "\<forall>spec \<in> set desired. sp_fwmark spec \<noteq> Some 0"
    and "reconcile K iter desired s = (r, log, s')"
  shows "routes_wf K s' \<and> foreign_rules K s' = foreign_rules K s"
proof (cases r)
  case (Inl e)
  with assms(3,5) show ?thesis by (auto simp: reconcile_def Let_def split: sum.splits prod.splits)
next
  case (Inr u)
  then have r: "reconcile K iter desired s = (Inr (), log, s')" using assms(5) by simp
  obtain crules croutes ts log' where l: "list_rules K s = Inr crules" "list_routes K s = Inr croutes"
    and ts: "distinct ts"
    and rt: "reconcile_tables K (wanted K s desired) (get_rules crules) (hm_get croutes) ts s = (log', s')"
    using reconcile_unfold [OF r assms(2)] by metis
  have size: "size (routes_at K s t) \<le> 1" for t using assms(3) by (simp add: routes_wf_def)
  have li: "listed K s t (get_rules crules t) (hm_get croutes t)" for t
    using list_rules_get(1) [OF l(1)] list_routes_get(1) [OF l(2) size] by (simp add: listed_def)
  have "routes_wf K s'"
    by (rule reconcile_tables_wf [OF assms(1) _ assms(3) ts _ rt]) (erule wanted_fwmark [OF assms(4)], rule li)
  then show ?thesis using reconcile_effect [OF assms(1-4) r] by blast
qed

lemma wanted_Nil: "wanted K s [] t = None"
  by (simp add: wanted_def)

text \<open>A spec alone in its table is what is wanted of the table.\<close>

lemma wanted_unique:
  assumes "sp \<in> set desired" "ifindex K s (sp_iface sp) = Inr idx"
    and "\<And>sp'. sp' \<in> set desired \<Longrightarrow> table_id_for (sp_src sp') = table_id_for (sp_src sp) \<Longrightarrow> sp' = sp"
  shows "wanted K s desired (table_id_for (sp_src sp)) =
    Some \<lparr>rs_src = sp_src sp, rs_gateway = sp_gateway sp, rs_ifindex = idx, rs_fwmark = sp_fwmark sp\<rparr>"
  using assms(1,3)
proof (induction desired rule: rev_induct)
  case (snoc x desired)
  show ?case
  proof (cases "table_id_for (sp_src x) = table_id_for (sp_src sp)")
    case True
    with snoc.prems(2) have "x = sp" by simp
    with assms(2) show ?thesis by (simp add: wanted_snoc)
  next
    case False
    with snoc.prems(1) have "sp \<in> set desired" by auto
    with snoc False show ?thesis by (auto simp: wanted_snoc split: sum.split)
  qed
qed simp

text \<open>
  The kernel's side of a service that may have route management off: well-formed routes and the given
  foreign rules when there is a manager, the kernel of the start when there is none.
\<close>

definition kernel_kept :: "'s netlink option \<Rightarrow> 's \<Rightarrow> 's \<Rightarrow> bool" where
  "kernel_kept manager s0 s =
     (case manager of
        None \<Rightarrow> s = s0
      | Some K \<Rightarrow> routes_wf K s \<and> foreign_rules K s = foreign_rules K s0)"

lemma kernel_kept_refl: "\<forall>K. manager = Some K \<longrightarrow> routes_wf K s \<Longrightarrow> kernel_kept manager s s"
  by (simp add: kernel_kept_def split: option.split)

lemma kernel_kept_pass:
  assumes "netlink_laws K" "iter_ok iter" "\<forall>spec \<in> set desired. sp_fwmark spec \<noteq> Some 0"
    and "kernel_kept (Some K) s0 s"
  shows "kernel_kept (Some K) s0 (snd (snd (reconcile K iter desired s)))"
proof -
  obtain r log s' where r: "reconcile K iter desired s = (r, log, s')"
    by (rule prod_cases3 [of "reconcile K iter desired s"])
  with reconcile_wf [OF assms(1,2) _ assms(3) r] assms(4) show ?thesis by (simp add: kernel_kept_def)
qed

text \<open>A kernel with one policy rule of an administrator, for the examples.\<close>

definition foreign_rule :: RuleMessage where
  "foreign_rule = \<lparr>rule_family = Inet, rule_src_len = 24, rule_table = 254, rule_action = ToTable,
     rule_attributes = [Priority 100, Source (V4 (10, 1, 2, 0)), RuleTable 254]\<rparr>"

lemma foreign_rule_kernel:
  "routes_wf list_netlink ([foreign_rule], []) \<and> foreign_rules list_netlink ([foreign_rule], []) = [foreign_rule]"
  by (simp add: routes_wf_def routes_at_def foreign_rules_def list_netlink_msgs parse_dumbarp_rule_def foreign_rule_def
      unique_attrs_def DUMBARP_PRIORITY_def)

end
