(* ===== verification/Routerd.thy ===== *)
theory Routerd
  imports Common Lifecycle
begin

text \<open>
  The router daemon, crate \<open>dumbarp-routerd\<close>: configuration checks (\<open>config.rs\<close>), the resolution of
  daemon ids, the building of the wanted routes and the two reconcile passes (\<open>reconcile.rs\<close>), and the
  synchronisation of the classifier's maps (\<open>datapath.rs\<close>). The BPF map library is the parameter
  \<open>ids_map\<close>, with \<open>ids_map_laws\<close> what the code relies on; the per-CPU counters are read through the
  parameter \<open>read_slot\<close>; instants are arguments, one per call of \<open>Instant::now\<close>.
\<close>

section \<open>Configuration\<close>

record 'url GatewayEntry =
  ge_endpoint :: 'url
  ge_auth_token :: string
  ge_device_overrides :: "(string, string) hashmap"

record 'url DaemonEntry =
  de_name :: string
  de_endpoint :: 'url
  de_auth_token :: string
  de_nexthop :: ipv4addr
  de_device :: string

record DscpConfig =
  ifaces :: "string list"

record 'url Config =
  refresh_interval_secs :: u64
  stale_after_secs :: u64
  source_based_routing :: bool
  cfg_daemons :: "'url DaemonEntry list"
  gateway :: "'url GatewayEntry option"
  dscp :: DscpConfig

definition default_refresh :: u64 where "default_refresh = 30"
definition default_stale :: u64 where "default_stale = 300"

datatype config_error =
    GatewayAndDaemons
  | NoSource
  | EmptyGatewayToken
  | ZeroRefresh
  | StaleBelowRefresh u64 u64
  | NoInterfaces
  | EmptyName
  | EmptyDeviceOf string
  | EmptyTokenOf string
  | DuplicateName string

text \<open>The loop over the daemons, with the names seen so far.\<close>

fun validate_daemons :: "string list \<Rightarrow> 'url DaemonEntry list \<Rightarrow> config_error + unit" where
  "validate_daemons seen [] = Inr ()"
| "validate_daemons seen (d # ds) =
     (if de_name d = [] then Inl EmptyName
      else if de_device d = [] then Inl (EmptyDeviceOf (de_name d))
      else if de_auth_token d = [] then Inl (EmptyTokenOf (de_name d))
      else if de_name d \<in> set seen then Inl (DuplicateName (de_name d))
      else validate_daemons (de_name d # seen) ds)"

definition validate :: "'url Config \<Rightarrow> config_error + unit" where
  "validate self =
     (if gateway self \<noteq> None \<and> cfg_daemons self \<noteq> [] then Inl GatewayAndDaemons
      else if gateway self = None \<and> cfg_daemons self = [] then Inl NoSource
      else if (case gateway self of Some gw \<Rightarrow> ge_auth_token gw = [] | None \<Rightarrow> False) then Inl EmptyGatewayToken
      else if refresh_interval_secs self = 0 then Inl ZeroRefresh
      else if stale_after_secs self < refresh_interval_secs self
        then Inl (StaleBelowRefresh (stale_after_secs self) (refresh_interval_secs self))
      else if ifaces (dscp self) = [] then Inl NoInterfaces
      else validate_daemons [] (cfg_daemons self))"

text \<open>\<open>Config::load\<close>; reading the file and parsing TOML are parameters.\<close>

datatype load_error = ReadError | ParseError | Invalid config_error

definition load ::
  "('path \<Rightarrow> string option) \<Rightarrow> (string \<Rightarrow> 'url Config option) \<Rightarrow> 'path \<Rightarrow> load_error + 'url Config" where
  "load read_to_string from_toml path =
     (case read_to_string path of
        None \<Rightarrow> Inl ReadError
      | Some raw \<Rightarrow>
          (case from_toml raw of
             None \<Rightarrow> Inl ParseError
           | Some cfg \<Rightarrow> (case validate cfg of Inl e \<Rightarrow> Inl (Invalid e) | Inr _ \<Rightarrow> Inr cfg)))"

section \<open>Daemon ids\<close>

record RememberedId =
  rid :: u8
  seen_at :: nat

definition validate_id ::
  "string \<Rightarrow> u8 option \<Rightarrow> (u8, string) hashmap \<Rightarrow> u8 option \<times> (u8, string) hashmap" where
  "validate_id name i claimed =
     (case i of
        None \<Rightarrow> (None, claimed)
      | Some i \<Rightarrow>
          if i = 0 \<or> i > DSCP_ID_MAX then (None, claimed)
          else if hm_get claimed i \<noteq> None then (None, claimed)
          else (Some i, hm_insert i name claimed))"

record resolve_ids_state =
  ri_out :: "(string, u8) hashmap"
  ri_claimed :: "(u8, string) hashmap"
  ri_remembered :: "(string, RememberedId) hashmap"

definition candidate ::
  "nat \<Rightarrow> nat \<Rightarrow> string \<Rightarrow> u8 option \<Rightarrow> (string, RememberedId) hashmap \<Rightarrow> u8 option" where
  "candidate stale now name advertised remembered =
     (case advertised of
        Some i \<Rightarrow> Some i
      | None \<Rightarrow>
          (case hm_get remembered name of
             Some prev \<Rightarrow> if now - seen_at prev < stale then Some (rid prev) else None
           | None \<Rightarrow> None))"

definition resolve_id ::
  "nat \<Rightarrow> nat \<Rightarrow> string \<times> u8 option \<Rightarrow> resolve_ids_state \<Rightarrow> resolve_ids_state" where
  "resolve_id stale now adv st =
     (let (name, advertised) = adv;
          cand = candidate stale now name advertised (ri_remembered st)
      in case validate_id name cand (ri_claimed st) of
           (None, claimed) \<Rightarrow> st\<lparr>ri_claimed := claimed\<rparr>
         | (Some i, claimed) \<Rightarrow>
             \<lparr>ri_out = hm_insert name i (ri_out st), ri_claimed = claimed,
              ri_remembered = (if advertised = Some i
                then hm_insert name \<lparr>rid = i, seen_at = now\<rparr> (ri_remembered st) else ri_remembered st)\<rparr>)"

definition resolve_ids ::
  "(string \<times> u8 option) list \<Rightarrow> (string, RememberedId) hashmap \<Rightarrow> nat \<Rightarrow> nat \<Rightarrow>
     (string, u8) hashmap \<times> (string, RememberedId) hashmap" where
  "resolve_ids advertised remembered stale now =
     (let st = fold (resolve_id stale now) advertised
                 \<lparr>ri_out = [], ri_claimed = [], ri_remembered = remembered\<rparr>
      in (ri_out st, hm_retain (\<lambda>_ prev. now - seen_at prev < stale) (ri_remembered st)))"

section \<open>Wanted routes\<close>

text \<open>The sets of sources already seen only feed warnings; the specs are in the order pushed.\<close>

definition push_specs :: "'url DaemonEntry \<Rightarrow> ipv4addr list \<Rightarrow> u32 option \<Rightarrow> RouteSpec list \<Rightarrow> RouteSpec list" where
  "push_specs daemon ips fwmark out =
     out @ map (\<lambda>ip. \<lparr>sp_src = ip, sp_gateway = de_nexthop daemon, sp_iface = de_device daemon,
                      sp_fwmark = fwmark\<rparr>) ips"

text \<open>The mark of a daemon's rules; \<open>None\<close> when the daemon is to be skipped.\<close>

definition mark_for :: "bool \<Rightarrow> (string, u8) hashmap \<Rightarrow> string \<Rightarrow> u32 option option" where
  "mark_for source_based ids name =
     (if source_based then Some None
      else case hm_get ids name of Some i \<Rightarrow> Some (Some (ucast i)) | None \<Rightarrow> None)"

fun build_gateway_specs ::
  "DaemonRoutes list \<Rightarrow> (string, string) hashmap \<Rightarrow> (string, u8) hashmap \<Rightarrow> bool \<Rightarrow> RouteSpec list" where
  "build_gateway_specs [] device_overrides ids source_based = []"
| "build_gateway_specs (d # ds) device_overrides ids source_based =
     (let device = (case hm_get device_overrides (r_name d) of Some dev \<Rightarrow> dev | None \<Rightarrow> r_device d)
      in case mark_for source_based ids (r_name d) of
           None \<Rightarrow> build_gateway_specs ds device_overrides ids source_based
         | Some fwmark \<Rightarrow>
             map (\<lambda>ip. \<lparr>sp_src = ip, sp_gateway = r_nexthop d, sp_iface = device, sp_fwmark = fwmark\<rparr>) (r_ips d)
             @ build_gateway_specs ds device_overrides ids source_based)"

text \<open>The loop of \<open>reconcile_via_daemons\<close> that builds \<open>desired\<close>.\<close>

definition daemon_specs ::
  "'url DaemonEntry list \<Rightarrow> (string, Leases) hashmap \<Rightarrow> (string, u8) hashmap \<Rightarrow> bool \<Rightarrow> RouteSpec list" where
  "daemon_specs entries view ids source_based =
     foldl (\<lambda>desired daemon.
       case hm_get view (de_name daemon) of
         None \<Rightarrow> desired
       | Some leases \<Rightarrow>
           (case mark_for source_based ids (de_name daemon) of
              None \<Rightarrow> desired
            | Some fwmark \<Rightarrow> push_specs daemon (l_ips leases) fwmark desired)) [] entries"

section \<open>Datapath\<close>

record Counters =
  tagged :: u64
  untagged :: u64
  skipped :: u64

definition Counters_default :: Counters where
  "Counters_default = \<lparr>tagged = 0, untagged = 0, skipped = 0\<rparr>"

text \<open>
  The map \<open>DSCP_IDS\<close> behind the BPF library: looking it up by name, listing its keys (with the
  entries that could not be read), removing and inserting.
\<close>

record 'm ids_map =
  im_found :: "'m \<Rightarrow> bool"
  im_keys :: "'m \<Rightarrow> (unit + u8) list"
  im_remove :: "u8 \<Rightarrow> 'm \<Rightarrow> (unit + unit) \<times> 'm"
  im_insert :: "u8 \<Rightarrow> u32 \<Rightarrow> 'm \<Rightarrow> (unit + unit) \<times> 'm"

datatype datapath_error = MapNotFound | InsertFailed u8 | ReadFailed u32

fun remove_stale :: "'m ids_map \<Rightarrow> u8 list \<Rightarrow> u8 list \<Rightarrow> 'm \<Rightarrow> 'm" where
  "remove_stale M ids [] m = m"
| "remove_stale M ids (i # existing) m =
     remove_stale M ids existing (if i \<in> set ids then m else snd (im_remove M i m))"

fun insert_ids :: "'m ids_map \<Rightarrow> u8 list \<Rightarrow> 'm \<Rightarrow> (datapath_error + unit) \<times> 'm" where
  "insert_ids M [] m = (Inr (), m)"
| "insert_ids M (i # ids) m =
     (case im_insert M i (ucast i) m of
        (Inl _, m') \<Rightarrow> (Inl (InsertFailed i), m')
      | (Inr _, m') \<Rightarrow> insert_ids M ids m')"

definition sync_ids :: "'m ids_map \<Rightarrow> u8 list \<Rightarrow> 'm \<Rightarrow> (datapath_error + unit) \<times> 'm" where
  "sync_ids M ids m =
     (if \<not> im_found M m then (Inl MapNotFound, m)
      else let existing = List.map_filter (\<lambda>r. case r of Inr i \<Rightarrow> Some i | Inl _ \<Rightarrow> None) (im_keys M m)
           in insert_ids M ids (remove_stale M ids existing m))"

text \<open>
  Reading the counters: the slots of every CPU, summed with the wrap-around of \<open>u64\<close>.
\<close>

definition counters :: "(u32 \<Rightarrow> u64 list option) \<Rightarrow> datapath_error + Counters" where
  "counters read_slot =
     (let total = (\<lambda>slot. case read_slot slot of None \<Rightarrow> Inl (ReadFailed slot) | Some vs \<Rightarrow> Inr (sum_list vs))
      in case try_map total [0, 1, 2] of
           Inl e \<Rightarrow> Inl e
         | Inr totals \<Rightarrow> Inr \<lparr>tagged = totals ! unat CTR_TAGGED, untagged = totals ! unat CTR_UNTAGGED,
                            skipped = totals ! unat CTR_SKIPPED\<rparr>)"

section \<open>The passes\<close>

definition GATEWAY_CACHE_KEY :: string where
  "GATEWAY_CACHE_KEY = ''gateway''"

record 'm RouterState =
  st_cache :: "Leases Cache"
  st_gateway_cache :: "DaemonRoutes list Cache"
  st_datapath :: 'm
  st_known_ids :: "(string, RememberedId) hashmap"

text \<open>
  The libraries and services of a pass: HTTP with its two decoders, the BPF maps, netlink, and the
  orders in which this run visits its hash sets.
\<close>

record ('url, 'resp, 'm, 's) router_env =
  re_http :: "('url, 'resp) http_env"
  re_json_leases :: "'resp \<Rightarrow> LeasesResponse option"
  re_json_daemons :: "'resp \<Rightarrow> DaemonsResponse option"
  re_ids :: "'m ids_map"
  re_read_slot :: "'m \<Rightarrow> u32 \<Rightarrow> u64 list option"
  re_netlink :: "'s netlink"
  re_iter_tables :: "u32 list \<Rightarrow> u32 list"
  re_iter_ids :: "u8 list \<Rightarrow> u8 list"

text \<open>What a pass logs: the statistics, the wanted routes, the counters, and the two outcomes.\<close>

record pass_report =
  pr_stats :: RoundStats
  pr_desired :: "RouteSpec list"
  pr_sync :: "datapath_error + unit"
  pr_counters :: Counters
  pr_routes :: "route_error + unit"
  pr_warnings :: "warning list"

definition sync_datapath ::
  "'m ids_map \<Rightarrow> ('m \<Rightarrow> u32 \<Rightarrow> u64 list option) \<Rightarrow> u8 list \<Rightarrow> 'm \<Rightarrow> (datapath_error + unit) \<times> Counters \<times> 'm" where
  "sync_datapath M read_slot id_set m =
     (let (res, m') = sync_ids M id_set m
      in (res, case counters (read_slot m') of Inr c \<Rightarrow> c | Inl _ \<Rightarrow> Counters_default, m'))"

text \<open>The end of both passes: the datapath first, then the routes; neither failure stops the pass.\<close>

definition apply_pass ::
  "('url, 'resp, 'm, 's) router_env \<Rightarrow> RoundStats \<Rightarrow> (string, u8) hashmap \<Rightarrow> RouteSpec list \<Rightarrow>
     'm RouterState \<Rightarrow> 's \<Rightarrow> pass_report \<times> 'm RouterState \<times> 's" where
  "apply_pass E stats ids desired st s =
     (let id_set = re_iter_ids E (remdups (map snd ids));
          (synced, ctrs, m') = sync_datapath (re_ids E) (re_read_slot E) id_set (st_datapath st);
          (routed, log, s') = reconcile (re_netlink E) (re_iter_tables E) desired s
      in (\<lparr>pr_stats = stats, pr_desired = desired, pr_sync = synced, pr_counters = ctrs,
           pr_routes = routed, pr_warnings = log\<rparr>, st\<lparr>st_datapath := m'\<rparr>, s'))"

definition reconcile_via_gateway ::
  "('url, 'resp, 'm, 's) router_env \<Rightarrow> 'url Config \<Rightarrow> 'url GatewayEntry \<Rightarrow> nat \<Rightarrow> nat \<Rightarrow>
     'm RouterState \<Rightarrow> 's \<Rightarrow> pass_report \<times> 'm RouterState \<times> 's" where
  "reconcile_via_gateway E cfg gw now1 now2 st s =
     (let stale = from_secs (stale_after_secs cfg);
          fetched = fetch_daemons (re_http E) (re_json_daemons E) (ge_endpoint gw) (ge_auth_token gw)
                      GATEWAY_CACHE_KEY;
          ((stats, view), cache') = apply_round now1 [(GATEWAY_CACHE_KEY, fetched)] stale (st_gateway_cache st);
          routes = (case hm_get view GATEWAY_CACHE_KEY of Some ds \<Rightarrow> ds | None \<Rightarrow> []);
          (ids, known') = resolve_ids (map (\<lambda>d. (r_name d, r_dumbarpd_id d)) routes) (st_known_ids st) stale now2;
          desired = build_gateway_specs routes (ge_device_overrides gw) ids (source_based_routing cfg)
      in apply_pass E stats ids desired (st\<lparr>st_gateway_cache := cache', st_known_ids := known'\<rparr>) s)"

definition reconcile_via_daemons ::
  "('url, 'resp, 'm, 's) router_env \<Rightarrow> 'url Config \<Rightarrow> nat \<Rightarrow> nat \<Rightarrow>
     'm RouterState \<Rightarrow> 's \<Rightarrow> pass_report \<times> 'm RouterState \<times> 's" where
  "reconcile_via_daemons E cfg now1 now2 st s =
     (let stale = from_secs (stale_after_secs cfg);
          results = map (\<lambda>d. fetch_leases (re_http E) (re_json_leases E) (de_endpoint d) (de_auth_token d) (de_name d))
                      (cfg_daemons cfg);
          round = zip (map de_name (cfg_daemons cfg)) results;
          ((stats, view), cache') = apply_round now1 round stale (st_cache st);
          (ids, known') = resolve_ids
            (map (\<lambda>d. (de_name d, Option.bind (hm_get view (de_name d)) l_dumbarpd_id)) (cfg_daemons cfg))
            (st_known_ids st) stale now2;
          desired = daemon_specs (cfg_daemons cfg) view ids (source_based_routing cfg)
      in apply_pass E stats ids desired (st\<lparr>st_cache := cache', st_known_ids := known'\<rparr>) s)"

definition reconcile_once ::
  "('url, 'resp, 'm, 's) router_env \<Rightarrow> 'url Config \<Rightarrow> nat \<Rightarrow> nat \<Rightarrow>
     'm RouterState \<Rightarrow> 's \<Rightarrow> pass_report \<times> 'm RouterState \<times> 's" where
  "reconcile_once E cfg now1 now2 st s =
     (case gateway cfg of
        Some gw \<Rightarrow> reconcile_via_gateway E cfg gw now1 now2 st s
      | None \<Rightarrow> reconcile_via_daemons E cfg now1 now2 st s)"

section \<open>Lemmas on the ids\<close>

definition valid_id :: "u8 \<Rightarrow> bool" where
  "valid_id i \<longleftrightarrow> i \<noteq> 0 \<and> i \<le> DSCP_ID_MAX"

definition cand_of ::
  "nat \<Rightarrow> nat \<Rightarrow> (string, RememberedId) hashmap \<Rightarrow> string \<times> u8 option \<Rightarrow> u8 option" where
  "cand_of stale now remembered adv = candidate stale now (fst adv) (snd adv) remembered"

lemma resolve_id_eq:
  "resolve_id stale now (n, a) st =
     (case candidate stale now n a (ri_remembered st) of
        Some i \<Rightarrow>
          if valid_id i \<and> hm_get (ri_claimed st) i = None
          then \<lparr>ri_out = hm_insert n i (ri_out st), ri_claimed = hm_insert i n (ri_claimed st),
                ri_remembered = (if a = Some i
                  then hm_insert n \<lparr>rid = i, seen_at = now\<rparr> (ri_remembered st) else ri_remembered st)\<rparr>
          else st
      | None \<Rightarrow> st)"
  by (auto simp: resolve_id_def validate_id_def valid_id_def not_le [symmetric] split: option.split)

text \<open>
  The state of the loop after the daemons \<open>adv\<close>, whose names are distinct: who holds an id, which
  ids are claimed, and that the memory of daemons not visited is untouched.
\<close>

definition grants ::
  "nat \<Rightarrow> nat \<Rightarrow> (string, RememberedId) hashmap \<Rightarrow> (string \<times> u8 option) list \<Rightarrow> string \<Rightarrow> u8 \<Rightarrow> bool" where
  "grants stale now remembered adv n i \<longleftrightarrow>
     (\<exists>pre a post. adv = pre @ (n, a) # post \<and> candidate stale now n a remembered = Some i \<and> valid_id i \<and>
        (\<forall>x \<in> set pre. cand_of stale now remembered x \<noteq> Some i))"

lemma grants_snoc:
  "grants stale now rem (adv @ [(n, a)]) m i \<longleftrightarrow>
     grants stale now rem adv m i \<or>
     m = n \<and> candidate stale now n a rem = Some i \<and> valid_id i \<and>
       (\<forall>x \<in> set adv. cand_of stale now rem x \<noteq> Some i)"
  (is "?l \<longleftrightarrow> ?r")
proof
  assume ?l
  then obtain pre b post where *: "adv @ [(n, a)] = pre @ (m, b) # post"
    "candidate stale now m b rem = Some i" "valid_id i" "\<forall>x \<in> set pre. cand_of stale now rem x \<noteq> Some i"
    unfolding grants_def by blast
  show ?r
  proof (cases post rule: rev_cases)
    case Nil
    with * show ?thesis by simp
  next
    case (snoc post' x)
    with * have "adv = pre @ (m, b) # post'" by simp
    with * show ?thesis unfolding grants_def by blast
  qed
next
  assume ?r
  then show ?l
  proof
    assume "grants stale now rem adv m i"
    then obtain pre b post where "adv = pre @ (m, b) # post"
      "candidate stale now m b rem = Some i" "valid_id i" "\<forall>x \<in> set pre. cand_of stale now rem x \<noteq> Some i"
      unfolding grants_def by blast
    then show ?l unfolding grants_def by (intro exI [of _ pre] exI [of _ b] exI [of _ "post @ [(n, a)]"]) simp
  next
    assume "m = n \<and> candidate stale now n a rem = Some i \<and> valid_id i \<and>
       (\<forall>x \<in> set adv. cand_of stale now rem x \<noteq> Some i)"
    then show ?l unfolding grants_def by (intro exI [of _ adv] exI [of _ a] exI [of _ "[]"]) simp
  qed
qed

lemma grants_name: "grants stale now rem adv n i \<Longrightarrow> n \<in> fst ` set adv"
  by (auto simp: grants_def)

lemma resolve_loop:
  fixes adv rem stale now
  assumes "distinct (map fst adv)"
  defines "st \<equiv> fold (resolve_id stale now) adv \<lparr>ri_out = [], ri_claimed = [], ri_remembered = rem\<rparr>"
  shows "(hm_get (ri_out st) n = Some i \<longleftrightarrow> grants stale now rem adv n i) \<and>
    (hm_get (ri_claimed st) i = None \<longleftrightarrow> \<not> (valid_id i \<and> (\<exists>x \<in> set adv. cand_of stale now rem x = Some i))) \<and>
    (n \<notin> fst ` set adv \<longrightarrow> hm_get (ri_remembered st) n = hm_get rem n)"
  using assms(1) unfolding st_def
proof (induction adv arbitrary: n i rule: rev_induct)
  case Nil
  then show ?case by (simp add: grants_def)
next
  case (snoc x adv)
  obtain m a where x: "x = (m, a)" by (cases x)
  let ?st = "fold (resolve_id stale now) adv \<lparr>ri_out = [], ri_claimed = [], ri_remembered = rem\<rparr>"
  have d: "distinct (map fst adv)" and m: "m \<notin> fst ` set adv" using snoc.prems by (auto simp: x)
  note IH = snoc.IH [OF d]
  have rem: "hm_get (ri_remembered ?st) m = hm_get rem m" using IH [of m] m by blast
  have cand: "candidate stale now m a (ri_remembered ?st) = candidate stale now m a rem"
    unfolding candidate_def rem ..
  have fresh: "hm_get (ri_out ?st) m = None"
    using IH [of m] m grants_name [of stale now rem adv m] by (metis not_None_eq)
  have out: "hm_get (ri_out ?st) k = Some j \<longleftrightarrow> grants stale now rem adv k j" for k j using IH by blast
  have cl: "hm_get (ri_claimed ?st) j = None \<longleftrightarrow> \<not> (valid_id j \<and> (\<exists>x \<in> set adv. cand_of stale now rem x = Some j))" for j
    using IH [of n j] by blast
  have keep: "k \<notin> fst ` set adv \<Longrightarrow> hm_get (ri_remembered ?st) k = hm_get rem k" for k using IH by blast
  have no: "\<not> grants stale now rem adv m j" for j using m grants_name by metis
  have cx: "cand_of stale now rem (m, a) = candidate stale now m a rem" by (simp add: cand_of_def)
  show ?case
  proof (cases "candidate stale now m a rem")
    case None
    with cand have "resolve_id stale now (m, a) ?st = ?st" by (simp add: resolve_id_eq)
    with None out cl keep show ?thesis by (auto simp: x grants_snoc cx)
  next
    case (Some j)
    show ?thesis
    proof (cases "valid_id j \<and> hm_get (ri_claimed ?st) j = None")
      case False
      with Some cand have "resolve_id stale now (m, a) ?st = ?st" by (auto simp: resolve_id_eq)
      with False Some out cl keep show ?thesis by (auto simp: x grants_snoc cx)
    next
      case True
      with Some cand have r: "resolve_id stale now (m, a) ?st =
        \<lparr>ri_out = hm_insert m j (ri_out ?st), ri_claimed = hm_insert j m (ri_claimed ?st),
         ri_remembered = (if a = Some j then hm_insert m \<lparr>rid = j, seen_at = now\<rparr> (ri_remembered ?st)
           else ri_remembered ?st)\<rparr>"
        by (auto simp: resolve_id_eq)
      have free: "\<forall>x \<in> set adv. cand_of stale now rem x \<noteq> Some j" using True cl by blast
      show ?thesis
        using True Some out cl keep no free by (auto simp: x r grants_snoc cx)
    qed
  qed
qed

lemma resolve_ids_grants:
  assumes "distinct (map fst adv)"
  shows "hm_get (fst (resolve_ids adv rem stale now)) n = Some i \<longleftrightarrow> grants stale now rem adv n i"
  using resolve_loop [OF assms] by (simp add: resolve_ids_def Let_def)

text \<open>Ids are valid and never shared, whatever is advertised.\<close>

lemma resolve_ids_claimed:
  fixes adv rem stale now
  defines "st \<equiv> fold (resolve_id stale now) adv \<lparr>ri_out = [], ri_claimed = [], ri_remembered = rem\<rparr>"
  shows "hm_get (ri_out st) n = Some i \<Longrightarrow> valid_id i \<and> hm_get (ri_claimed st) i = Some n"
  unfolding st_def
proof (induction adv arbitrary: n i rule: rev_induct)
  case (snoc x adv)
  obtain m a where x: "x = (m, a)" by (cases x)
  let ?st = "fold (resolve_id stale now) adv \<lparr>ri_out = [], ri_claimed = [], ri_remembered = rem\<rparr>"
  from snoc.prems show ?case
    using snoc.IH [of n i]
    by (auto simp: x resolve_id_eq split: option.splits if_splits)
qed simp

lemma ucast_u8_u32_inj: "(ucast (i :: u8) :: u32) = ucast j \<longleftrightarrow> i = j"
proof
  assume eq: "(ucast i :: u32) = ucast j"
  show "i = j"
  proof (rule bit_word_eqI)
    fix k assume "k < LENGTH(8)"
    then show "bit i k \<longleftrightarrow> bit j k"
      using arg_cong [OF eq, of "\<lambda>w. bit w k"] by (simp add: bit_simps)
  qed
qed simp

text \<open>
  The contract of an assignment of ids to daemons, as the builders of routes and the classifier use
  it: the id becomes a mark, which is never 0 and belongs to one daemon.
\<close>

locale id_assignment =
  fixes assigned :: "'a \<Rightarrow> string \<Rightarrow> u8 option"
  assumes assigned_valid: "assigned x n = Some i \<Longrightarrow> valid_id i"
    and assigned_inj: "assigned x n = Some i \<Longrightarrow> assigned x m = Some i \<Longrightarrow> m = n"
begin

lemma mark_nonzero: "map_option ucast (assigned x n) \<noteq> Some (0 :: u32)"
proof
  assume "map_option ucast (assigned x n) = Some (0 :: u32)"
  then obtain i where i: "assigned x n = Some i" "(ucast i :: u32) = ucast (0 :: u8)" by auto
  then have "i = 0" by (simp only: ucast_u8_u32_inj)
  with assigned_valid [OF i(1)] show False by (simp add: valid_id_def)
qed

lemma mark_inj:
  "map_option ucast (assigned x n) = Some (k :: u32) \<Longrightarrow> map_option ucast (assigned x m) = Some k \<Longrightarrow> m = n"
  using assigned_inj by (auto simp: ucast_u8_u32_inj)

end

interpretation ids: id_assignment
  "\<lambda>(adv, rem, stale, now). hm_get (fst (resolve_ids adv rem stale now))"
proof unfold_locales
  fix x :: "(string \<times> u8 option) list \<times> (string, RememberedId) hashmap \<times> nat \<times> nat" and n m i
  obtain adv rem stale now where x: "x = (adv, rem, stale, now)" by (cases x)
  assume "(case x of (adv, rem, stale, now) \<Rightarrow> hm_get (fst (resolve_ids adv rem stale now))) n = Some i"
  then have n: "valid_id i" "hm_get (ri_claimed (fold (resolve_id stale now) adv
      \<lparr>ri_out = [], ri_claimed = [], ri_remembered = rem\<rparr>)) i = Some n"
    using resolve_ids_claimed by (auto simp: x resolve_ids_def Let_def)
  show "valid_id i" by (rule n(1))
  assume "(case x of (adv, rem, stale, now) \<Rightarrow> hm_get (fst (resolve_ids adv rem stale now))) m = Some i"
  then have "hm_get (ri_claimed (fold (resolve_id stale now) adv
      \<lparr>ri_out = [], ri_claimed = [], ri_remembered = rem\<rparr>)) i = Some m"
    using resolve_ids_claimed by (auto simp: x resolve_ids_def Let_def)
  with n(2) show "m = n" by simp
qed

section \<open>Lemmas on the configuration\<close>

lemma validate_daemons_iff:
  "validate_daemons seen ds = Inr () \<longleftrightarrow>
     (\<forall>d \<in> set ds. de_name d \<noteq> [] \<and> de_device d \<noteq> [] \<and> de_auth_token d \<noteq> [] \<and> de_name d \<notin> set seen) \<and>
     distinct (map de_name ds)"
  by (induction ds arbitrary: seen) (auto simp: image_iff)

interpretation entries: named_sources "\<lambda>ds. validate_daemons [] ds = Inr ()" de_name
  by unfold_locales (simp add: validate_daemons_iff)

section \<open>Lemmas on the wanted routes\<close>

lemma daemon_specs_snoc:
  "daemon_specs (es @ [d]) view ids sb =
     (case hm_get view (de_name d) of
        None \<Rightarrow> daemon_specs es view ids sb
      | Some leases \<Rightarrow>
          (case mark_for sb ids (de_name d) of
             None \<Rightarrow> daemon_specs es view ids sb
           | Some fwmark \<Rightarrow> push_specs d (l_ips leases) fwmark (daemon_specs es view ids sb)))"
  by (simp add: daemon_specs_def split: option.split)

lemma daemon_specs_iff:
  "sp \<in> set (daemon_specs es view ids sb) \<longleftrightarrow>
     (\<exists>d \<in> set es. \<exists>l f. hm_get view (de_name d) = Some l \<and> mark_for sb ids (de_name d) = Some f \<and>
        (\<exists>ip \<in> set (l_ips l). sp = \<lparr>sp_src = ip, sp_gateway = de_nexthop d, sp_iface = de_device d, sp_fwmark = f\<rparr>))"
proof (induction es rule: rev_induct)
  case Nil
  then show ?case by (simp add: daemon_specs_def)
next
  case (snoc d es)
  show ?case
    by (cases "hm_get view (de_name d)"; cases "mark_for sb ids (de_name d)")
      (auto simp: daemon_specs_snoc push_specs_def snoc)
qed

lemma gateway_specs_iff:
  "sp \<in> set (build_gateway_specs ds overrides ids sb) \<longleftrightarrow>
     (\<exists>d \<in> set ds. \<exists>f. mark_for sb ids (r_name d) = Some f \<and>
        (\<exists>ip \<in> set (r_ips d). sp = \<lparr>sp_src = ip, sp_gateway = r_nexthop d,
           sp_iface = (case hm_get overrides (r_name d) of Some dev \<Rightarrow> dev | None \<Rightarrow> r_device d),
           sp_fwmark = f\<rparr>))"
proof (induction ds)
  case (Cons d ds)
  then show ?case by (cases "mark_for sb ids (r_name d)") (auto simp: Let_def)
qed simp

text \<open>A mark on a wanted route is the id of a daemon.\<close>

lemma mark_for_Some:
  "mark_for sb ids n = Some (Some k) \<longleftrightarrow> \<not> sb \<and> (\<exists>i. hm_get ids n = Some i \<and> k = ucast i)"
  by (auto simp: mark_for_def split: option.splits)

definition marks_are_ids :: "(string, u8) hashmap \<Rightarrow> RouteSpec list \<Rightarrow> bool" where
  "marks_are_ids ids desired \<longleftrightarrow>
     (\<forall>sp \<in> set desired. \<forall>k. sp_fwmark sp = Some k \<longrightarrow> (\<exists>n i. hm_get ids n = Some i \<and> k = ucast i))"

lemma specs_marks:
  "marks_are_ids ids (daemon_specs es view ids sb)"
  "marks_are_ids ids (build_gateway_specs ds overrides ids sb)"
  by (auto simp: marks_are_ids_def daemon_specs_iff gateway_specs_iff) (metis mark_for_Some)+

section \<open>Lemmas on the datapath\<close>

text \<open>
  What the code relies on of the BPF map, with \<open>look\<close> the content of the map: a remove changes at most its
  key, which it makes absent, and may fail; a successful insert sets the entry and a failed one changes
  nothing. Nothing is assumed of the listing of the keys, whose errors the code skips.
\<close>

definition ids_map_laws :: "'m ids_map \<Rightarrow> ('m \<Rightarrow> u8 \<Rightarrow> u32 option) \<Rightarrow> bool" where
  "ids_map_laws M look \<longleftrightarrow>
     (\<forall>i m. look (snd (im_remove M i m)) \<in> {look m, (look m)(i := None)}) \<and>
     (\<forall>i v m. look (snd (im_insert M i v m)) =
        (if isl (fst (im_insert M i v m)) then look m else (look m)(i \<mapsto> v)))"

lemma insert_ids_look:
  assumes "ids_map_laws M look" "insert_ids M ids m = (Inr (), m')"
  shows "look m' i = (if i \<in> set ids then Some (ucast i) else look m i)"
  using assms(2)
proof (induction ids arbitrary: m)
  case (Cons x ids)
  obtain r m1 where r: "im_insert M x (ucast x) m = (r, m1)" by (cases "im_insert M x (ucast x) m")
  with Cons.prems have ok: "\<not> isl r" "insert_ids M ids m1 = (Inr (), m')"
    by (auto split: sum.splits)
  moreover have "look m1 = (look m)(x \<mapsto> ucast x)"
    using assms(1) r ok(1) unfolding ids_map_laws_def by (metis fst_conv snd_conv)
  ultimately show ?case using Cons.IH by auto
qed simp

lemma sync_ids_look:
  assumes "ids_map_laws M look" "sync_ids M ids m = (Inr (), m')" "i \<in> set ids"
  shows "look m' i = Some (ucast i)"
proof -
  obtain m1 where "insert_ids M ids m1 = (Inr (), m')"
    using assms(2) by (auto simp: sync_ids_def Let_def split: if_splits)
  with insert_ids_look [OF assms(1)] assms(3) show ?thesis by simp
qed

section \<open>Lemmas on the passes\<close>

lemma pair_pair_exhaust: obtains a b c where "x = ((a, b), c)"
  by (metis surj_pair)

text \<open>Every pass ends in \<open>apply_pass\<close>, with ids from \<open>resolve_ids\<close> and routes marked with them.\<close>

lemma reconcile_once_apply:
  assumes "reconcile_once E cfg now1 now2 st s = r"
  obtains stats adv ids desired st1 where
    "r = apply_pass E stats ids desired st1 s" "st_datapath st1 = st_datapath st"
    "ids = fst (resolve_ids adv (st_known_ids st) (from_secs (stale_after_secs cfg)) now2)"
    "marks_are_ids ids desired"
proof (cases "gateway cfg")
  case None
  let ?stale = "from_secs (stale_after_secs cfg)"
  let ?round = "zip (map de_name (cfg_daemons cfg)) (map (\<lambda>d. fetch_leases (re_http E) (re_json_leases E)
    (de_endpoint d) (de_auth_token d) (de_name d)) (cfg_daemons cfg))"
  obtain stats view cache' where ar: "apply_round now1 ?round ?stale (st_cache st) = ((stats, view), cache')"
    by (rule pair_pair_exhaust)
  let ?adv = "map (\<lambda>d. (de_name d, Option.bind (hm_get view (de_name d)) l_dumbarpd_id)) (cfg_daemons cfg)"
  obtain ids known' where ri: "resolve_ids ?adv (st_known_ids st) ?stale now2 = (ids, known')"
    by (rule prod.exhaust)
  have "r = apply_pass E stats ids (daemon_specs (cfg_daemons cfg) view ids (source_based_routing cfg))
      (st\<lparr>st_cache := cache', st_known_ids := known'\<rparr>) s"
    using assms None by (simp add: reconcile_once_def reconcile_via_daemons_def ar ri)
  then show thesis by (rule that [of _ _ _ _ ?adv]) (simp_all add: ri specs_marks)
next
  case (Some gw)
  let ?stale = "from_secs (stale_after_secs cfg)"
  let ?fetched = "fetch_daemons (re_http E) (re_json_daemons E) (ge_endpoint gw) (ge_auth_token gw) GATEWAY_CACHE_KEY"
  obtain stats view cache' where
    ar: "apply_round now1 [(GATEWAY_CACHE_KEY, ?fetched)] ?stale (st_gateway_cache st) = ((stats, view), cache')"
    by (rule pair_pair_exhaust)
  let ?routes = "case hm_get view GATEWAY_CACHE_KEY of Some ds \<Rightarrow> ds | None \<Rightarrow> []"
  let ?adv = "map (\<lambda>d. (r_name d, r_dumbarpd_id d)) ?routes"
  obtain ids known' where ri: "resolve_ids ?adv (st_known_ids st) ?stale now2 = (ids, known')"
    by (rule prod.exhaust)
  have "r = apply_pass E stats ids
      (build_gateway_specs ?routes (ge_device_overrides gw) ids (source_based_routing cfg))
      (st\<lparr>st_gateway_cache := cache', st_known_ids := known'\<rparr>) s"
    using assms Some by (simp add: reconcile_once_def reconcile_via_gateway_def ar ri)
  then show thesis by (rule that [of _ _ _ _ ?adv]) (simp_all add: ri specs_marks)
qed

lemma apply_pass_unfold:
  assumes "apply_pass E stats ids desired st1 s = (rep, st', s')"
  shows "pr_desired rep = desired"
    and "sync_ids (re_ids E) (re_iter_ids E (remdups (map snd ids))) (st_datapath st1) = (pr_sync rep, st_datapath st')"
    and "reconcile (re_netlink E) (re_iter_tables E) desired s = (pr_routes rep, pr_warnings rep, s')"
  using assms by (auto simp: apply_pass_def sync_datapath_def Let_def split: prod.splits)

text \<open>A concrete map: an association list that holds at most 64 entries.\<close>

definition list_ids_map :: "(u8, u32) hashmap ids_map" where
  "list_ids_map =
     \<lparr>im_found = (\<lambda>m. True), im_keys = (\<lambda>m. map (Inr \<circ> fst) m),
      im_remove = (\<lambda>i m. (Inr (), hm_remove i m)),
      im_insert = (\<lambda>i v m. if 64 \<le> length m \<and> hm_get m i = None then (Inl (), m) else (Inr (), hm_insert i v m))\<rparr>"

lemma list_ids_map_laws: "ids_map_laws list_ids_map hm_get"
  by (auto simp: ids_map_laws_def list_ids_map_def dom_map_of_conv_image_fst update_conv' delete_conv')

text \<open>A router that polls one daemon, whose answer is the response itself.\<close>

definition sample_router_env :: "(unit, LeasesResponse, (u8, u32) hashmap, list_kernel) router_env" where
  "sample_router_env =
     \<lparr>re_http = \<lparr>url_join = (\<lambda>u p. Some u),
        send_get = (\<lambda>u t. if t = ''tok'' then Some \<lparr>lr_ips = [''110.13.196.173''], lr_dumbarpd_id = Some 2\<rparr> else None),
        error_for_status = Some\<rparr>,
      re_json_leases = Some, re_json_daemons = (\<lambda>_. None), re_ids = list_ids_map,
      re_read_slot = (\<lambda>m slot. Some [1, 2]), re_netlink = list_netlink,
      re_iter_tables = (\<lambda>ts. ts), re_iter_ids = (\<lambda>is. is)\<rparr>"

definition sample_config :: "unit Config" where
  "sample_config =
     \<lparr>refresh_interval_secs = default_refresh, stale_after_secs = default_stale, source_based_routing = False,
      cfg_daemons = [\<lparr>de_name = ''homelab'', de_endpoint = (), de_auth_token = ''tok'', de_nexthop = (10, 0, 0, 5),
        de_device = ''br0''\<rparr>],
      gateway = None, dscp = \<lparr>ifaces = [''eth0'']\<rparr>\<rparr>"

definition sample_state :: "(u8, u32) hashmap RouterState" where
  "sample_state = \<lparr>st_cache = [], st_gateway_cache = [], st_datapath = [(9, 9)], st_known_ids = []\<rparr>"

definition sample_once :: "pass_report \<times> (u8, u32) hashmap RouterState \<times> list_kernel" where
  "sample_once = reconcile_once sample_router_env sample_config 0 0 sample_state ([], [])"

definition sample_spec :: RouteSpec where
  "sample_spec = \<lparr>sp_src = (110, 13, 196, 173), sp_gateway = (10, 0, 0, 5), sp_iface = ''br0'', sp_fwmark = Some 2\<rparr>"

lemma sample_env:
  "re_netlink sample_router_env = list_netlink" "re_ids sample_router_env = list_ids_map"
  "re_iter_tables sample_router_env = (\<lambda>ts. ts)" "re_iter_ids sample_router_env = (\<lambda>is. is)"
  by (simp_all add: sample_router_env_def)

lemma sample_fetch:
  "fetch_leases (re_http sample_router_env) (re_json_leases sample_router_env) () ''tok'' ''homelab'' =
     Inr \<lparr>l_ips = [(110, 13, 196, 173)], l_dumbarpd_id = Some 2\<rparr>"
  by code_simp

lemma sample_pass_eq:
  "\<exists>stats cache known. reconcile_once sample_router_env sample_config now1 now2 st s =
     apply_pass sample_router_env stats [(''homelab'', 2)] [sample_spec] (st\<lparr>st_cache := cache, st_known_ids := known\<rparr>) s"
  unfolding reconcile_once_def reconcile_via_daemons_def Let_def sample_config_def
  by (simp add: sample_fetch apply_round_def apply_result_def snapshot_def
      resolve_ids_def resolve_id_eq candidate_def valid_id_def DSCP_ID_MAX_def daemon_specs_def mark_for_def
      push_specs_def sample_spec_def split: prod.split) blast

lemma sample_once_eq:
  "\<exists>stats cache known. sample_once = apply_pass sample_router_env stats [(''homelab'', 2)] [sample_spec]
     (sample_state\<lparr>st_cache := cache, st_known_ids := known\<rparr>) ([], [])"
  unfolding sample_once_def by (rule sample_pass_eq)

lemma sample_apply_eval:
  "pr_sync (fst (apply_pass sample_router_env stats [(''homelab'', 2)] [sample_spec]
     (sample_state\<lparr>st_cache := cache, st_known_ids := known\<rparr>) ([], []))) = Inr ()"
  "pr_routes (fst (apply_pass sample_router_env stats [(''homelab'', 2)] [sample_spec]
     (sample_state\<lparr>st_cache := cache, st_known_ids := known\<rparr>) ([], []))) = Inr ()"
  "pr_warnings (fst (apply_pass sample_router_env stats [(''homelab'', 2)] [sample_spec]
     (sample_state\<lparr>st_cache := cache, st_known_ids := known\<rparr>) ([], []))) = []"
  by code_simp+

lemma sample_once_eval:
  "pr_sync (fst sample_once) = Inr ()" "pr_routes (fst sample_once) = Inr ()"
  "pr_desired (fst sample_once) = [sample_spec]" "pr_warnings (fst sample_once) = []"
  using sample_once_eq sample_apply_eval apply_pass_unfold(1) by (metis prod.collapse)+

lemma marks_nonzero:
  assumes "marks_are_ids (fst (resolve_ids adv known stale now)) desired"
  shows "\<forall>sp \<in> set desired. sp_fwmark sp \<noteq> Some 0"
proof (intro ballI notI)
  fix x assume "x \<in> set desired" "sp_fwmark x = Some 0"
  then obtain n i where "hm_get (fst (resolve_ids adv known stale now)) n = Some i" "0 = (ucast i :: u32)"
    using assms unfolding marks_are_ids_def by blast
  then show False using ids.mark_nonzero [of "(adv, known, stale, now)" n] by simp
qed

text \<open>A mark among the wanted routes is a daemon id, and after a clean sync the classifier's map has it.\<close>

lemma marked_id_synced:
  assumes "iter_ok (re_iter_ids E)" "ids_map_laws (re_ids E) look"
    and "reconcile_once E cfg now1 now2 st s = (rep, st', s')" "pr_sync rep = Inr ()"
    and "sp \<in> set (pr_desired rep)" "sp_fwmark sp = Some k"
  shows "\<exists>i. valid_id i \<and> k = ucast i \<and> look (st_datapath st') i = Some k"
proof -
  obtain stats adv ids desired st1 where ap: "apply_pass E stats ids desired st1 s = (rep, st', s')"
    and ids: "ids = fst (resolve_ids adv (st_known_ids st) (from_secs (stale_after_secs cfg)) now2)"
    and marks: "marks_are_ids ids desired"
    using reconcile_once_apply [OF assms(3)] by metis
  note u = apply_pass_unfold [OF ap]
  obtain n i where i: "hm_get ids n = Some i" "k = ucast i"
    using marks assms(5,6) unfolding u(1) marks_are_ids_def by blast
  have "valid_id i"
    using ids.assigned_valid [of "(adv, st_known_ids st, from_secs (stale_after_secs cfg), now2)" n i] i(1)
    by (simp add: ids)
  moreover have "i \<in> set (re_iter_ids E (remdups (map snd ids)))"
  proof -
    have "mset (re_iter_ids E (remdups (map snd ids))) = mset (remdups (map snd ids))"
      using assms(1) by (simp add: iter_ok_def)
    then have "set (re_iter_ids E (remdups (map snd ids))) = set (map snd ids)"
      using mset_eq_setD by fastforce
    moreover have "i \<in> set (map snd ids)" using i(1) by (force dest: map_of_SomeD)
    ultimately show ?thesis by simp
  qed
  with u(2) have "look (st_datapath st') i = Some k"
    using sync_ids_look [OF assms(2)] assms(4) i(2) by simp
  ultimately show ?thesis using i(2) by blast
qed

text \<open>A pass over the gateway that fetched its answer wants the routes of this answer.\<close>

lemma gateway_pass_wants:
  assumes "gateway cfg = Some gw" "reconcile_once E cfg now1 now2 st s = (rep, st', s')"
    and "fetch_daemons (re_http E) (re_json_daemons E) (ge_endpoint gw) (ge_auth_token gw) GATEWAY_CACHE_KEY = Inr routes"
  shows "pr_desired rep = build_gateway_specs routes (ge_device_overrides gw)
    (fst (resolve_ids (map (\<lambda>d. (r_name d, r_dumbarpd_id d)) routes) (st_known_ids st) (from_secs (stale_after_secs cfg)) now2))
    (source_based_routing cfg)"
proof -
  let ?stale = "from_secs (stale_after_secs cfg)"
  let ?round = "[(GATEWAY_CACHE_KEY, Inr routes :: api_error + DaemonRoutes list)]"
  obtain stats view cache' where ar: "apply_round now1 ?round ?stale (st_gateway_cache st) = ((stats, view), cache')"
    by (rule pair_pair_exhaust)
  have "hm_get view GATEWAY_CACHE_KEY = Some routes"
    using cache.view_success [of ?round GATEWAY_CACHE_KEY routes now1 ?stale "st_gateway_cache st"]
      apply_round_view [of now1 ?round ?stale "st_gateway_cache st"] by (simp add: ar)
  then show ?thesis
    using assms(1,2) apply_pass_unfold(1)
    by (auto simp: reconcile_once_def reconcile_via_gateway_def assms(3) ar Let_def split: prod.splits)
qed

section \<open>Properties\<close>

text \<open>
  C19. A pass installs what steers marked traffic. When a pass reports no error for the datapath and
  the routes, then for every wanted route that carries a mark, whose interface resolves, whose
  table no other wanted route uses and for whose table no request failed: the mark is a valid
  daemon id (1 to 63), the classifier's map \<open>DSCP_IDS\<close> gives that mark to packets tagged with the id,
  the table has exactly the rule for this source and this mark under the exact mask, and exactly the
  on-link route to the daemon's next hop.
\<close>

theorem marked_route_installed:
  assumes "netlink_laws (re_netlink E)" "iter_ok (re_iter_tables E)" "iter_ok (re_iter_ids E)"
    and "ids_map_laws (re_ids E) look" "routes_wf (re_netlink E) s"
    and "reconcile_once E cfg now1 now2 st s = (rep, st', s')"
    and "pr_sync rep = Inr ()" "pr_routes rep = Inr ()"
    and "sp \<in> set (pr_desired rep)" "sp_fwmark sp = Some k" "t = table_id_for (sp_src sp)"
    and "\<forall>sp' \<in> set (pr_desired rep). table_id_for (sp_src sp') = t \<longrightarrow> sp' = sp"
    and "ifindex (re_netlink E) s (sp_iface sp) = Inr idx"
    and "\<forall>w \<in> set (pr_warnings rep). failed_table w \<noteq> Some t"
  shows "\<exists>i. valid_id i \<and> k = ucast i \<and> look (st_datapath st') i = Some k \<and>
    rules_at (re_netlink E) s' t =
      {#\<lparr>cr_src = sp_src sp, cr_fwmark = Some k, cr_fwmask = Some FWMASK_EXACT\<rparr>#} \<and>
    routes_at (re_netlink E) s' t =
      {#\<lparr>ct_gateway = sp_gateway sp, ct_oif = idx, ct_onlink = True\<rparr>#}"
proof -
  obtain stats adv ids desired st1 where ap: "apply_pass E stats ids desired st1 s = (rep, st', s')"
    and ids: "ids = fst (resolve_ids adv (st_known_ids st) (from_secs (stale_after_secs cfg)) now2)"
    and marks: "marks_are_ids ids desired"
    using reconcile_once_apply [OF assms(6)] by metis
  note u = apply_pass_unfold [OF ap]
  note nz = marks_nonzero [OF marks [unfolded ids]]
  have "\<exists>i. valid_id i \<and> k = ucast i \<and> look (st_datapath st') i = Some k"
    by (rule marked_id_synced [OF assms(3,4,6,7,9,10)])
  moreover have "in_sync (re_netlink E) s' t (wanted (re_netlink E) s desired t)"
    using reconcile_effect [OF assms(1,2,5) nz u(3) [unfolded assms(8)], of t] assms(14) by simp
  moreover have "wanted (re_netlink E) s desired t =
      Some \<lparr>rs_src = sp_src sp, rs_gateway = sp_gateway sp, rs_ifindex = idx, rs_fwmark = Some k\<rparr>"
  proof -
    have "sp \<in> set desired" using assms(9) unfolding u(1) .
    moreover have "sp' = sp" if "sp' \<in> set desired" "table_id_for (sp_src sp') = table_id_for (sp_src sp)" for sp'
      using assms(11,12) that unfolding u(1) by blast
    ultimately show ?thesis
      using wanted_unique [of sp desired "re_netlink E" s idx] assms(13) unfolding assms(10,11) by blast
  qed
  ultimately show ?thesis
    by (auto simp: in_sync_def rule_for_def route_for_def expected_fwmask_def)
qed

theorem marked_route_installed_witness:
  "\<exists>i. valid_id i \<and> 2 = (ucast i :: u32) \<and> hm_get (st_datapath (fst (snd sample_once))) i = Some 2 \<and>
    rules_at list_netlink (snd (snd sample_once)) (table_id_for (110, 13, 196, 173)) =
      {#\<lparr>cr_src = (110, 13, 196, 173), cr_fwmark = Some 2, cr_fwmask = Some FWMASK_EXACT\<rparr>#} \<and>
    routes_at list_netlink (snd (snd sample_once)) (table_id_for (110, 13, 196, 173)) =
      {#\<lparr>ct_gateway = (10, 0, 0, 5), ct_oif = 7, ct_onlink = True\<rparr>#}"
proof -
  have idx: "ifindex list_netlink ([], []) (sp_iface sample_spec) = Inr 7" by code_simp
  have once: "reconcile_once sample_router_env sample_config 0 0 sample_state ([], []) =
      (fst sample_once, fst (snd sample_once), snd (snd sample_once))"
    by (simp add: sample_once_def)
  have it: "iter_ok (\<lambda>ts :: u32 list. ts)" "iter_ok (\<lambda>is :: u8 list. is)"
    by (simp_all add: iter_ok_def)
  have sp: "sample_spec \<in> set (pr_desired (fst sample_once))" "sp_fwmark sample_spec = Some 2"
    "table_id_for (110, 13, 196, 173) = table_id_for (sp_src sample_spec)"
    "\<forall>sp' \<in> set (pr_desired (fst sample_once)).
       table_id_for (sp_src sp') = table_id_for (110, 13, 196, 173) \<longrightarrow> sp' = sample_spec"
    "\<forall>w \<in> set (pr_warnings (fst sample_once)). failed_table w \<noteq> Some (table_id_for (110, 13, 196, 173))"
    by (simp_all add: sample_once_eval) (simp_all add: sample_spec_def)
  have src: "sp_src sample_spec = (110, 13, 196, 173)" "sp_gateway sample_spec = (10, 0, 0, 5)"
    by (simp_all add: sample_spec_def)
  show ?thesis
    by (rule marked_route_installed [of sample_router_env, unfolded sample_env, OF sample_hyps(1) it
          list_ids_map_laws sample_hyps(3) once sample_once_eval(1,2) sp(1-4) idx sp(5), unfolded src])
qed

text \<open>
  Ids are handed out first come, first served. When the daemons' names are distinct, a daemon
  gets an id exactly when that id is its candidate (the one it advertises or, when it advertises
  none, the one remembered for it less than \<open>stale\<close> ago), the id is between 1 and \<open>DSCP_ID_MAX\<close>, and
  no daemon before it in the list has the same candidate.
\<close>

theorem resolve_ids_first_come:
  assumes "distinct (map fst adv)"
  shows "hm_get (fst (resolve_ids adv remembered stale now)) n = Some i \<longleftrightarrow>
    (\<exists>pre a post. adv = pre @ (n, a) # post \<and> candidate stale now n a remembered = Some i \<and>
       i \<noteq> 0 \<and> i \<le> DSCP_ID_MAX \<and>
       (\<forall>(m, b) \<in> set pre. candidate stale now m b remembered \<noteq> Some i))"
  using resolve_ids_grants [OF assms, of remembered stale now n i]
  by (simp add: grants_def valid_id_def cand_of_def case_prod_beta)

theorem resolve_ids_first_come_witness:
  "hm_get (fst (resolve_ids [(''a'', Some 5), (''b'', Some 5), (''c'', None)]
     [(''c'', \<lparr>rid = 7, seen_at = 1\<rparr>)] 10 4)) ''c'' = Some 7"
  using resolve_ids_first_come [of "[(''a'', Some 5), (''b'', Some 5), (''c'', None)]"
      "[(''c'', \<lparr>rid = 7, seen_at = 1\<rparr>)]" 10 4 "''c''" 7]
  by (simp add: resolve_ids_def resolve_id_eq candidate_def valid_id_def const_defs)

text \<open>
  C22. No two daemons ever share an id, and every id is between 1 and \<open>DSCP_ID_MAX\<close>, whatever the
  daemons advertise and whatever is remembered, even when names repeat.
\<close>

theorem ids_never_shared:
  assumes "hm_get (fst (resolve_ids adv remembered stale now)) n = Some i"
  shows "i \<noteq> 0 \<and> i \<le> DSCP_ID_MAX \<and>
    (hm_get (fst (resolve_ids adv remembered stale now)) m = Some i \<longrightarrow> m = n)"
  using ids.assigned_valid [of "(adv, remembered, stale, now)" n i]
    ids.assigned_inj [of "(adv, remembered, stale, now)" n i m] assms
  by (simp add: valid_id_def)

theorem ids_never_shared_witness:
  "hm_get (fst (resolve_ids [(''a'', Some 5), (''b'', Some 5)] [] 10 4)) ''b'' \<noteq> Some 5"
  using ids_never_shared [of "[(''a'', Some 5), (''b'', Some 5)]" "[]" 10 4 "''a''" 5 "''b''"]
  by (simp add: resolve_ids_def resolve_id_eq candidate_def valid_id_def const_defs)

lemma resolve_ids_memory_loop:
  fixes adv rem stale now
  defines "st \<equiv> fold (resolve_id stale now) adv \<lparr>ri_out = [], ri_claimed = [], ri_remembered = rem\<rparr>"
  assumes "hm_ok rem"
  shows "hm_ok (ri_remembered st) \<and>
    (hm_get (ri_remembered st) n = Some r \<longrightarrow>
      hm_get rem n = Some r \<or> seen_at r = now \<and> valid_id (rid r) \<and> (n, Some (rid r)) \<in> set adv)"
  unfolding st_def
proof (induction adv arbitrary: n r rule: rev_induct)
  case Nil
  then show ?case using assms(2) by simp
next
  case (snoc x adv)
  obtain m a where x: "x = (m, a)" by (cases x)
  from snoc show ?case
    by (auto simp: x resolve_id_eq split: option.split)
qed

text \<open>
  What is remembered stays true. After a resolution every remembered id is less than \<open>stale\<close>
  old, and it is either one that was remembered before or one that the daemon has just advertised
  itself, valid and stamped with the present instant. Reusing a remembered id never renews it.
\<close>

theorem remembered_ids_fresh:
  assumes "hm_ok remembered"
    and "hm_get (snd (resolve_ids adv remembered stale now)) n = Some r"
  shows "now - seen_at r < stale \<and>
    (hm_get remembered n = Some r \<or>
     seen_at r = now \<and> rid r \<noteq> 0 \<and> rid r \<le> DSCP_ID_MAX \<and> (n, Some (rid r)) \<in> set adv)"
proof -
  let ?st = "fold (resolve_id stale now) adv \<lparr>ri_out = [], ri_claimed = [], ri_remembered = remembered\<rparr>"
  note m = resolve_ids_memory_loop [OF assms(1), of stale now adv n r]
  have "hm_get (hm_retain (\<lambda>_ prev. now - seen_at prev < stale) (ri_remembered ?st)) n = Some r"
    using assms(2) by (simp add: resolve_ids_def Let_def)
  with m have "hm_get (ri_remembered ?st) n = Some r" "now - seen_at r < stale"
    by (auto simp: hm_get_retain split: option.splits if_splits)
  with m show ?thesis by (simp add: valid_id_def)
qed

theorem remembered_ids_fresh_witness:
  "(4 :: nat) - 4 < 10 \<and> (hm_get ([] :: (string, RememberedId) hashmap) ''a'' = Some \<lparr>rid = 5, seen_at = 4\<rparr> \<or>
     (5 :: u8) \<noteq> 0 \<and> 5 \<le> DSCP_ID_MAX \<and> (''a'', Some (5 :: u8)) \<in> set [(''a'', Some 5), (''b'', Some 5)])"
  using remembered_ids_fresh [of "[]" "[(''a'', Some 5), (''b'', Some 5)]" 10 4 "''a''" "\<lparr>rid = 5, seen_at = 4\<rparr>"]
  by (simp add: resolve_ids_def resolve_id_eq candidate_def valid_id_def const_defs hm_retain_def)

text \<open>
  The configuration check accepts exactly the configurations it documents: one source of
  daemons and not both, non-empty tokens, a positive refresh interval, a staleness bound not below
  it, at least one interface, and daemons with non-empty, pairwise different names and non-empty
  devices.
\<close>

theorem validate_accepts:
  "validate cfg = Inr () \<longleftrightarrow>
     (gateway cfg \<noteq> None \<longleftrightarrow> cfg_daemons cfg = []) \<and>
     pred_option (\<lambda>gw. ge_auth_token gw \<noteq> []) (gateway cfg) \<and>
     refresh_interval_secs cfg \<noteq> 0 \<and> refresh_interval_secs cfg \<le> stale_after_secs cfg \<and>
     ifaces (dscp cfg) \<noteq> [] \<and>
     list_all (\<lambda>d. de_name d \<noteq> [] \<and> de_device d \<noteq> [] \<and> de_auth_token d \<noteq> []) (cfg_daemons cfg) \<and>
     distinct (map de_name (cfg_daemons cfg))"
  by (cases "gateway cfg") (auto simp: validate_def validate_daemons_iff list_all_iff not_less)

text \<open>
  C23. What a pass that polls the daemons wants. A route is wanted exactly when some configured daemon
  is served by the cache with that source among its leases, through that daemon's next hop and
  device; with source-based routing it carries no mark, and otherwise it carries the id resolved for
  that daemon, daemons without an id being left out.
\<close>

theorem daemons_pass_wants_leases:
  assumes "gateway cfg = None" "reconcile_once E cfg now1 now2 st s = (rep, st', s')"
    and "leases = snapshot (st_cache st')"
    and "ids = fst (resolve_ids
      (map (\<lambda>d. (de_name d, Option.bind (hm_get leases (de_name d)) l_dumbarpd_id)) (cfg_daemons cfg))
      (st_known_ids st) (from_secs (stale_after_secs cfg)) now2)"
  shows "sp \<in> set (pr_desired rep) \<longleftrightarrow>
    (\<exists>d \<in> set (cfg_daemons cfg). \<exists>l. hm_get leases (de_name d) = Some l \<and> sp_src sp \<in> set (l_ips l) \<and>
       sp_gateway sp = de_nexthop d \<and> sp_iface sp = de_device d \<and>
       (if source_based_routing cfg then sp_fwmark sp = None
        else \<exists>i. hm_get ids (de_name d) = Some i \<and> sp_fwmark sp = Some (ucast i)))"
proof -
  let ?stale = "from_secs (stale_after_secs cfg)"
  let ?round = "zip (map de_name (cfg_daemons cfg)) (map (\<lambda>d. fetch_leases (re_http E) (re_json_leases E)
    (de_endpoint d) (de_auth_token d) (de_name d)) (cfg_daemons cfg))"
  obtain stats view cache' where ar: "apply_round now1 ?round ?stale (st_cache st) = ((stats, view), cache')"
    by (rule pair_pair_exhaust)
  have view: "view = snapshot cache'"
    using apply_round_view [of now1 ?round ?stale "st_cache st"] by (simp add: ar)
  let ?adv = "map (\<lambda>d. (de_name d, Option.bind (hm_get view (de_name d)) l_dumbarpd_id)) (cfg_daemons cfg)"
  obtain ids' known' where ri: "resolve_ids ?adv (st_known_ids st) ?stale now2 = (ids', known')"
    by (rule prod.exhaust)
  have ap: "apply_pass E stats ids' (daemon_specs (cfg_daemons cfg) view ids' (source_based_routing cfg))
      (st\<lparr>st_cache := cache', st_known_ids := known'\<rparr>) s = (rep, st', s')"
    using assms(1,2) by (simp add: reconcile_once_def reconcile_via_daemons_def ar ri)
  have "st_cache st' = cache'"
    using ap by (auto simp: apply_pass_def sync_datapath_def Let_def split: prod.splits)
  then have eq: "leases = view" "ids = ids'" using assms(3,4) view ri by simp_all
  have mf: "mark_for (source_based_routing cfg) ids' n = Some f \<longleftrightarrow>
      (if source_based_routing cfg then f = None else \<exists>i. hm_get ids' n = Some i \<and> f = Some (ucast i))" for n f
    by (auto simp: mark_for_def split: option.splits)
  show ?thesis
    unfolding apply_pass_unfold(1) [OF ap] daemon_specs_iff mf eq
    by (cases sp) (auto split: if_splits)
qed

theorem daemons_pass_wants_leases_witness:
  "sample_spec \<in> set (pr_desired (fst sample_once)) \<longleftrightarrow>
    (\<exists>d \<in> set (cfg_daemons sample_config). \<exists>l.
       hm_get (snapshot (st_cache (fst (snd sample_once)))) (de_name d) = Some l \<and>
       sp_src sample_spec \<in> set (l_ips l) \<and>
       sp_gateway sample_spec = de_nexthop d \<and> sp_iface sample_spec = de_device d \<and>
       (if source_based_routing sample_config then sp_fwmark sample_spec = None
        else \<exists>i. hm_get (fst (resolve_ids
            (map (\<lambda>d. (de_name d, Option.bind (hm_get (snapshot (st_cache (fst (snd sample_once)))) (de_name d))
               l_dumbarpd_id)) (cfg_daemons sample_config))
            (st_known_ids sample_state) (from_secs (stale_after_secs sample_config)) 0)) (de_name d) = Some i \<and>
          sp_fwmark sample_spec = Some (ucast i)))"
proof (rule daemons_pass_wants_leases [OF _ _ refl refl])
  show "gateway sample_config = None" by (simp add: sample_config_def)
  show "reconcile_once sample_router_env sample_config 0 0 sample_state ([], []) =
      (fst sample_once, fst (snd sample_once), snd (snd sample_once))"
    by (simp add: sample_once_def)
qed

end
