(* ===== verification/Http_Auth.thy ===== *)
theory Http_Auth
  imports Rust_Std
begin

text \<open>
  What the two HTTP services share: requests, responses, the bytes of a string, and the contract of a
  bearer-token guard as the locale \<open>bearer_guard\<close>. The daemon and the gateway each have their own copy
  of the guard in the sources; each copy is modelled in its own theory and interprets the locale.
\<close>

text \<open>
  The \<open>Authorization\<close> header of a request: absent, present but not text (\<open>HeaderValue::to_str\<close> fails),
  or a text.
\<close>

type_synonym auth_header = "(unit + string) option"

datatype 'b response = Unauthorized | Answer 'b

text \<open>\<open>str::as_bytes\<close>; a string of the model is the list of its bytes.\<close>

definition as_bytes :: "string \<Rightarrow> u8 list" where
  "as_bytes s = map (\<lambda>c. of_nat (of_char c)) s"

lemma char_lt_256: "(of_char c :: nat) < 256"
proof -
  have "(of_char c :: nat) mod 256 = of_char c" by simp
  then show ?thesis by (metis mod_less_divisor zero_less_numeral)
qed

lemma u8_of_nat: "n < 256 \<Longrightarrow> unat (of_nat n :: u8) = n"
  by (simp add: unat_of_nat)

lemma as_bytes_inj [simp]: "as_bytes s = as_bytes t \<longleftrightarrow> s = t"
proof -
  have "c = d" if "(of_nat (of_char c) :: u8) = of_nat (of_char d)" for c d :: char
  proof -
    have "unat (of_nat (of_char c) :: u8) = unat (of_nat (of_char d) :: u8)"
      using that by (rule arg_cong)
    then have "(of_char c :: nat) = of_char d"
      unfolding u8_of_nat [OF char_lt_256] .
    then show ?thesis by simp
  qed
  then have "inj (\<lambda>c. of_nat (of_char c) :: u8)" by (rule injI)
  then show ?thesis by (simp add: as_bytes_def inj_map_eq_map)
qed

text \<open>The comparison without early exit: all differences are collected before the verdict.\<close>

lemma or_xor_fold_zero:
  "foldl (\<lambda>d (x, y). d OR (x XOR y)) acc (zip a b) = (0 :: u8) \<longleftrightarrow>
     acc = 0 \<and> (\<forall>(x, y) \<in> set (zip a b). x = y)"
proof (induction a arbitrary: b acc)
  case (Cons x a)
  have "acc OR (x XOR y) = 0 \<longleftrightarrow> acc = 0 \<and> x = y" for y
  proof -
    have "x XOR y = 0 \<longleftrightarrow> x = y"
      by (metis bit.xor_left_self xor_self_eq xor.right_neutral)
    then show ?thesis by (simp add: or_eq_0_iff)
  qed
  with Cons.IH show ?case by (cases b) auto
qed simp

lemma zip_all_eq: "length a = length b \<Longrightarrow> (\<forall>(x, y) \<in> set (zip a b). x = y) \<longleftrightarrow> a = b"
  by (auto simp: list_eq_iff_zip_eq case_prod_beta)

section \<open>The contract of a guard\<close>

locale bearer_guard =
  fixes guard :: "string \<Rightarrow> auth_header \<Rightarrow> 'b \<Rightarrow> 'b response"
  assumes guard_eq: "guard secret h b = (if h = Some (Inr (''Bearer '' @ secret)) then Answer b else Unauthorized)"
begin

lemma answers_iff: "guard secret h b = Answer c \<longleftrightarrow> h = Some (Inr (''Bearer '' @ secret)) \<and> c = b"
  by (auto simp: guard_eq)

lemma no_header: "guard secret None b = Unauthorized"
  by (simp add: guard_eq)

lemma one_secret:
  "guard secret h b = Answer c \<Longrightarrow> guard secret' h b \<noteq> Unauthorized \<Longrightarrow> secret' = secret"
  by (simp add: guard_eq split: if_splits)

end

end
