(* ===== verification/Sysfs.thy ===== *)
theory Sysfs
  imports Http_Auth
begin

text \<open>
  Reading interface facts from \<open>/sys/class/net\<close>: the number parsers of the Rust standard library
  (\<open>from_str_radix\<close>, \<open>str::parse\<close>), the text form of a MAC address as the daemon prints it and as both
  the engine (\<open>src/dumbarp/src/lib.rs\<close>) and the neighbour prober (\<open>src/dumbarp-daemon/src/neigh.rs\<close>)
  parse it, and the file readers of both. The file system is the parameter \<open>read_to_string\<close>.
\<close>

section \<open>Number parsers\<close>

text \<open>
  \<open>u8::from_str_radix\<close>, \<open>u32::from_str\<close>: an optional plus sign that is not the whole text, then at
  least one digit of the radix, and no overflow of the type.
\<close>

definition hex_val :: "char \<Rightarrow> nat option" where
  "hex_val c =
     (let n = (of_char c :: nat) in
      if 48 \<le> n \<and> n \<le> 57 then Some (n - 48)
      else if 97 \<le> n \<and> n \<le> 102 then Some (n - 87)
      else if 65 \<le> n \<and> n \<le> 70 then Some (n - 55)
      else None)"

definition digit_of :: "nat \<Rightarrow> char \<Rightarrow> nat option" where
  "digit_of radix c = (case hex_val c of Some d \<Rightarrow> if d < radix then Some d else None | None \<Rightarrow> None)"

fun parse_digits :: "nat \<Rightarrow> nat \<Rightarrow> nat \<Rightarrow> string \<Rightarrow> nat option" where
  "parse_digits radix bound acc [] = Some acc"
| "parse_digits radix bound acc (c # cs) =
     (case digit_of radix c of
        None \<Rightarrow> None
      | Some d \<Rightarrow> if radix * acc + d \<le> bound then parse_digits radix bound (radix * acc + d) cs else None)"

definition strip_plus :: "string \<Rightarrow> string" where
  "strip_plus s = (case s of c # cs \<Rightarrow> if c = CHR ''+'' \<and> cs \<noteq> [] then cs else s | [] \<Rightarrow> s)"

definition parse_uint :: "nat \<Rightarrow> nat \<Rightarrow> string \<Rightarrow> nat option" where
  "parse_uint radix bound s = (if s = [] then None else parse_digits radix bound 0 (strip_plus s))"

text \<open>\<open>i32::from_str\<close>: a minus sign as well, down to the least value of the type.\<close>

definition parse_i32 :: "string \<Rightarrow> int option" where
  "parse_i32 s =
     (case s of
        c # cs \<Rightarrow>
          if c = CHR ''-'' \<and> cs \<noteq> [] then map_option (\<lambda>n. - int n) (parse_digits 10 2147483648 0 cs)
          else map_option int (parse_uint 10 2147483647 s)
      | [] \<Rightarrow> None)"

section \<open>MAC addresses\<close>

datatype mac_error = BadFormat string | BadOctet string

definition octet_of_hex :: "string \<Rightarrow> mac_error + u8" where
  "octet_of_hex part =
     (case parse_uint 16 255 part of Some n \<Rightarrow> Inr (of_nat n) | None \<Rightarrow> Inl (BadOctet part))"

definition parse_mac :: "string \<Rightarrow> mac_error + mac" where
  "parse_mac s =
     (let parts = split_on (CHR '':'') s in
      if length parts \<noteq> 6 then Inl (BadFormat s)
      else case try_map octet_of_hex parts of
        Inl e \<Rightarrow> Inl e
      | Inr bs \<Rightarrow> Inr (bs ! 0, bs ! 1, bs ! 2, bs ! 3, bs ! 4, bs ! 5))"

text \<open>The format \<open>{:02x}\<close> of an octet and the text of an address.\<close>

definition hex_char :: "nat \<Rightarrow> char" where
  "hex_char n = char_of (if n < 10 then 48 + n else 87 + n)"

definition hex2 :: "u8 \<Rightarrow> string" where
  "hex2 b = [hex_char (unat b div 16), hex_char (unat b mod 16)]"

fun mac_to_string :: "mac \<Rightarrow> string" where
  "mac_to_string (a, b, c, d, e, f) =
     hex2 a @ '':'' @ hex2 b @ '':'' @ hex2 c @ '':'' @ hex2 d @ '':'' @ hex2 e @ '':'' @ hex2 f"

section \<open>Interface files\<close>

type_synonym read_file = "string \<Rightarrow> string option"

datatype sysfs_error = ReadFailedAt string | BadNumber string | BadMac mac_error

definition sys_path :: "string \<Rightarrow> string \<Rightarrow> string" where
  "sys_path iface file = ''/sys/class/net/'' @ iface @ ''/'' @ file"

definition ARPHRD_ETHER :: u32 where "ARPHRD_ETHER = 1"
definition ETH_HLEN :: u8 where "ETH_HLEN = 14"

definition read_u32 :: "read_file \<Rightarrow> string \<Rightarrow> sysfs_error + u32" where
  "read_u32 read_to_string path =
     (case read_to_string path of
        None \<Rightarrow> Inl (ReadFailedAt path)
      | Some s \<Rightarrow>
          (case parse_uint 10 4294967295 (trim s) of
             None \<Rightarrow> Inl (BadNumber path)
           | Some n \<Rightarrow> Inr (of_nat n)))"

definition iface_l2_len :: "read_file \<Rightarrow> string \<Rightarrow> sysfs_error + u8" where
  "iface_l2_len read_to_string iface =
     (case read_u32 read_to_string (sys_path iface ''type'') of
        Inl e \<Rightarrow> Inl e
      | Inr arphrd \<Rightarrow> Inr (if arphrd = ARPHRD_ETHER then ETH_HLEN else 0))"

definition iface_mac :: "read_file \<Rightarrow> string \<Rightarrow> sysfs_error + mac" where
  "iface_mac read_to_string iface =
     (case read_to_string (sys_path iface ''address'') of
        None \<Rightarrow> Inl (ReadFailedAt (sys_path iface ''address''))
      | Some s \<Rightarrow> (case parse_mac (trim s) of Inl e \<Rightarrow> Inl (BadMac e) | Inr m \<Rightarrow> Inr m))"

definition iface_ifindex :: "read_file \<Rightarrow> string \<Rightarrow> sysfs_error + u32" where
  "iface_ifindex read_to_string iface = read_u32 read_to_string (sys_path iface ''ifindex'')"

section \<open>Lemmas\<close>

lemma hex_val_char: "n < 16 \<Longrightarrow> hex_val (hex_char n) = Some n"
  by (auto simp: hex_val_def hex_char_def Let_def)

lemma hex_char_plain:
  assumes "n < 16"
  shows "hex_char n \<noteq> CHR '':''" "hex_char n \<noteq> CHR ''+''" "\<not> is_space (hex_char n)"
proof -
  have v: "(of_char (hex_char n) :: nat) = (if n < 10 then 48 + n else 87 + n)"
    using assms by (auto simp: hex_char_def)
  show "hex_char n \<noteq> CHR '':''"
  proof
    assume "hex_char n = CHR '':''"
    then have "(of_char (hex_char n) :: nat) = 58" by simp
    then show False using v assms by (auto split: if_splits)
  qed
  show "hex_char n \<noteq> CHR ''+''"
  proof
    assume "hex_char n = CHR ''+''"
    then have "(of_char (hex_char n) :: nat) = 43" by simp
    then show False using v by (auto split: if_splits)
  qed
  show "\<not> is_space (hex_char n)" using v by (auto simp: is_space_def)
qed

lemma nibbles: "unat (b :: u8) div 16 < 16" "unat b mod 16 < 16"
  using unat_u8_le [of b] by auto

lemma octet_of_hex2: "octet_of_hex (hex2 b) = Inr b"
proof -
  note b = nibbles [of b]
  have "16 * (unat b div 16) + unat b mod 16 = unat b" by simp
  moreover have "strip_plus (hex2 b) = hex2 b"
    using hex_char_plain(2) [OF b(1)] by (simp add: strip_plus_def hex2_def)
  moreover have "unat b div 16 \<le> 255" using b by simp
  ultimately show ?thesis
    using b unat_u8_le [of b]
    by (simp add: octet_of_hex_def parse_uint_def) (simp add: hex2_def digit_of_def hex_val_char)
qed

lemma colon_notin_hex2: "CHR '':'' \<notin> set (hex2 b)"
  using hex_char_plain(1) [OF nibbles(1), of b] hex_char_plain(1) [OF nibbles(2), of b]
  by (auto simp: hex2_def)

lemma parse_mac_to_string [simp]: "parse_mac (mac_to_string m) = Inr m"
proof -
  obtain a b c d e f where m: "m = (a, b, c, d, e, f)" by (cases m)
  have "split_on (CHR '':'') (mac_to_string m) = [hex2 a, hex2 b, hex2 c, hex2 d, hex2 e, hex2 f]"
    by (simp add: m split_on_append split_on_no_sep colon_notin_hex2)
  then show ?thesis by (simp add: parse_mac_def octet_of_hex2 m)
qed

interpretation mac_text: text_codec mac_to_string
  "\<lambda>s. case parse_mac s of Inr m \<Rightarrow> Some m | Inl _ \<Rightarrow> None"
  by unfold_locales simp

lemma trim_newline:
  assumes "s \<noteq> []" "\<not> is_space (hd s)" "\<not> is_space (last s)"
  shows "trim (s @ [CHR 0x0A]) = s"
proof -
  have "is_space (CHR 0x0A)" by (simp add: is_space_def)
  moreover have "dropWhile is_space (s @ [CHR 0x0A]) = s @ [CHR 0x0A]"
    using assms(1,2) by (cases s) simp_all
  moreover have "dropWhile is_space (rev s) = rev s"
    using assms(1,3) by (cases s rule: rev_cases) simp_all
  ultimately show ?thesis by (simp add: trim_def)
qed

lemma trim_mac: "trim (mac_to_string m @ [CHR 0x0A]) = mac_to_string m"
proof -
  obtain a b c d e f where m: "m = (a, b, c, d, e, f)" by (cases m)
  have "\<not> is_space (hex_char (unat a div 16))" "\<not> is_space (hex_char (unat f mod 16))"
    by (rule hex_char_plain(3) [OF nibbles(1)], rule hex_char_plain(3) [OF nibbles(2)])
  then show ?thesis by (intro trim_newline) (simp_all add: m hex2_def)
qed

end
