(* ===== verification/Engine.thy ===== *)
theory Engine
  imports Common Sysfs
begin

text \<open>
  The engine of the daemon, \<open>struct Dumbarp\<close> of \<open>src/dumbarp/src/lib.rs\<close>: it attaches the XDP program
  and the egress classifier to interfaces and keeps the BPF maps \<open>ARP_TABLE\<close>, \<open>DSCP_ID\<close> and \<open>L2_LEN\<close>
  in step with what is attached. The BPF library is the parameter \<open>aya\<close> over a state \<open>'b\<close>, with link
  handles \<open>'x\<close> and \<open>'t\<close>; \<open>bpf_laws\<close> states what the code relies on in terms of a view of that state.
\<close>

section \<open>The BPF library\<close>

text \<open>Looking a program or a map up by name, with the type check of the handle.\<close>

datatype found = Missing | WrongType | Present

record ('b, 'x, 't) aya =
  ebpf_load :: "unit + 'b"
  xdp_load :: "'b \<Rightarrow> (unit + unit) \<times> 'b"
  tc_load :: "'b \<Rightarrow> (unit + unit) \<times> 'b"
  ay_xdp :: "'b \<Rightarrow> found"
  ay_tc :: "'b \<Rightarrow> found"
  ay_arp :: "'b \<Rightarrow> found"
  ay_dscp :: "'b \<Rightarrow> found"
  ay_l2 :: "'b \<Rightarrow> found"
  xdp_attach :: "string \<Rightarrow> 'b \<Rightarrow> (unit + 'x) \<times> 'b"
  xdp_detach :: "'x \<Rightarrow> 'b \<Rightarrow> (unit + unit) \<times> 'b"
  tc_attach :: "string \<Rightarrow> 'b \<Rightarrow> (unit + 't) \<times> 'b"
  tc_detach :: "'t \<Rightarrow> 'b \<Rightarrow> (unit + unit) \<times> 'b"
  qdisc_add_clsact :: "string \<Rightarrow> 'b \<Rightarrow> (unit + unit) \<times> 'b"
  arp_insert :: "ArpKey \<Rightarrow> mac \<Rightarrow> 'b \<Rightarrow> (unit + unit) \<times> 'b"
  arp_remove :: "ArpKey \<Rightarrow> 'b \<Rightarrow> (unit + unit) \<times> 'b"
  dscp_insert :: "u32 \<Rightarrow> u8 \<Rightarrow> 'b \<Rightarrow> (unit + unit) \<times> 'b"
  dscp_remove :: "u32 \<Rightarrow> 'b \<Rightarrow> (unit + unit) \<times> 'b"
  l2_insert :: "u32 \<Rightarrow> u8 \<Rightarrow> 'b \<Rightarrow> (unit + unit) \<times> 'b"
  l2_remove :: "u32 \<Rightarrow> 'b \<Rightarrow> (unit + unit) \<times> 'b"

section \<open>The engine\<close>

record ('x, 't) Attached =
  link_id :: 'x
  tc_link_id :: "'t option"
  a_key :: ArpKey
  a_ifindex :: u32

record ('b, 'x, 't) Dumbarp =
  bpf :: 'b
  attached :: "(string, ('x, 't) Attached) hashmap"

datatype engine_error =
    LoadFailed
  | AlreadyAttached string
  | NotAttached string
  | SysfsError sysfs_error
  | ProgramNotFound
  | MapNotFound
  | XdpAttachFailed string
  | ArpInsertFailed
  | DscpInsertFailed
  | L2InsertFailed
  | TcAttachFailed string
  | XdpDetachFailed string

definition Dumbarp_new :: "('b, 'x, 't) aya \<Rightarrow> engine_error + ('b, 'x, 't) Dumbarp" where
  "Dumbarp_new A =
     (case ebpf_load A of
        Inl _ \<Rightarrow> Inl LoadFailed
      | Inr b \<Rightarrow>
          if ay_xdp A b \<noteq> Present then Inl ProgramNotFound
          else case xdp_load A b of
            (Inl _, _) \<Rightarrow> Inl LoadFailed
          | (Inr _, b1) \<Rightarrow>
              if ay_tc A b1 \<noteq> Present then Inl ProgramNotFound
              else case tc_load A b1 of
                (Inl _, _) \<Rightarrow> Inl LoadFailed
              | (Inr _, b2) \<Rightarrow> Inr \<lparr>bpf = b2, attached = []\<rparr>)"

definition clear_arp_entry :: "('b, 'x, 't) aya \<Rightarrow> ArpKey \<Rightarrow> 'b \<Rightarrow> 'b" where
  "clear_arp_entry A k b = (if ay_arp A b = Present then snd (arp_remove A k b) else b)"

definition clear_iface_maps :: "('b, 'x, 't) aya \<Rightarrow> u32 \<Rightarrow> 'b \<Rightarrow> 'b" where
  "clear_iface_maps A ifindex b =
     (let b1 = (if ay_dscp A b = Present then snd (dscp_remove A ifindex b) else b)
      in if ay_l2 A b1 = Present then snd (l2_remove A ifindex b1) else b1)"

definition detach_xdp :: "('b, 'x, 't) aya \<Rightarrow> 'x \<Rightarrow> 'b \<Rightarrow> 'b" where
  "detach_xdp A l b = (if ay_xdp A b = Present then snd (xdp_detach A l b) else b)"

definition attach_egress ::
  "('b, 'x, 't) aya \<Rightarrow> read_file \<Rightarrow> string \<Rightarrow> u32 \<Rightarrow> u8 \<Rightarrow> 'b \<Rightarrow> (engine_error + 't) \<times> 'b" where
  "attach_egress A read_to_string iface ifindex dscp_id b =
     (if ay_dscp A b \<noteq> Present then (Inl MapNotFound, b)
      else case dscp_insert A ifindex dscp_id b of
        (Inl _, b1) \<Rightarrow> (Inl DscpInsertFailed, b1)
      | (Inr _, b1) \<Rightarrow>
          if ay_l2 A b1 \<noteq> Present then (Inl MapNotFound, b1)
          else case iface_l2_len read_to_string iface of
            Inl e \<Rightarrow> (Inl (SysfsError e), b1)
          | Inr len \<Rightarrow>
              (case l2_insert A ifindex len b1 of
                 (Inl _, b2) \<Rightarrow> (Inl L2InsertFailed, b2)
               | (Inr _, b2) \<Rightarrow>
                   let b3 = snd (qdisc_add_clsact A iface b2) in
                   if ay_tc A b3 \<noteq> Present then (Inl ProgramNotFound, b3)
                   else case tc_attach A iface b3 of
                     (Inl _, b4) \<Rightarrow> (Inl (TcAttachFailed iface), b4)
                   | (Inr t, b4) \<Rightarrow> (Inr t, b4)))"

text \<open>
  The part of \<open>add_interface\<close> after the XDP program is attached: the map entries and the egress
  classifier, with their roll-back.
\<close>

definition add_maps ::
  "('b, 'x, 't) aya \<Rightarrow> read_file \<Rightarrow> string \<Rightarrow> ArpKey \<Rightarrow> mac \<Rightarrow> u32 \<Rightarrow> u8 option \<Rightarrow> 'x \<Rightarrow> 'b \<Rightarrow>
     (engine_error + 't option) \<times> 'b" where
  "add_maps A read_to_string iface k mac ifindex dscp_id l b =
     (if ay_arp A b \<noteq> Present then (Inl MapNotFound, b)
      else case arp_insert A k mac b of
        (Inl _, b1) \<Rightarrow> (Inl ArpInsertFailed, detach_xdp A l b1)
      | (Inr _, b1) \<Rightarrow>
          (case dscp_id of
             None \<Rightarrow> (Inr None, b1)
           | Some i \<Rightarrow>
               (case attach_egress A read_to_string iface ifindex i b1 of
                  (Inr t, b2) \<Rightarrow> (Inr (Some t), b2)
                | (Inl e, b2) \<Rightarrow>
                    (Inl e, detach_xdp A l (clear_iface_maps A ifindex (clear_arp_entry A k b2))))))"

definition add_interface ::
  "('b, 'x, 't) aya \<Rightarrow> endian \<Rightarrow> read_file \<Rightarrow> string \<Rightarrow> ipv4addr \<Rightarrow> u8 option \<Rightarrow>
     ('b, 'x, 't) Dumbarp \<Rightarrow> (engine_error + unit) \<times> ('b, 'x, 't) Dumbarp" where
  "add_interface A en read_to_string iface ip dscp_id self =
     (if hm_get (attached self) iface \<noteq> None then (Inl (AlreadyAttached iface), self)
      else case iface_mac read_to_string iface of
        Inl e \<Rightarrow> (Inl (SysfsError e), self)
      | Inr mac \<Rightarrow>
          (case iface_ifindex read_to_string iface of
             Inl e \<Rightarrow> (Inl (SysfsError e), self)
           | Inr ifindex \<Rightarrow>
               let k = \<lparr>ak_ifindex = ifindex, ak_ip = u32_from_ne_bytes en ip\<rparr> in
               if ay_xdp A (bpf self) \<noteq> Present then (Inl ProgramNotFound, self)
               else case xdp_attach A iface (bpf self) of
                 (Inl _, b) \<Rightarrow> (Inl (XdpAttachFailed iface), self\<lparr>bpf := b\<rparr>)
               | (Inr l, b) \<Rightarrow>
                   (case add_maps A read_to_string iface k mac ifindex dscp_id l b of
                      (Inl e, b') \<Rightarrow> (Inl e, self\<lparr>bpf := b'\<rparr>)
                    | (Inr tc, b') \<Rightarrow>
                        (Inr (), self\<lparr>bpf := b', attached := hm_insert iface
                           \<lparr>link_id = l, tc_link_id = tc, a_key = k, a_ifindex = ifindex\<rparr> (attached self)\<rparr>))))"

definition remove_interface ::
  "('b, 'x, 't) aya \<Rightarrow> string \<Rightarrow> ('b, 'x, 't) Dumbarp \<Rightarrow> (engine_error + unit) \<times> ('b, 'x, 't) Dumbarp" where
  "remove_interface A iface self =
     (case hm_get (attached self) iface of
        None \<Rightarrow> (Inl (NotAttached iface), self)
      | Some a \<Rightarrow>
          let self' = self\<lparr>attached := hm_remove iface (attached self)\<rparr>; b = bpf self in
          if tc_link_id a \<noteq> None \<and> ay_tc A b = Missing then (Inl ProgramNotFound, self')
          else
            let b1 = (case tc_link_id a of
                        None \<Rightarrow> b
                      | Some t \<Rightarrow> clear_iface_maps A (a_ifindex a)
                          (if ay_tc A b = Present then snd (tc_detach A t b) else b));
                b2 = clear_arp_entry A (a_key a) b1
            in if ay_xdp A b2 \<noteq> Present then (Inl ProgramNotFound, self'\<lparr>bpf := b2\<rparr>)
               else case xdp_detach A (link_id a) b2 of
                 (Inl _, b3) \<Rightarrow> (Inl (XdpDetachFailed iface), self'\<lparr>bpf := b3\<rparr>)
               | (Inr _, b3) \<Rightarrow> (Inr (), self'\<lparr>bpf := b3\<rparr>))"

definition attached_interfaces :: "('b, 'x, 't) Dumbarp \<Rightarrow> string list" where
  "attached_interfaces self = hm_keys (attached self)"

section \<open>What the code relies on\<close>

text \<open>The content of the BPF state: the three maps, and the live links with their interfaces.\<close>

record ('x, 't) bpf_view =
  vArp :: "ArpKey \<rightharpoonup> mac"
  vDscp :: "u32 \<rightharpoonup> u8"
  vL2 :: "u32 \<rightharpoonup> u8"
  vXdp :: "'x \<rightharpoonup> string"
  vTc :: "'t \<rightharpoonup> string"

definition empty_view :: "('x, 't) bpf_view" where
  "empty_view = \<lparr>vArp = Map.empty, vDscp = Map.empty, vL2 = Map.empty, vXdp = Map.empty, vTc = Map.empty\<rparr>"

text \<open>
  A loaded object has its programs and maps, with empty maps and no link, and loading the programs
  changes none of that; a successful attach gives a link that was
  not live; a failed request changes nothing; detaching a live link and removing a present key
  succeed; adding the qdisc touches none of this.
\<close>

definition bpf_laws :: "('b, 'x, 't) aya \<Rightarrow> ('b \<Rightarrow> ('x, 't) bpf_view) \<Rightarrow> bool" where
  "bpf_laws A vw \<longleftrightarrow>
     (\<forall>b. ay_xdp A b = Present \<and> ay_tc A b = Present \<and> ay_arp A b = Present \<and> ay_dscp A b = Present \<and>
        ay_l2 A b = Present) \<and>
     (\<forall>b. ebpf_load A = Inr b \<longrightarrow> vw b = empty_view) \<and>
     (\<forall>b. vw (snd (xdp_load A b)) = vw b \<and> vw (snd (tc_load A b)) = vw b) \<and>
     (\<forall>i b l b'. xdp_attach A i b = (Inr l, b') \<longrightarrow>
        vXdp (vw b) l = None \<and> vw b' = (vw b)\<lparr>vXdp := (vXdp (vw b))(l \<mapsto> i)\<rparr>) \<and>
     (\<forall>i b e b'. xdp_attach A i b = (Inl e, b') \<longrightarrow> vw b' = vw b) \<and>
     (\<forall>i b t b'. tc_attach A i b = (Inr t, b') \<longrightarrow>
        vTc (vw b) t = None \<and> vw b' = (vw b)\<lparr>vTc := (vTc (vw b))(t \<mapsto> i)\<rparr>) \<and>
     (\<forall>i b e b'. tc_attach A i b = (Inl e, b') \<longrightarrow> vw b' = vw b) \<and>
     (\<forall>l b. vw (snd (xdp_detach A l b)) = (vw b)\<lparr>vXdp := (vXdp (vw b))(l := None)\<rparr> \<and>
        (vXdp (vw b) l \<noteq> None \<longrightarrow> \<not> isl (fst (xdp_detach A l b)))) \<and>
     (\<forall>t b. vw (snd (tc_detach A t b)) = (vw b)\<lparr>vTc := (vTc (vw b))(t := None)\<rparr>) \<and>
     (\<forall>i b. vw (snd (qdisc_add_clsact A i b)) = vw b) \<and>
     (\<forall>k m b. vw (snd (arp_insert A k m b)) =
        (if isl (fst (arp_insert A k m b)) then vw b else (vw b)\<lparr>vArp := (vArp (vw b))(k \<mapsto> m)\<rparr>)) \<and>
     (\<forall>k b. vw (snd (arp_remove A k b)) = (vw b)\<lparr>vArp := (vArp (vw b))(k := None)\<rparr>) \<and>
     (\<forall>i d b. vw (snd (dscp_insert A i d b)) =
        (if isl (fst (dscp_insert A i d b)) then vw b else (vw b)\<lparr>vDscp := (vDscp (vw b))(i \<mapsto> d)\<rparr>)) \<and>
     (\<forall>i b. vw (snd (dscp_remove A i b)) = (vw b)\<lparr>vDscp := (vDscp (vw b))(i := None)\<rparr>) \<and>
     (\<forall>i d b. vw (snd (l2_insert A i d b)) =
        (if isl (fst (l2_insert A i d b)) then vw b else (vw b)\<lparr>vL2 := (vL2 (vw b))(i \<mapsto> d)\<rparr>)) \<and>
     (\<forall>i b. vw (snd (l2_remove A i b)) = (vw b)\<lparr>vL2 := (vL2 (vw b))(i := None)\<rparr>)"

section \<open>The invariant\<close>

text \<open>
  The BPF state holds exactly what the attached interfaces need: one \<open>ARP_TABLE\<close> entry and one XDP
  link each, and an entry of \<open>DSCP_ID\<close> and of \<open>L2_LEN\<close> and an egress link for those that tag; and no
  two attached interfaces have the same index.
\<close>

definition engine_inv :: "('b \<Rightarrow> ('x, 't) bpf_view) \<Rightarrow> ('b, 'x, 't) Dumbarp \<Rightarrow> bool" where
  "engine_inv vw st \<longleftrightarrow>
     (let v = vw (bpf st); at = hm_get (attached st) in
      (\<forall>i a. at i = Some a \<longrightarrow> ak_ifindex (a_key a) = a_ifindex a) \<and>
      (\<forall>i j a b. at i = Some a \<and> at j = Some b \<and> a_ifindex a = a_ifindex b \<longrightarrow> i = j) \<and>
      (\<forall>k. vArp v k \<noteq> None \<longleftrightarrow> (\<exists>i a. at i = Some a \<and> a_key a = k)) \<and>
      (\<forall>x. vDscp v x \<noteq> None \<longleftrightarrow> (\<exists>i a. at i = Some a \<and> tc_link_id a \<noteq> None \<and> a_ifindex a = x)) \<and>
      (\<forall>x. vL2 v x \<noteq> None \<longleftrightarrow> (\<exists>i a. at i = Some a \<and> tc_link_id a \<noteq> None \<and> a_ifindex a = x)) \<and>
      (\<forall>l n. vXdp v l = Some n \<longleftrightarrow> (\<exists>a. at n = Some a \<and> link_id a = l)) \<and>
      (\<forall>t n. vTc v t = Some n \<longleftrightarrow> (\<exists>a. at n = Some a \<and> tc_link_id a = Some t)))"

section \<open>Lemmas on the library's laws\<close>

lemma bpf_present:
  assumes "bpf_laws A vw"
  shows "ay_xdp A b = Present" "ay_tc A b = Present" "ay_arp A b = Present" "ay_dscp A b = Present"
    "ay_l2 A b = Present"
  using conjunct1 [OF assms [unfolded bpf_laws_def]] by simp_all

lemma bpf_attach:
  assumes "bpf_laws A vw"
  shows "xdp_attach A i b = (Inr l, b') \<Longrightarrow>
      vXdp (vw b) l = None \<and> vw b' = (vw b)\<lparr>vXdp := (vXdp (vw b))(l \<mapsto> i)\<rparr>"
    and "xdp_attach A i b = (Inl e, b') \<Longrightarrow> vw b' = vw b"
    and "tc_attach A i b = (Inr t, b') \<Longrightarrow>
      vTc (vw b) t = None \<and> vw b' = (vw b)\<lparr>vTc := (vTc (vw b))(t \<mapsto> i)\<rparr>"
    and "tc_attach A i b = (Inl e, b') \<Longrightarrow> vw b' = vw b"
  using assms unfolding bpf_laws_def by (elim conjE, simp only:)+

lemma bpf_requests:
  assumes "bpf_laws A vw"
  shows "vw (snd (xdp_detach A l b)) = (vw b)\<lparr>vXdp := (vXdp (vw b))(l := None)\<rparr>"
    and "vXdp (vw b) l \<noteq> None \<Longrightarrow> \<not> isl (fst (xdp_detach A l b))"
    and "vw (snd (tc_detach A t b)) = (vw b)\<lparr>vTc := (vTc (vw b))(t := None)\<rparr>"
    and "vw (snd (qdisc_add_clsact A i b)) = vw b"
    and "vw (snd (arp_insert A k m b)) =
        (if isl (fst (arp_insert A k m b)) then vw b else (vw b)\<lparr>vArp := (vArp (vw b))(k \<mapsto> m)\<rparr>)"
    and "vw (snd (arp_remove A k b)) = (vw b)\<lparr>vArp := (vArp (vw b))(k := None)\<rparr>"
    and "vw (snd (dscp_insert A x d b)) =
        (if isl (fst (dscp_insert A x d b)) then vw b else (vw b)\<lparr>vDscp := (vDscp (vw b))(x \<mapsto> d)\<rparr>)"
    and "vw (snd (dscp_remove A x b)) = (vw b)\<lparr>vDscp := (vDscp (vw b))(x := None)\<rparr>"
    and "vw (snd (l2_insert A x d b)) =
        (if isl (fst (l2_insert A x d b)) then vw b else (vw b)\<lparr>vL2 := (vL2 (vw b))(x \<mapsto> d)\<rparr>)"
    and "vw (snd (l2_remove A x b)) = (vw b)\<lparr>vL2 := (vL2 (vw b))(x := None)\<rparr>"
  using assms unfolding bpf_laws_def by (simp_all only: simp_thms not_False_eq_True)

lemma clear_view:
  assumes "bpf_laws A vw"
  shows "vw (clear_arp_entry A k b) = (vw b)\<lparr>vArp := (vArp (vw b))(k := None)\<rparr>"
    and "vw (clear_iface_maps A x b) =
      (vw b)\<lparr>vDscp := (vDscp (vw b))(x := None), vL2 := (vL2 (vw b))(x := None)\<rparr>"
    and "vw (detach_xdp A l b) = (vw b)\<lparr>vXdp := (vXdp (vw b))(l := None)\<rparr>"
  by (simp_all add: clear_arp_entry_def clear_iface_maps_def detach_xdp_def Let_def
      bpf_present [OF assms] bpf_requests [OF assms])

section \<open>Lemmas on attaching\<close>

lemma attach_egress_effect:
  assumes "bpf_laws A vw" "attach_egress A rd iface x i b = (r, b')"
  shows "(case r of
      Inr t \<Rightarrow> \<exists>len. iface_l2_len rd iface = Inr len \<and> vTc (vw b) t = None \<and>
        vw b' = (vw b)\<lparr>vDscp := (vDscp (vw b))(x \<mapsto> i), vL2 := (vL2 (vw b))(x \<mapsto> len),
                       vTc := (vTc (vw b))(t \<mapsto> iface)\<rparr>
    | Inl e \<Rightarrow> \<exists>d l. vw b' = (vw b)\<lparr>vDscp := (vDscp (vw b))(x := d), vL2 := (vL2 (vw b))(x := l)\<rparr>)"
proof -
  have failed: "\<exists>d l. vw b' = (vw b)\<lparr>vDscp := (vDscp (vw b))(x := d), vL2 := (vL2 (vw b))(x := l)\<rparr>"
    if "vw b' = (vw b)\<lparr>vDscp := (vDscp (vw b))(x := d), vL2 := (vL2 (vw b))(x := l)\<rparr>" for d l
    using that by blast
  obtain r1 b1 where i1: "dscp_insert A x i b = (r1, b1)" by (cases "dscp_insert A x i b")
  have v1: "vw b1 = (if isl r1 then vw b else (vw b)\<lparr>vDscp := (vDscp (vw b))(x \<mapsto> i)\<rparr>)"
    using bpf_requests(7) [OF assms(1), of x i b] by (simp add: i1)
  show ?thesis
  proof (cases r1)
    case (Inl e)
    with assms(2) i1 v1 have "r = Inl DscpInsertFailed" "vw b' = vw b"
      by (auto simp: attach_egress_def bpf_present [OF assms(1)])
    then show ?thesis using failed [where d = "vDscp (vw b) x" and l = "vL2 (vw b) x"] by simp
  next
    case r1: (Inr u)
    show ?thesis
    proof (cases "iface_l2_len rd iface")
      case (Inl e)
      with r1 assms(2) i1 v1 have "r = Inl (SysfsError e)" "vw b' = (vw b)\<lparr>vDscp := (vDscp (vw b))(x \<mapsto> i)\<rparr>"
        by (auto simp: attach_egress_def bpf_present [OF assms(1)])
      then show ?thesis using failed [where d = "Some i" and l = "vL2 (vw b) x"] by simp
    next
      case len: (Inr len)
      obtain r2 b2 where i2: "l2_insert A x len b1 = (r2, b2)" by (cases "l2_insert A x len b1")
      have v2: "vw b2 = (if isl r2 then vw b1 else (vw b1)\<lparr>vL2 := (vL2 (vw b1))(x \<mapsto> len)\<rparr>)"
        using bpf_requests(9) [OF assms(1), of x len b1] by (simp add: i2)
      show ?thesis
      proof (cases r2)
        case (Inl e)
        with r1 len assms(2) i1 i2 v1 v2
        have "r = Inl L2InsertFailed" "vw b' = (vw b)\<lparr>vDscp := (vDscp (vw b))(x \<mapsto> i)\<rparr>"
          by (auto simp: attach_egress_def bpf_present [OF assms(1)])
        then show ?thesis using failed [where d = "Some i" and l = "vL2 (vw b) x"] by simp
      next
        case r2: (Inr u')
        let ?b3 = "snd (qdisc_add_clsact A iface b2)"
        have v3: "vw ?b3 = (vw b)\<lparr>vDscp := (vDscp (vw b))(x \<mapsto> i), vL2 := (vL2 (vw b))(x \<mapsto> len)\<rparr>"
          using v1 v2 r1 r2 by (simp add: bpf_requests(4) [OF assms(1)])
        obtain r4 b4 where i4: "tc_attach A iface ?b3 = (r4, b4)" by (cases "tc_attach A iface ?b3")
        have res: "b' = b4" "r = (case r4 of Inr t \<Rightarrow> Inr t | Inl _ \<Rightarrow> Inl (TcAttachFailed iface))"
          using r1 len r2 assms(2) i1 i2 i4
          by (auto simp: attach_egress_def bpf_present [OF assms(1)] Let_def split: sum.splits)
        show ?thesis
        proof (cases r4)
          case (Inl e)
          then have "vw b4 = vw ?b3" using bpf_attach(4) [OF assms(1)] i4 by simp
          with Inl res v3 failed [where d = "Some i" and l = "Some len"] show ?thesis by simp
        next
          case (Inr t)
          then have "vTc (vw ?b3) t = None \<and> vw b4 = (vw ?b3)\<lparr>vTc := (vTc (vw ?b3))(t \<mapsto> iface)\<rparr>"
            using bpf_attach(3) [OF assms(1)] i4 by simp
          with Inr res v3 len show ?thesis by simp
        qed
      qed
    qed
  qed
qed

lemma add_maps_effect:
  assumes "bpf_laws A vw" "add_maps A rd iface k m x d l b = (r, b')"
    and "vArp (vw b) k = None" "vDscp (vw b) x = None" "vL2 (vw b) x = None"
  shows "(case r of
      Inl e \<Rightarrow> vw b' = (vw b)\<lparr>vXdp := (vXdp (vw b))(l := None)\<rparr>
    | Inr None \<Rightarrow> d = None \<and> vw b' = (vw b)\<lparr>vArp := (vArp (vw b))(k \<mapsto> m)\<rparr>
    | Inr (Some t) \<Rightarrow> \<exists>i len. d = Some i \<and> iface_l2_len rd iface = Inr len \<and> vTc (vw b) t = None \<and>
        vw b' = (vw b)\<lparr>vArp := (vArp (vw b))(k \<mapsto> m), vDscp := (vDscp (vw b))(x \<mapsto> i),
                       vL2 := (vL2 (vw b))(x \<mapsto> len), vTc := (vTc (vw b))(t \<mapsto> iface)\<rparr>)"
proof -
  obtain r1 b1 where i1: "arp_insert A k m b = (r1, b1)" by (cases "arp_insert A k m b")
  have v1: "vw b1 = (if isl r1 then vw b else (vw b)\<lparr>vArp := (vArp (vw b))(k \<mapsto> m)\<rparr>)"
    using bpf_requests(5) [OF assms(1), of k m b] by (simp add: i1)
  note defs = add_maps_def bpf_present [OF assms(1)] clear_view [OF assms(1)]
  show ?thesis
  proof (cases r1)
    case (Inl e)
    with assms(2) i1 v1 show ?thesis by (auto simp: defs)
  next
    case r1: (Inr u)
    show ?thesis
    proof (cases d)
      case None
      with r1 assms(2) i1 v1 show ?thesis by (auto simp: defs)
    next
      case (Some i)
      obtain r2 b2 where i2: "attach_egress A rd iface x i b1 = (r2, b2)"
        by (cases "attach_egress A rd iface x i b1")
      note e = attach_egress_effect [OF assms(1) i2]
      show ?thesis
      proof (cases r2)
        case (Inl e')
        with e obtain d' l' where "vw b2 = (vw b1)\<lparr>vDscp := (vDscp (vw b1))(x := d'), vL2 := (vL2 (vw b1))(x := l')\<rparr>"
          by auto
        moreover have "(vArp (vw b))(k := None) = vArp (vw b)" "(vDscp (vw b))(x := None) = vDscp (vw b)"
          "(vL2 (vw b))(x := None) = vL2 (vw b)" using assms(3-5) by auto
        ultimately show ?thesis using Inl Some r1 assms(2) i1 i2 v1
          by (auto simp: defs)
      next
        case (Inr t)
        with e Some r1 assms(2) i1 i2 v1 show ?thesis by (auto simp: defs)
      qed
    qed
  qed
qed

text \<open>No attached interface has the index that \<open>/sys\<close> gives for \<open>iface\<close>.\<close>

definition fresh_ifindex :: "read_file \<Rightarrow> string \<Rightarrow> ('b, 'x, 't) Dumbarp \<Rightarrow> bool" where
  "fresh_ifindex rd iface st \<longleftrightarrow>
     list_all (\<lambda>(i, a). iface_ifindex rd iface \<noteq> Inr (a_ifindex a)) (attached st)"

lemma fresh_ifindexD:
  "fresh_ifindex rd iface st \<Longrightarrow> hm_get (attached st) i = Some a \<Longrightarrow> iface_ifindex rd iface \<noteq> Inr (a_ifindex a)"
  by (auto simp: fresh_ifindex_def list_all_iff dest!: map_of_SomeD)

lemma engine_invD:
  assumes "engine_inv vw st"
  shows "hm_get (attached st) i = Some a \<Longrightarrow> ak_ifindex (a_key a) = a_ifindex a"
    and "hm_get (attached st) i = Some a \<Longrightarrow> hm_get (attached st) j = Some b \<Longrightarrow> a_ifindex a = a_ifindex b \<Longrightarrow> i = j"
    and "vArp (vw (bpf st)) k \<noteq> None \<longleftrightarrow> (\<exists>i a. hm_get (attached st) i = Some a \<and> a_key a = k)"
    and "vDscp (vw (bpf st)) x \<noteq> None \<longleftrightarrow>
      (\<exists>i a. hm_get (attached st) i = Some a \<and> tc_link_id a \<noteq> None \<and> a_ifindex a = x)"
    and "vL2 (vw (bpf st)) x \<noteq> None \<longleftrightarrow>
      (\<exists>i a. hm_get (attached st) i = Some a \<and> tc_link_id a \<noteq> None \<and> a_ifindex a = x)"
    and "vXdp (vw (bpf st)) l = Some n \<longleftrightarrow> (\<exists>a. hm_get (attached st) n = Some a \<and> link_id a = l)"
    and "vTc (vw (bpf st)) t = Some n \<longleftrightarrow> (\<exists>a. hm_get (attached st) n = Some a \<and> tc_link_id a = Some t)"
proof -
  note inv = assms [unfolded engine_inv_def Let_def]
  show "hm_get (attached st) i = Some a \<Longrightarrow> ak_ifindex (a_key a) = a_ifindex a"
    by (rule inv [THEN conjunct1, rule_format])
  show "hm_get (attached st) i = Some a \<Longrightarrow> hm_get (attached st) j = Some b \<Longrightarrow> a_ifindex a = a_ifindex b \<Longrightarrow> i = j"
    using inv [THEN conjunct2, THEN conjunct1, THEN spec, of i] by blast
  show "vArp (vw (bpf st)) k \<noteq> None \<longleftrightarrow> (\<exists>i a. hm_get (attached st) i = Some a \<and> a_key a = k)"
    by (rule inv [THEN conjunct2, THEN conjunct2, THEN conjunct1, rule_format])
  show "vDscp (vw (bpf st)) x \<noteq> None \<longleftrightarrow>
      (\<exists>i a. hm_get (attached st) i = Some a \<and> tc_link_id a \<noteq> None \<and> a_ifindex a = x)"
    by (rule inv [THEN conjunct2, THEN conjunct2, THEN conjunct2, THEN conjunct1, rule_format])
  show "vL2 (vw (bpf st)) x \<noteq> None \<longleftrightarrow>
      (\<exists>i a. hm_get (attached st) i = Some a \<and> tc_link_id a \<noteq> None \<and> a_ifindex a = x)"
    by (rule inv [THEN conjunct2, THEN conjunct2, THEN conjunct2, THEN conjunct2, THEN conjunct1, rule_format])
  show "vXdp (vw (bpf st)) l = Some n \<longleftrightarrow> (\<exists>a. hm_get (attached st) n = Some a \<and> link_id a = l)"
    by (rule inv [THEN conjunct2, THEN conjunct2, THEN conjunct2, THEN conjunct2, THEN conjunct2, THEN conjunct1, rule_format])
  show "vTc (vw (bpf st)) t = Some n \<longleftrightarrow> (\<exists>a. hm_get (attached st) n = Some a \<and> tc_link_id a = Some t)"
    by (rule inv [THEN conjunct2, THEN conjunct2, THEN conjunct2, THEN conjunct2, THEN conjunct2, THEN conjunct2, rule_format])
qed

lemma engine_inv_unused:
  assumes "engine_inv vw st" "fresh_ifindex rd iface st" "iface_ifindex rd iface = Inr x"
  shows "vArp (vw (bpf st)) \<lparr>ak_ifindex = x, ak_ip = p\<rparr> = None"
    and "vDscp (vw (bpf st)) x = None" and "vL2 (vw (bpf st)) x = None"
proof -
  have no: "a_ifindex a \<noteq> x" if "hm_get (attached st) i = Some a" for i a
    using fresh_ifindexD [OF assms(2) that] assms(3) by simp
  show "vDscp (vw (bpf st)) x = None" using engine_invD(4) [OF assms(1), of x] no by blast
  show "vL2 (vw (bpf st)) x = None" using engine_invD(5) [OF assms(1), of x] no by blast
  have "a_key a \<noteq> \<lparr>ak_ifindex = x, ak_ip = p\<rparr>" if "hm_get (attached st) i = Some a" for i a
    using engine_invD(1) [OF assms(1) that] no [OF that] by auto
  then show "vArp (vw (bpf st)) \<lparr>ak_ifindex = x, ak_ip = p\<rparr> = None"
    using engine_invD(3) [OF assms(1), of "\<lparr>ak_ifindex = x, ak_ip = p\<rparr>"] by blast
qed

lemma add_interface_failure:
  assumes "bpf_laws A vw" "engine_inv vw st" "fresh_ifindex rd iface st"
    and "add_interface A en rd iface ip d st = (Inl e, st')"
  shows "vw (bpf st') = vw (bpf st) \<and> attached st' = attached st"
proof (cases "hm_get (attached st) iface \<noteq> None \<or> isl (iface_mac rd iface) \<or> isl (iface_ifindex rd iface)")
  case True
  with assms(4) show ?thesis by (auto simp: add_interface_def isl_def split: sum.splits if_splits)
next
  case False
  then obtain m x where m: "iface_mac rd iface = Inr m" and x: "iface_ifindex rd iface = Inr x"
    and n: "hm_get (attached st) iface = None"
    by (cases "iface_mac rd iface"; cases "iface_ifindex rd iface") auto
  let ?k = "\<lparr>ak_ifindex = x, ak_ip = u32_from_ne_bytes en ip\<rparr>"
  obtain r1 b1 where a1: "xdp_attach A iface (bpf st) = (r1, b1)" by (cases "xdp_attach A iface (bpf st)")
  note defs = add_interface_def m x n a1 bpf_present [OF assms(1)] Let_def
  show ?thesis
  proof (cases r1)
    case (Inl u)
    with assms(4) bpf_attach(2) [OF assms(1) a1 [unfolded Inl]] show ?thesis by (auto simp: defs)
  next
    case r1: (Inr l)
    note v1 = bpf_attach(1) [OF assms(1) a1 [unfolded r1]]
    obtain r2 b2 where a2: "add_maps A rd iface ?k m x d l b1 = (r2, b2)"
      by (cases "add_maps A rd iface ?k m x d l b1")
    have "r2 = Inl e" "st' = st\<lparr>bpf := b2\<rparr>"
      using assms(4) r1 a2 by (auto simp: defs split: sum.splits)
    moreover have "(vXdp (vw (bpf st)))(l := None) = vXdp (vw (bpf st))" using v1 by auto
    ultimately show ?thesis
      using add_maps_effect [OF assms(1) a2] v1 engine_inv_unused [OF assms(2,3) x] by simp
  qed
qed

lemma add_interface_success:
  assumes "bpf_laws A vw" "engine_inv vw st" "fresh_ifindex rd iface st"
    and "add_interface A en rd iface ip d st = (Inr u, st')"
  obtains m x l tc where "iface_mac rd iface = Inr m" "iface_ifindex rd iface = Inr x"
    "hm_get (attached st) iface = None" "vXdp (vw (bpf st)) l = None"
    "attached st' = hm_insert iface \<lparr>link_id = l, tc_link_id = tc,
       a_key = \<lparr>ak_ifindex = x, ak_ip = u32_from_ne_bytes en ip\<rparr>, a_ifindex = x\<rparr> (attached st)"
    "case tc of
       None \<Rightarrow> d = None \<and>
         vw (bpf st') = (vw (bpf st))\<lparr>vXdp := (vXdp (vw (bpf st)))(l \<mapsto> iface),
           vArp := (vArp (vw (bpf st)))(\<lparr>ak_ifindex = x, ak_ip = u32_from_ne_bytes en ip\<rparr> \<mapsto> m)\<rparr>
     | Some t \<Rightarrow> \<exists>i len. d = Some i \<and> iface_l2_len rd iface = Inr len \<and> vTc (vw (bpf st)) t = None \<and>
         vw (bpf st') = (vw (bpf st))\<lparr>vXdp := (vXdp (vw (bpf st)))(l \<mapsto> iface),
           vArp := (vArp (vw (bpf st)))(\<lparr>ak_ifindex = x, ak_ip = u32_from_ne_bytes en ip\<rparr> \<mapsto> m),
           vDscp := (vDscp (vw (bpf st)))(x \<mapsto> i), vL2 := (vL2 (vw (bpf st)))(x \<mapsto> len),
           vTc := (vTc (vw (bpf st)))(t \<mapsto> iface)\<rparr>"
proof -
  from assms(4) obtain m x where m: "iface_mac rd iface = Inr m" and x: "iface_ifindex rd iface = Inr x"
    and n: "hm_get (attached st) iface = None"
    by (auto simp: add_interface_def split: sum.splits if_splits)
  let ?k = "\<lparr>ak_ifindex = x, ak_ip = u32_from_ne_bytes en ip\<rparr>"
  obtain r1 b1 where a1: "xdp_attach A iface (bpf st) = (r1, b1)" by (cases "xdp_attach A iface (bpf st)")
  note defs = add_interface_def m x n a1 bpf_present [OF assms(1)] Let_def
  from assms(4) obtain l where r1: "r1 = Inr l" by (cases r1) (auto simp: defs)
  note v1 = bpf_attach(1) [OF assms(1) a1 [unfolded r1]]
  obtain r2 b2 where a2: "add_maps A rd iface ?k m x d l b1 = (r2, b2)"
    by (cases "add_maps A rd iface ?k m x d l b1")
  from assms(4) r1 a2 obtain tc where tc: "r2 = Inr tc" "bpf st' = b2"
    "attached st' = hm_insert iface \<lparr>link_id = l, tc_link_id = tc, a_key = ?k, a_ifindex = x\<rparr> (attached st)"
    by (cases r2) (auto simp: defs)
  show ?thesis
    using that [OF m x n conjunct1 [OF v1] tc(3)] tc(1,2) v1 add_maps_effect [OF assms(1) a2]
      engine_inv_unused [OF assms(2,3) x] by (cases tc) simp_all
qed

section \<open>The invariant is kept\<close>

lemma engine_inv_cong:
  "vw (bpf st') = vw (bpf st) \<Longrightarrow> attached st' = attached st \<Longrightarrow> engine_inv vw st \<Longrightarrow> engine_inv vw st'"
  by (simp add: engine_inv_def)

lemma ex_hm_insert:
  "hm_get h k = None \<Longrightarrow>
     (\<exists>i a. hm_get (hm_insert k v h) i = Some a \<and> P a) \<longleftrightarrow> P v \<or> (\<exists>i a. hm_get h i = Some a \<and> P a)"
  by (auto split: if_splits) (metis option.distinct(1))

lemma ex_hm_remove:
  "hm_get h k = Some v \<Longrightarrow> (\<And>i a. hm_get h i = Some a \<Longrightarrow> P a \<Longrightarrow> P v \<Longrightarrow> i = k) \<Longrightarrow>
     (\<exists>i a. hm_get (hm_remove k h) i = Some a \<and> P a) \<longleftrightarrow> \<not> P v \<and> (\<exists>i a. hm_get h i = Some a \<and> P a)"
  by (auto split: if_splits) (metis option.inject)

lemma engine_inv_add:
  assumes "bpf_laws A vw" "engine_inv vw st" "fresh_ifindex rd iface st"
    and "add_interface A en rd iface ip d st = (Inr u, st')"
  shows "engine_inv vw st'"
proof (rule add_interface_success [OF assms])
  fix m x l tc
  let ?k = "\<lparr>ak_ifindex = x, ak_ip = u32_from_ne_bytes en ip\<rparr>" and ?v = "vw (bpf st)"
  assume x: "iface_ifindex rd iface = Inr x" and n: "hm_get (attached st) iface = None"
    and l: "vXdp ?v l = None"
    and at: "attached st' = hm_insert iface \<lparr>link_id = l, tc_link_id = tc, a_key = ?k, a_ifindex = x\<rparr> (attached st)"
    and tc: "case tc of
       None \<Rightarrow> d = None \<and> vw (bpf st') = ?v\<lparr>vXdp := (vXdp ?v)(l \<mapsto> iface), vArp := (vArp ?v)(?k \<mapsto> m)\<rparr>
     | Some t \<Rightarrow> \<exists>i len. d = Some i \<and> iface_l2_len rd iface = Inr len \<and> vTc ?v t = None \<and>
         vw (bpf st') = ?v\<lparr>vXdp := (vXdp ?v)(l \<mapsto> iface), vArp := (vArp ?v)(?k \<mapsto> m),
           vDscp := (vDscp ?v)(x \<mapsto> i), vL2 := (vL2 ?v)(x \<mapsto> len), vTc := (vTc ?v)(t \<mapsto> iface)\<rparr>"
  have old: "a_ifindex a \<noteq> x" "i \<noteq> iface" "link_id a \<noteq> l" "a_key a \<noteq> ?k"
    if "hm_get (attached st) i = Some a" for i a
    using that n l fresh_ifindexD [OF assms(3) that] x engine_invD(1) [OF assms(2) that]
      engine_invD(6) [OF assms(2), of l i] by auto
  have v: "vArp (vw (bpf st')) = (vArp ?v)(?k \<mapsto> m)" "vXdp (vw (bpf st')) = (vXdp ?v)(l \<mapsto> iface)"
    "vDscp (vw (bpf st')) y \<noteq> None \<longleftrightarrow> tc \<noteq> None \<and> x = y \<or> vDscp ?v y \<noteq> None"
    "vL2 (vw (bpf st')) y \<noteq> None \<longleftrightarrow> tc \<noteq> None \<and> x = y \<or> vL2 ?v y \<noteq> None"
    "vTc (vw (bpf st')) t = (if tc = Some t then Some iface else vTc ?v t)" for y t
    using tc by (auto split: option.splits simp del: not_None_eq)
  have t: "tc_link_id a \<noteq> Some t" if "hm_get (attached st) i = Some a" "tc = Some t" for i a t
    using engine_invD(7) [OF assms(2), of t i] tc that by auto
  note inv = engine_invD [OF assms(2)]
  show ?thesis
    unfolding engine_inv_def Let_def at v
    apply (intro conjI)
    subgoal using inv(1) by auto
    subgoal by (auto dest: inv(2) old(1))
    subgoal using inv(3) by (auto simp: ex_hm_insert n simp del: hm_get_insert not_None_eq)
    subgoal using inv(4) by (auto simp: ex_hm_insert n simp del: hm_get_insert not_None_eq)
    subgoal using inv(5) by (auto simp: ex_hm_insert n simp del: hm_get_insert not_None_eq)
    subgoal using inv(6) n old(3) by auto
    subgoal using inv(7) n t by auto
    done
qed

lemma remove_interface_view:
  assumes "bpf_laws A vw" "engine_inv vw st" "hm_get (attached st) iface = Some a"
  shows "\<exists>b. remove_interface A iface st = (Inr (), \<lparr>bpf = b, attached = hm_remove iface (attached st)\<rparr>) \<and>
    vArp (vw b) = (vArp (vw (bpf st)))(a_key a := None) \<and>
    vXdp (vw b) = (vXdp (vw (bpf st)))(link_id a := None) \<and>
    (\<forall>y. vDscp (vw b) y = (if tc_link_id a \<noteq> None \<and> y = a_ifindex a then None else vDscp (vw (bpf st)) y)) \<and>
    (\<forall>y. vL2 (vw b) y = (if tc_link_id a \<noteq> None \<and> y = a_ifindex a then None else vL2 (vw (bpf st)) y)) \<and>
    (\<forall>t. vTc (vw b) t = (if tc_link_id a = Some t then None else vTc (vw (bpf st)) t))"
proof -
  define b1 where "b1 = (case tc_link_id a of None \<Rightarrow> bpf st
    | Some t \<Rightarrow> clear_iface_maps A (a_ifindex a) (snd (tc_detach A t (bpf st))))"
  define b2 where "b2 = clear_arp_entry A (a_key a) b1"
  have v: "vXdp (vw b2) = vXdp (vw (bpf st))" "vArp (vw b2) = (vArp (vw (bpf st)))(a_key a := None)"
    "\<forall>y. vDscp (vw b2) y = (if tc_link_id a \<noteq> None \<and> y = a_ifindex a then None else vDscp (vw (bpf st)) y)"
    "\<forall>y. vL2 (vw b2) y = (if tc_link_id a \<noteq> None \<and> y = a_ifindex a then None else vL2 (vw (bpf st)) y)"
    "\<forall>t. vTc (vw b2) t = (if tc_link_id a = Some t then None else vTc (vw (bpf st)) t)"
    by (simp_all add: b2_def b1_def clear_view [OF assms(1)] bpf_requests [OF assms(1)] split: option.split)
  obtain r b3 where d: "xdp_detach A (link_id a) b2 = (r, b3)" by (cases "xdp_detach A (link_id a) b2")
  have "vXdp (vw b2) (link_id a) \<noteq> None"
    using engine_invD(6) [OF assms(2), of "link_id a" iface] assms(3) v(1) by auto
  then have r: "\<not> isl r" and b3: "vw b3 = (vw b2)\<lparr>vXdp := (vXdp (vw b2))(link_id a := None)\<rparr>"
    using bpf_requests(1,2) [OF assms(1), where b = b2 and l = "link_id a"] d by auto
  have "remove_interface A iface st = (Inr (), \<lparr>bpf = b3, attached = hm_remove iface (attached st)\<rparr>)"
    using r d assms(3) by (cases r; cases "tc_link_id a")
      (auto simp: remove_interface_def Let_def bpf_present [OF assms(1)] b2_def b1_def)
  then show ?thesis using v b3 by auto
qed

lemma engine_inv_remove:
  assumes "bpf_laws A vw" "engine_inv vw st"
  shows "engine_inv vw (snd (remove_interface A iface st))"
proof (cases "hm_get (attached st) iface")
  case None
  with assms(2) show ?thesis by (simp add: remove_interface_def)
next
  case (Some a)
  from remove_interface_view [OF assms Some] obtain b where
    r: "remove_interface A iface st = (Inr (), \<lparr>bpf = b, attached = hm_remove iface (attached st)\<rparr>)"
    and v: "vArp (vw b) = (vArp (vw (bpf st)))(a_key a := None)"
      "vXdp (vw b) = (vXdp (vw (bpf st)))(link_id a := None)"
      "\<And>y. vDscp (vw b) y = (if tc_link_id a \<noteq> None \<and> y = a_ifindex a then None else vDscp (vw (bpf st)) y)"
      "\<And>y. vL2 (vw b) y = (if tc_link_id a \<noteq> None \<and> y = a_ifindex a then None else vL2 (vw (bpf st)) y)"
      "\<And>t. vTc (vw b) t = (if tc_link_id a = Some t then None else vTc (vw (bpf st)) t)" by blast
  note inv = engine_invD [OF assms(2)]
  have same: "i = iface" if "hm_get (attached st) i = Some a'" "a_ifindex a' = a_ifindex a" for i a'
    using inv(2) [OF that(1) Some that(2)] .
  have sameK: "i = iface" if "hm_get (attached st) i = Some a'" "a_key a' = a_key a" for i a'
    using same [OF that(1)] inv(1) [OF that(1)] inv(1) [OF Some] that(2) by simp
  have sameL: "i = iface" if "hm_get (attached st) i = Some a'" "link_id a' = link_id a" for i a'
    using inv(6) [of "link_id a" i] inv(6) [of "link_id a" iface] Some that by auto
  have sameT: "i = iface" if "hm_get (attached st) i = Some a'" "tc_link_id a' = Some t" "tc_link_id a = Some t" for i a' t
    using inv(7) [of t i] inv(7) [of t iface] Some that by auto
  have rm: "(\<exists>i a. hm_get (hm_remove iface (attached st)) i = Some a \<and> P a) \<longleftrightarrow>
      \<not> P a \<and> (\<exists>i a. hm_get (attached st) i = Some a \<and> P a)"
    if "\<And>i a'. hm_get (attached st) i = Some a' \<Longrightarrow> P a' \<Longrightarrow> P a \<Longrightarrow> i = iface" for P
    using ex_hm_remove [OF Some, of P] that by blast
  have K: "(\<exists>i a. hm_get (hm_remove iface (attached st)) i = Some a \<and> a_key a = k) \<longleftrightarrow>
      a_key a \<noteq> k \<and> vArp (vw (bpf st)) k \<noteq> None" for k
    unfolding inv(3) by (rule rm) (simp add: sameK)
  have X: "(\<exists>i a. hm_get (hm_remove iface (attached st)) i = Some a \<and> tc_link_id a \<noteq> None \<and> a_ifindex a = x) \<longleftrightarrow>
      \<not> (tc_link_id a \<noteq> None \<and> a_ifindex a = x) \<and>
      (\<exists>i a. hm_get (attached st) i = Some a \<and> tc_link_id a \<noteq> None \<and> a_ifindex a = x)" for x
    by (rule rm) (simp add: same)
  show ?thesis
    unfolding engine_inv_def Let_def r snd_conv Dumbarp.simps v
    apply (intro conjI allI)
    subgoal using inv(1) by auto
    subgoal using inv(2) by auto
    subgoal for k unfolding K by simp
    subgoal for x unfolding X inv(4) [symmetric] by auto
    subgoal for x unfolding X inv(5) [symmetric] by auto
    subgoal for l n using inv(6) [of l n] Some by (auto dest: sameL)
    subgoal for t n using inv(7) [of t n] Some by (auto dest: sameT)
    done
qed

lemma bpf_load:
  assumes "bpf_laws A vw" "Dumbarp_new A = Inr st"
  shows "vw (bpf st) = empty_view" "attached st = []"
proof -
  have l: "\<And>b. ebpf_load A = Inr b \<Longrightarrow> vw b = empty_view"
    "\<And>b. vw (snd (xdp_load A b)) = vw b" "\<And>b. vw (snd (tc_load A b)) = vw b"
    using assms(1) unfolding bpf_laws_def by - (elim conjE, simp only: HOL.simp_thms)+
  from assms(2) obtain b b1 b2 u v where "ebpf_load A = Inr b" "xdp_load A b = (Inr u, b1)"
    "tc_load A b1 = (Inr v, b2)" "st = \<lparr>bpf = b2, attached = []\<rparr>"
    by (auto simp: Dumbarp_new_def split: sum.splits prod.splits if_splits)
  with l(1) [of b] l(2) [of b] l(3) [of b1] show "vw (bpf st) = empty_view" "attached st = []" by simp_all
qed

lemma engine_inv_new: "bpf_laws A vw \<Longrightarrow> Dumbarp_new A = Inr st \<Longrightarrow> engine_inv vw st"
  using bpf_load [of A vw st] by (simp add: engine_inv_def empty_view_def)

section \<open>Runs of the engine\<close>

text \<open>
  The states the daemon can bring the engine to: it is created once, and interfaces are added and
  removed in any order, with any outcome. At an \<open>add_interface\<close> the kernel's index of the interface is
  not the index of another attached one.
\<close>

inductive engine_run :: "('b, 'x, 't) aya \<Rightarrow> endian \<Rightarrow> ('b, 'x, 't) Dumbarp \<Rightarrow> bool" for A en where
  created: "Dumbarp_new A = Inr st \<Longrightarrow> engine_run A en st"
| add: "engine_run A en st \<Longrightarrow> fresh_ifindex rd iface st \<Longrightarrow>
    engine_run A en (snd (add_interface A en rd iface ip d st))"
| remove: "engine_run A en st \<Longrightarrow> engine_run A en (snd (remove_interface A iface st))"

lemma engine_inv_step_add:
  assumes "bpf_laws A vw" "engine_inv vw st" "fresh_ifindex rd iface st"
  shows "engine_inv vw (snd (add_interface A en rd iface ip d st))"
proof -
  obtain r st' where a: "add_interface A en rd iface ip d st = (r, st')"
    by (cases "add_interface A en rd iface ip d st")
  show ?thesis
  proof (cases r)
    case (Inl e)
    with add_interface_failure [OF assms, of en ip d e st'] a assms(2) show ?thesis
      using engine_inv_cong [of vw st' st] by simp
  next
    case (Inr u)
    with engine_inv_add [OF assms, of en ip d u st'] a show ?thesis by simp
  qed
qed

lemma engine_run_inv: "engine_run A en st \<Longrightarrow> bpf_laws A vw \<Longrightarrow> engine_inv vw st"
  by (induction rule: engine_run.induct) (simp_all add: engine_inv_new engine_inv_step_add engine_inv_remove)

lemma new_engine_attached: "Dumbarp_new A = Inr e \<Longrightarrow> attached e = []"
  by (auto simp: Dumbarp_new_def split: sum.splits prod.splits if_splits)

lemma new_engine_maps:
  assumes "Dumbarp_new A = Inr e" "bpf_laws A vw"
  shows "engine_inv vw e" "vArp (vw (bpf e)) k = None" "vDscp (vw (bpf e)) x = None" "fresh_ifindex rd i e"
proof -
  note at = new_engine_attached [OF assms(1)]
  show inv: "engine_inv vw e" using assms by (intro engine_run_inv engine_run.created)
  show "vArp (vw (bpf e)) k = None" "vDscp (vw (bpf e)) x = None"
    using inv at unfolding engine_inv_def Let_def by (metis map_of.simps(1) option.distinct(1))+
  show "fresh_ifindex rd i e" using at by (simp add: fresh_ifindex_def)
qed

section \<open>A library that meets the laws\<close>

text \<open>
  The BPF state as its own view, with a counter for link handles. Attaching an egress classifier
  succeeds or not by the parameter; an attach fails too when the next handle is in use.
\<close>

type_synonym sim_state = "nat \<times> (nat, nat) bpf_view"

definition sim_aya :: "bool \<Rightarrow> (sim_state, nat, nat) aya" where
  "sim_aya tc_ok =
     \<lparr>ebpf_load = Inr (0, empty_view),
      xdp_load = (\<lambda>b. (Inr (), b)), tc_load = (\<lambda>b. (Inr (), b)),
      ay_xdp = (\<lambda>_. Present), ay_tc = (\<lambda>_. Present), ay_arp = (\<lambda>_. Present), ay_dscp = (\<lambda>_. Present),
      ay_l2 = (\<lambda>_. Present),
      xdp_attach = (\<lambda>i (n, v). if vXdp v n = None then (Inr n, (Suc n, v\<lparr>vXdp := (vXdp v)(n \<mapsto> i)\<rparr>)) else (Inl (), (n, v))),
      xdp_detach = (\<lambda>l (n, v). (if vXdp v l = None then Inl () else Inr (), (n, v\<lparr>vXdp := (vXdp v)(l := None)\<rparr>))),
      tc_attach = (\<lambda>i (n, v). if tc_ok \<and> vTc v n = None then (Inr n, (Suc n, v\<lparr>vTc := (vTc v)(n \<mapsto> i)\<rparr>)) else (Inl (), (n, v))),
      tc_detach = (\<lambda>l (n, v). (if vTc v l = None then Inl () else Inr (), (n, v\<lparr>vTc := (vTc v)(l := None)\<rparr>))),
      qdisc_add_clsact = (\<lambda>i b. (Inr (), b)),
      arp_insert = (\<lambda>k m (n, v). (Inr (), (n, v\<lparr>vArp := (vArp v)(k \<mapsto> m)\<rparr>))),
      arp_remove = (\<lambda>k (n, v). (Inr (), (n, v\<lparr>vArp := (vArp v)(k := None)\<rparr>))),
      dscp_insert = (\<lambda>k m (n, v). (Inr (), (n, v\<lparr>vDscp := (vDscp v)(k \<mapsto> m)\<rparr>))),
      dscp_remove = (\<lambda>k (n, v). (Inr (), (n, v\<lparr>vDscp := (vDscp v)(k := None)\<rparr>))),
      l2_insert = (\<lambda>k m (n, v). (Inr (), (n, v\<lparr>vL2 := (vL2 v)(k \<mapsto> m)\<rparr>))),
      l2_remove = (\<lambda>k (n, v). (Inr (), (n, v\<lparr>vL2 := (vL2 v)(k := None)\<rparr>)))\<rparr>"

lemma sim_aya_laws: "bpf_laws (sim_aya tc_ok) snd"
  by (simp add: bpf_laws_def sim_aya_def split: prod.split)

definition sim_sysfs :: read_file where
  "sim_sysfs path =
     (if path = sys_path ''eth0'' ''address'' then Some (mac_to_string (2, 0, 0, 0, 0, 1) @ [CHR 0x0A])
      else if path = sys_path ''eth0'' ''ifindex'' then Some ''2''
      else if path = sys_path ''eth0'' ''type'' then Some ''1''
      else None)"

lemma sim_sysfs_eth0:
  "iface_mac sim_sysfs ''eth0'' = Inr (2, 0, 0, 0, 0, 1)"
  "iface_ifindex sim_sysfs ''eth0'' = Inr 2"
  "iface_l2_len sim_sysfs ''eth0'' = Inr 14"
  subgoal by (simp add: iface_mac_def sim_sysfs_def trim_mac del: mac_to_string.simps)
  subgoal by (simp add: iface_ifindex_def read_u32_def sim_sysfs_def sys_path_def trim_def is_space_def
      parse_uint_def strip_plus_def digit_of_def hex_val_def)
  subgoal by (simp add: iface_l2_len_def read_u32_def sim_sysfs_def sys_path_def trim_def is_space_def
      parse_uint_def strip_plus_def digit_of_def hex_val_def ARPHRD_ETHER_def ETH_HLEN_def)
  done

lemma sim_new: "Dumbarp_new (sim_aya tc_ok) = Inr \<lparr>bpf = (0, empty_view), attached = []\<rparr>"
  by (simp add: Dumbarp_new_def sim_aya_def)

lemma sim_fresh: "fresh_ifindex rd iface \<lparr>bpf = b, attached = []\<rparr>"
  by (simp add: fresh_ifindex_def)

lemma sim_add_fails:
  "add_interface (sim_aya False) LittleEndian sim_sysfs ''eth0'' (10, 0, 0, 1) (Some 5)
     \<lparr>bpf = (0, empty_view), attached = []\<rparr> =
   (Inl (TcAttachFailed ''eth0''), \<lparr>bpf = (1, empty_view), attached = []\<rparr>)"
  by (simp add: add_interface_def add_maps_def attach_egress_def detach_xdp_def clear_iface_maps_def
      clear_arp_entry_def sim_aya_def sim_sysfs_eth0 empty_view_def Let_def)

lemma sim_add_works:
  "\<exists>b. add_interface (sim_aya True) LittleEndian sim_sysfs ''eth0'' (10, 0, 0, 1) (Some 5)
     \<lparr>bpf = (0, empty_view), attached = []\<rparr> = (Inr (), \<lparr>bpf = b, attached = [(''eth0'',
       \<lparr>link_id = 0, tc_link_id = Some 1, a_key = \<lparr>ak_ifindex = 2, ak_ip = u32_from_ne_bytes LittleEndian (10, 0, 0, 1)\<rparr>,
        a_ifindex = 2\<rparr>)]\<rparr>)"
  by (simp add: add_interface_def add_maps_def attach_egress_def sim_aya_def sim_sysfs_eth0 empty_view_def Let_def)

section \<open>Properties\<close>

text \<open>
  C26. The maps always match the attached interfaces. In every state the engine can reach, whatever
  requests failed on the way, \<open>ARP_TABLE\<close> has exactly the keys of the attached interfaces, \<open>DSCP_ID\<close> and
  \<open>L2_LEN\<close> exactly the indices of those that tag, and the live links are exactly the recorded ones.
\<close>

theorem engine_maps_match:
  assumes "engine_run A en st" "bpf_laws A vw"
  shows "engine_inv vw st"
  using assms by (rule engine_run_inv)

theorem engine_maps_match_witness:
  "engine_inv snd (snd (add_interface (sim_aya True) LittleEndian sim_sysfs ''eth0'' (10, 0, 0, 1) (Some 5)
     \<lparr>bpf = (0, empty_view), attached = []\<rparr>))"
  by (rule engine_maps_match [OF engine_run.add [OF engine_run.created [OF sim_new] sim_fresh] sim_aya_laws])

text \<open>
  C27. A failed \<open>add_interface\<close> leaves nothing behind. From any state the engine can reach, when adding an
  interface reports an error, at whichever of its steps, the three maps, the live links and the
  recorded interfaces are as they were.
\<close>

theorem failed_add_leaves_nothing:
  assumes "engine_run A en st" "bpf_laws A vw" "fresh_ifindex rd iface st"
    and "add_interface A en rd iface ip d st = (Inl e, st')"
  shows "vw (bpf st') = vw (bpf st) \<and> attached st' = attached st"
  using add_interface_failure [OF assms(2) engine_run_inv [OF assms(1,2)] assms(3,4)] .

theorem failed_add_leaves_nothing_witness:
  "snd (bpf (snd (add_interface (sim_aya False) LittleEndian sim_sysfs ''eth0'' (10, 0, 0, 1) (Some 5)
     \<lparr>bpf = (0, empty_view), attached = []\<rparr>))) = empty_view"
  using failed_add_leaves_nothing [OF engine_run.created [OF sim_new] sim_aya_laws sim_fresh sim_add_fails]
    sim_add_fails by simp

text \<open>
  C28. Adding and removing undo each other. When adding an interface succeeds, removing it succeeds
  too, and afterwards the maps, the links and the recorded interfaces are as before the addition.
\<close>

theorem add_remove_restores:
  assumes "engine_run A en st" "bpf_laws A vw" "fresh_ifindex rd iface st"
    and "add_interface A en rd iface ip d st = (Inr (), st1)"
  shows "fst (remove_interface A iface st1) = Inr () \<and>
    vw (bpf (snd (remove_interface A iface st1))) = vw (bpf st) \<and>
    hm_get (attached (snd (remove_interface A iface st1))) = hm_get (attached st)"
proof (rule add_interface_success [OF assms(2) engine_run_inv [OF assms(1,2)] assms(3,4)])
  fix m x l tc
  let ?k = "\<lparr>ak_ifindex = x, ak_ip = u32_from_ne_bytes en ip\<rparr>" and ?v = "vw (bpf st)"
  assume x: "iface_ifindex rd iface = Inr x" and n: "hm_get (attached st) iface = None"
    and l: "vXdp ?v l = None" 
    and at: "attached st1 = hm_insert iface \<lparr>link_id = l, tc_link_id = tc, a_key = ?k, a_ifindex = x\<rparr> (attached st)"
    and tc: "case tc of
       None \<Rightarrow> d = None \<and> vw (bpf st1) = ?v\<lparr>vXdp := (vXdp ?v)(l \<mapsto> iface), vArp := (vArp ?v)(?k \<mapsto> m)\<rparr>
     | Some t \<Rightarrow> \<exists>i len. d = Some i \<and> iface_l2_len rd iface = Inr len \<and> vTc ?v t = None \<and>
         vw (bpf st1) = ?v\<lparr>vXdp := (vXdp ?v)(l \<mapsto> iface), vArp := (vArp ?v)(?k \<mapsto> m),
           vDscp := (vDscp ?v)(x \<mapsto> i), vL2 := (vL2 ?v)(x \<mapsto> len), vTc := (vTc ?v)(t \<mapsto> iface)\<rparr>"
  note inv = engine_run_inv [OF assms(1,2)]
  note unused = engine_inv_unused [OF inv assms(3) x]
  obtain b where r: "remove_interface A iface st1 = (Inr (), \<lparr>bpf = b, attached = hm_remove iface (attached st1)\<rparr>)"
    and v: "vArp (vw b) = (vArp (vw (bpf st1)))(?k := None)" "vXdp (vw b) = (vXdp (vw (bpf st1)))(l := None)"
      "\<And>y. vDscp (vw b) y = (if tc \<noteq> None \<and> y = x then None else vDscp (vw (bpf st1)) y)"
      "\<And>y. vL2 (vw b) y = (if tc \<noteq> None \<and> y = x then None else vL2 (vw (bpf st1)) y)"
      "\<And>t. vTc (vw b) t = (if tc = Some t then None else vTc (vw (bpf st1)) t)"
    using remove_interface_view [OF assms(2) engine_inv_add [OF assms(2) inv assms(3,4)],
        of iface "\<lparr>link_id = l, tc_link_id = tc, a_key = ?k, a_ifindex = x\<rparr>"] at by auto
  have "vArp (vw b) = vArp ?v" "vXdp (vw b) = vXdp ?v" "vDscp (vw b) = vDscp ?v" "vL2 (vw b) = vL2 ?v"
    "vTc (vw b) = vTc ?v"
    using v tc unused l by (auto simp: fun_eq_iff split: option.splits)
  then have "vw b = ?v" by (intro bpf_view.equality) simp_all
  then show ?thesis using r at n by (auto simp: fun_eq_iff)
qed

theorem add_remove_restores_witness:
  "snd (bpf (snd (remove_interface (sim_aya True) ''eth0''
     (snd (add_interface (sim_aya True) LittleEndian sim_sysfs ''eth0'' (10, 0, 0, 1) (Some 5)
        \<lparr>bpf = (0, empty_view), attached = []\<rparr>))))) = empty_view"
proof -
  obtain st1 where a: "add_interface (sim_aya True) LittleEndian sim_sysfs ''eth0'' (10, 0, 0, 1) (Some 5)
      \<lparr>bpf = (0, empty_view), attached = []\<rparr> = (Inr (), st1)" using sim_add_works by blast
  show ?thesis
    using add_remove_restores [OF engine_run.created [OF sim_new] sim_aya_laws sim_fresh a] a by simp
qed

end
