(* ===== verification/Routerd_Main.thy ===== *)
theory Routerd_Main
  imports Routerd Engine Lifecycle
begin

text \<open>
  The life of the router daemon, \<open>src/dumbarp-routerd/src/main.rs\<close>: it attaches the classifier
  (\<open>Datapath::load\<close> of \<open>datapath.rs\<close>), removes routing state left by an earlier run, runs a pass at once and
  one per tick (\<open>spawn\<close> of \<open>reconcile.rs\<close>), and removes its routing state when it is told to stop.
\<close>

section \<open>Attaching the classifier\<close>

text \<open>What the code calls of the BPF library to attach one classifier to several interfaces.\<close>

record 'b tc_loader =
  tl_load :: "unit + 'b"
  tl_program :: "'b \<Rightarrow> found"
  tl_program_load :: "'b \<Rightarrow> (unit + unit) \<times> 'b"
  tl_qdisc_add_clsact :: "string \<Rightarrow> 'b \<Rightarrow> (unit + unit) \<times> 'b"
  tl_attach_ingress :: "string \<Rightarrow> 'b \<Rightarrow> (unit + unit) \<times> 'b"

datatype load_error = ObjectNotLoaded | ClassifierNotFound | ClassifierNotLoaded | IngressAttachFailed string

definition link_type :: "read_file \<Rightarrow> string \<Rightarrow> u32 option" where
  "link_type read_to_string iface =
     (case read_to_string (sys_path iface ''type'') of
        None \<Rightarrow> None
      | Some s \<Rightarrow> map_option of_nat (parse_uint 10 4294967295 (trim s)))"

text \<open>The loop over the interfaces; with each attached interface comes what is logged of its type.\<close>

fun attach_ingress ::
  "'b tc_loader \<Rightarrow> read_file \<Rightarrow> string list \<Rightarrow> (string \<times> bool) list \<Rightarrow> 'b \<Rightarrow> load_error + (string \<times> bool) list \<times> 'b" where
  "attach_ingress L read_to_string [] log b = Inr (log, b)"
| "attach_ingress L read_to_string (iface # rest) log b =
     (let b1 = snd (tl_qdisc_add_clsact L iface b) in
      if tl_program L b1 \<noteq> Present then Inl ClassifierNotFound
      else case tl_attach_ingress L iface b1 of
        (Inl _, _) \<Rightarrow> Inl (IngressAttachFailed iface)
      | (Inr _, b2) \<Rightarrow>
          let l3 = (case link_type read_to_string iface of Some t \<Rightarrow> t \<noteq> ARPHRD_ETHER | None \<Rightarrow> False)
          in attach_ingress L read_to_string rest (log @ [(iface, l3)]) b2)"

definition Datapath_load ::
  "'b tc_loader \<Rightarrow> read_file \<Rightarrow> string list \<Rightarrow> load_error + (string \<times> bool) list \<times> 'b" where
  "Datapath_load L read_to_string names =
     (case tl_load L of
        Inl _ \<Rightarrow> Inl ObjectNotLoaded
      | Inr b \<Rightarrow>
          if tl_program L b \<noteq> Present then Inl ClassifierNotFound
          else case tl_program_load L b of
            (Inl _, _) \<Rightarrow> Inl ClassifierNotLoaded
          | (Inr _, b1) \<Rightarrow> attach_ingress L read_to_string names [] b1)"

section \<open>The life of the daemon\<close>

text \<open>
  A pass with its environment and its two readings of the clock; between the passes the world may
  change in any way the environments differ.
\<close>

type_synonym ('url, 'resp, 'm, 's) pass_env = "('url, 'resp, 'm, 's) router_env \<times> nat \<times> nat"

fun run_passes ::
  "'url Config \<Rightarrow> ('url, 'resp, 'm, 's) pass_env list \<Rightarrow> 'm RouterState \<Rightarrow> 's \<Rightarrow> 'm RouterState \<times> 's" where
  "run_passes cfg [] st s = (st, s)"
| "run_passes cfg ((E, now1, now2) # ps) st s =
     (case reconcile_once E cfg now1 now2 st s of (_, st', s') \<Rightarrow> run_passes cfg ps st' s')"

datatype routerd_start_error =
    RsConfig Routerd.load_error
  | RsNoClient
  | RsNetlink connect_error
  | RsDatapath load_error
  | RsSignal

text \<open>
  The whole of \<open>main\<close>: the calls that may fail on the way are arguments. When the signal handler cannot
  be installed, \<open>main\<close> ends without the teardown; the result of the teardown is only logged. The sources
  do not stop the timer task before the teardown: \<open>ticks\<close> are its passes before the teardown, and \<open>late\<close> those
  it still makes between the teardown and the end of the process. Passes whose requests fall between
  those of the teardown are outside the model.
\<close>

definition routerd_main ::
  "Routerd.load_error + 'url Config \<Rightarrow> unit + unit \<Rightarrow> unit + 's netlink \<Rightarrow> 'm tc_loader \<Rightarrow> read_file \<Rightarrow>
     (u32 list \<Rightarrow> u32 list) \<Rightarrow> ('url, 'resp, 'm, 's) pass_env \<Rightarrow> ('url, 'resp, 'm, 's) pass_env list \<Rightarrow> unit + unit \<Rightarrow>
     ('url, 'resp, 'm, 's) pass_env list \<Rightarrow> 's \<Rightarrow>
     (routerd_start_error + (route_error + unit) \<times> warning list) \<times> 's" where
  "routerd_main config client new_connection L read_to_string iter first ticks shutdown_signal late s =
     (case config of
        Inl e \<Rightarrow> (Inl (RsConfig e), s)
      | Inr cfg \<Rightarrow>
          (case client of
             Inl _ \<Rightarrow> (Inl RsNoClient, s)
           | Inr _ \<Rightarrow>
               (case RouteManager_new new_connection of
                  Inl e \<Rightarrow> (Inl (RsNetlink e), s)
                | Inr K \<Rightarrow>
                    (case Datapath_load L read_to_string (ifaces (dscp cfg)) of
                       Inl e \<Rightarrow> (Inl (RsDatapath e), s)
                     | Inr (_, datapath) \<Rightarrow>
                         let st = \<lparr>st_cache = [], st_gateway_cache = [], st_datapath = datapath, st_known_ids = []\<rparr>;
                             (_, _, s1) = reconcile K iter [] s;
                             (st', s2) = run_passes cfg (first # ticks) st s1
                         in case shutdown_signal of
                              Inl _ \<Rightarrow> (Inl RsSignal, s2)
                            | Inr _ \<Rightarrow> (case reconcile K iter [] s2 of
                                 (r, log, s3) \<Rightarrow> (Inr (r, log), snd (run_passes cfg late st' s3)))))))"

section \<open>Lemmas\<close>

lemma pass_wf:
  assumes "netlink_laws (re_netlink E)" "iter_ok (re_iter_tables E)" "routes_wf (re_netlink E) s"
    and "reconcile_once E cfg now1 now2 st s = (rep, st', s')"
  shows "routes_wf (re_netlink E) s' \<and> foreign_rules (re_netlink E) s' = foreign_rules (re_netlink E) s"
proof -
  obtain stats adv ids desired st1 where ap: "apply_pass E stats ids desired st1 s = (rep, st', s')"
    and ids: "ids = fst (resolve_ids adv (st_known_ids st) (from_secs (stale_after_secs cfg)) now2)"
    and marks: "marks_are_ids ids desired"
    using reconcile_once_apply [OF assms(4)] by metis
  show ?thesis
    by (rule reconcile_wf [OF assms(1-3) marks_nonzero [OF marks [unfolded ids]] apply_pass_unfold(3) [OF ap]])
qed

definition pass_ok :: "'s netlink \<Rightarrow> ('url, 'resp, 'm, 's) pass_env \<Rightarrow> bool" where
  "pass_ok K p \<longleftrightarrow> re_netlink (fst p) = K \<and> iter_ok (re_iter_tables (fst p))"

lemma pass_in_sync:
  assumes "netlink_laws (re_netlink E)" "iter_ok (re_iter_tables E)" "routes_wf (re_netlink E) s"
    and "reconcile_once E cfg now1 now2 st s = (rep, st', s')" "pr_routes rep = Inr ()"
    and "\<forall>w \<in> set (pr_warnings rep). failed_table w \<noteq> Some t"
  shows "in_sync (re_netlink E) s' t (wanted (re_netlink E) s (pr_desired rep) t)"
proof -
  obtain stats adv ids desired st1 where ap: "apply_pass E stats ids desired st1 s = (rep, st', s')"
    and ids: "ids = fst (resolve_ids adv (st_known_ids st) (from_secs (stale_after_secs cfg)) now2)"
    and marks: "marks_are_ids ids desired"
    using reconcile_once_apply [OF assms(4)] by metis
  note u = apply_pass_unfold [OF ap]
  show ?thesis
    using reconcile_effect [OF assms(1-3) marks_nonzero [OF marks [unfolded ids]] u(3) [unfolded assms(5)], of t]
      assms(6) u(1) by simp
qed

text \<open>The timer task: whatever the passes do, they keep the routes well-formed and the foreign rules in place.\<close>

definition router_pass :: "'url Config \<Rightarrow> ('url, 'resp, 'm, 's) pass_env \<Rightarrow> 'm RouterState \<times> 's \<Rightarrow> 'm RouterState \<times> 's" where
  "router_pass cfg p x = snd (reconcile_once (fst p) cfg (fst (snd p)) (snd (snd p)) (fst x) (snd x))"

interpretation router_ticks: tick_loop "router_pass cfg" "\<lambda>ps x. run_passes cfg ps (fst x) (snd x)"
  "\<lambda>p. netlink_laws K \<and> pass_ok K p" "\<lambda>x. routes_wf K (snd x) \<and> foreign_rules K (snd x) = foreign_rules K s0" for cfg K s0
proof
  fix p :: "('a, 'b, 'c, 'd) pass_env" and ps and x :: "'c RouterState \<times> 'd"
  show "run_passes cfg (p # ps) (fst x) (snd x) =
      run_passes cfg ps (fst (router_pass cfg p x)) (snd (router_pass cfg p x))"
    by (cases p) (simp add: router_pass_def split: prod.split)
  show "run_passes cfg [] (fst x) (snd x) = x" by simp
  assume ok: "netlink_laws K \<and> pass_ok K p" and inv: "routes_wf K (snd x) \<and> foreign_rules K (snd x) = foreign_rules K s0"
  have K: "re_netlink (fst p) = K" "iter_ok (re_iter_tables (fst p))" using ok by (simp_all add: pass_ok_def)
  obtain rep st' s' where r: "reconcile_once (fst p) cfg (fst (snd p)) (snd (snd p)) (fst x) (snd x) = (rep, st', s')"
    by (rule prod_cases3)
  then show "routes_wf K (snd (router_pass cfg p x)) \<and> foreign_rules K (snd (router_pass cfg p x)) = foreign_rules K s0"
    using pass_wf [OF _ K(2) _ r] ok inv unfolding K(1) by (simp add: router_pass_def)
qed

section \<open>Properties\<close>

text \<open>
  C20. The router daemon cleans up after itself and touches nothing else. Over a whole run, with any
  number of passes before and after the teardown, in any environments and with any failed requests: the
  policy rules that are not its own are at the end those that were there at the start; when it is told
  to stop, the final teardown reports no error and the timer task makes no pass after it, no rule and
  no route of its own is left in any table no request failed for; and a start that fails leaves the
  kernel as it was.
\<close>

theorem routerd_cleans_up:
  assumes "\<forall>K. new_connection = Inr K \<longrightarrow> netlink_laws K \<and> routes_wf K s \<and> list_all (pass_ok K) (first # ticks @ late)"
    and "iter_ok iter"
    and "routerd_main config client new_connection L rd iter first ticks shutdown_signal late s = (r, s')"
  shows "(\<forall>K. new_connection = Inr K \<longrightarrow> foreign_rules K s' = foreign_rules K s \<and>
      (\<forall>log t. late = [] \<longrightarrow> r = Inr (Inr (), log) \<longrightarrow> (\<forall>w \<in> set log. failed_table w \<noteq> Some t) \<longrightarrow>
         rules_at K s' t = {#} \<and> routes_at K s' t = {#})) \<and>
    (isl r \<longrightarrow> r \<noteq> Inl RsSignal \<longrightarrow> s' = s)"
proof (cases "isl r \<and> r \<noteq> Inl RsSignal")
  case True
  with assms(3) have "s' = s" by (auto simp: routerd_main_def Let_def split: sum.splits prod.splits)
  with True show ?thesis by auto
next
  case False
  with assms(3) obtain cfg K st0 r1 log1 s1 st2 s2 where K: "new_connection = Inr K"
    and purge: "reconcile K iter [] s = (r1, log1, s1)"
    and run: "run_passes cfg (first # ticks) st0 s1 = (st2, s2)"
    and last: "r = Inl RsSignal \<and> s' = s2 \<or>
      (\<exists>q log s3. r = Inr (q, log) \<and> reconcile K iter [] s2 = (q, log, s3) \<and> s' = snd (run_passes cfg late st2 s3))"
    by (fastforce simp: routerd_main_def Let_def RouteManager_new_def split: sum.splits prod.splits)
  have laws: "netlink_laws K" "routes_wf K s" "list_all (pass_ok K) (first # ticks)" "list_all (pass_ok K) late"
    using assms(1) K by auto
  note passes = router_ticks.loop_inv [where cfg = cfg and K = K]
  have 1: "routes_wf K s1 \<and> foreign_rules K s1 = foreign_rules K s"
    by (rule reconcile_wf [OF laws(1) assms(2) laws(2) _ purge]) simp
  have 2: "routes_wf K s2 \<and> foreign_rules K s2 = foreign_rules K s1"
    using passes [where s = "(st0, s1)" and ?s0.0 = s1 and es = "first # ticks"] laws(1,3) 1 run by (simp add: list.pred_set)
  have 3: "foreign_rules K s' = foreign_rules K s2"
  proof (cases "r = Inl RsSignal")
    case False
    then obtain q log s3 where s3: "reconcile K iter [] s2 = (q, log, s3)" "s' = snd (run_passes cfg late st2 s3)"
      using last by auto
    have "routes_wf K s3 \<and> foreign_rules K s3 = foreign_rules K s2"
      by (rule reconcile_wf [OF laws(1) assms(2) conjunct1 [OF 2] _ s3(1)]) simp
    then show ?thesis
      using passes [where s = "(st2, s3)" and ?s0.0 = s3 and es = late] laws(1,4) s3(2) by (simp add: list.pred_set)
  qed (use last in auto)
  have "in_sync K s' t None" if "late = []" "r = Inr (Inr (), log)" "\<forall>w \<in> set log. failed_table w \<noteq> Some t" for log t
  proof -
    have "reconcile K iter [] s2 = (Inr (), log, s')" using last that(1,2) by auto
    from reconcile_effect [OF laws(1) assms(2) conjunct1 [OF 2] _ this, of t] that(3) show ?thesis by (simp add: wanted_Nil)
  qed
  with 1 2 3 K False show ?thesis by (auto simp: in_sync_def)
qed

text \<open>A loader that attaches everything; its state is the map of ids.\<close>

definition sample_loader :: "(u8, u32) hashmap tc_loader" where
  "sample_loader = \<lparr>tl_load = Inr [], tl_program = (\<lambda>b. Present), tl_program_load = (\<lambda>b. (Inr (), b)),
     tl_qdisc_add_clsact = (\<lambda>i b. (Inr (), b)), tl_attach_ingress = (\<lambda>i b. (Inr (), b))\<rparr>"

theorem routerd_cleans_up_witness:
  "foreign_rules list_netlink (snd (routerd_main (Inr sample_config) (Inr ()) (Inr list_netlink) sample_loader (\<lambda>_. None)
     (\<lambda>ts. ts) (sample_router_env, 0, 0) [(sample_router_env, 30, 30)] (Inr ()) [(sample_router_env, 60, 60)] ([foreign_rule], []))) = [foreign_rule]"
proof -
  let ?m = "routerd_main (Inr sample_config) (Inr ()) (Inr list_netlink) sample_loader (\<lambda>_. None)
     (\<lambda>ts. ts) (sample_router_env, 0, 0) [(sample_router_env, 30, 30)] (Inr ()) [(sample_router_env, 60, 60)] ([foreign_rule], [])"
  have m: "?m = (fst ?m, snd ?m)" by simp
  have "list_all (pass_ok list_netlink) ((sample_router_env, 0, 0) # [(sample_router_env, 30, 30)] @ [(sample_router_env, 60, 60)])"
    using sample_hyps(2) by (simp add: pass_ok_def sample_env)
  then have "\<forall>K. (Inr list_netlink :: unit + list_kernel netlink) = Inr K \<longrightarrow> netlink_laws K \<and>
      routes_wf K ([foreign_rule], []) \<and> list_all (pass_ok K) ((sample_router_env, 0, 0) # [(sample_router_env, 30, 30)] @ [(sample_router_env, 60, 60)])"
    using sample_hyps(1) foreign_rule_kernel by auto
  from routerd_cleans_up [OF this sample_hyps(2) m] foreign_rule_kernel show ?thesis by simp
qed

lemma sample_pass_kernel:
  "snd (run_passes sample_config [(sample_router_env, now1, now2)] st s) =
     snd (snd (reconcile list_netlink (\<lambda>ts. ts) [sample_spec] s))"
proof -
  obtain stats cache known rep st' s' where r: "reconcile_once sample_router_env sample_config now1 now2 st s = (rep, st', s')"
    "apply_pass sample_router_env stats [(''homelab'', 2)] [sample_spec] (st\<lparr>st_cache := cache, st_known_ids := known\<rparr>) s =
      (rep, st', s')"
    using sample_pass_eq by (metis prod_cases3)
  show ?thesis using r(1) apply_pass_unfold(3) [OF r(2)] by (simp add: sample_env)
qed

lemma sample_pass_report:
  assumes "reconcile_once sample_router_env sample_config now1 now2 st ([], []) = (rep, st', s')"
  shows "pr_desired rep = [sample_spec]" "pr_routes rep = Inr ()" "pr_warnings rep = []"
proof -
  obtain stats cache known where ap: "apply_pass sample_router_env stats [(''homelab'', 2)] [sample_spec]
      (st\<lparr>st_cache := cache, st_known_ids := known\<rparr>) ([], []) = (rep, st', s')"
    using sample_pass_eq assms by metis
  note u = apply_pass_unfold [OF ap, unfolded sample_env]
  have "fst (reconcile list_netlink (\<lambda>ts. ts) [sample_spec] ([], [])) = Inr ()"
    "fst (snd (reconcile list_netlink (\<lambda>ts. ts) [sample_spec] ([], []))) = []"
    by code_simp+
  with u show "pr_desired rep = [sample_spec]" "pr_routes rep = Inr ()" "pr_warnings rep = []" by simp_all
qed

text \<open>
  A run that is told to stop, taken apart: the state \<open>s2\<close> before the teardown, and the late passes, which
  start where the teardown ended.
\<close>

lemma routerd_main_stopped:
  assumes "routerd_main config client (Inr K) L rd iter first ticks sig [] s = (Inr (Inr (), log), s1)"
  obtains cfg st2 s0 s2 where "config = Inr cfg" "s0 = snd (snd (reconcile K iter [] s))"
    "s2 = snd (run_passes cfg (first # ticks) st2 s0)"
    "reconcile K iter [] s2 = (Inr (), log, s1)"
    "\<And>late. routerd_main config client (Inr K) L rd iter first ticks sig late s =
       (Inr (Inr (), log), snd (run_passes cfg late (fst (run_passes cfg (first # ticks) st2 s0)) s1))"
proof -
  from assms obtain cfg dp rest where 1: "config = Inr cfg" "client = Inr ()" "sig = Inr ()"
    "Datapath_load L rd (ifaces (dscp cfg)) = Inr (rest, dp)"
    by (auto simp: routerd_main_def Let_def RouteManager_new_def split: sum.splits prod.splits)
  let ?st = "\<lparr>st_cache = [], st_gateway_cache = [], st_datapath = dp, st_known_ids = []\<rparr>"
  let ?s0 = "snd (snd (reconcile K iter [] s))"
  let ?x = "run_passes cfg (first # ticks) ?st ?s0"
  have eq: "routerd_main config client (Inr K) L rd iter first ticks sig late s =
      (let (r, log, s3) = reconcile K iter [] (snd ?x) in (Inr (r, log), snd (run_passes cfg late (fst ?x) s3)))" for late
    by (simp add: routerd_main_def RouteManager_new_def 1 Let_def case_prod_unfold del: run_passes.simps(2))
  obtain r log' s3 where t: "reconcile K iter [] (snd ?x) = (r, log', s3)" by (rule prod_cases3)
  have "r = Inr ()" "log' = log" "s3 = s1" using assms by (simp_all add: eq t)
  with t eq show ?thesis using that [OF 1(1) refl refl, of ?st] by simp
qed

lemma router_passes_wf:
  assumes "netlink_laws K" "list_all (pass_ok K) ps" "routes_wf K s"
  shows "routes_wf K (snd (run_passes cfg ps st s))"
  using router_ticks.loop_inv [where cfg = cfg and K = K and s = "(st, s)" and ?s0.0 = s and es = ps] assms
  by (simp add: list.pred_set)

text \<open>
  C21. A pass after the teardown undoes it. When the daemon has been told to stop and no request of the
  teardown failed, no table holds a rule or a route of its own. If the timer task, which nothing stops,
  then still makes one pass, the kernel ends as that pass wants it: every table for which the pass reports
  no failed request holds exactly the rule and the route of the lease it resolves to, as if the daemon
  were still running, and they outlive the process.
\<close>

theorem late_pass_undoes_teardown:
  assumes "netlink_laws K" "routes_wf K s" "iter_ok iter" "list_all (pass_ok K) (first # ticks @ [p])"
    and stop: "routerd_main config client (Inr K) L rd iter first ticks sig [] s = (Inr (Inr (), log), s1)"
    and clean: "\<forall>w \<in> set log. failed_table w = None"
    and late: "routerd_main config client (Inr K) L rd iter first ticks sig [p] s = (r, s2)"
  shows "(\<forall>t. rules_at K s1 t = {#} \<and> routes_at K s1 t = {#}) \<and>
    (\<exists>cfg rep st st'. config = Inr cfg \<and>
       reconcile_once (fst p) cfg (fst (snd p)) (snd (snd p)) st s1 = (rep, st', s2) \<and>
       (pr_routes rep = Inr () \<longrightarrow>
        (\<forall>t w. (\<forall>m \<in> set (pr_warnings rep). failed_table m \<noteq> Some t) \<longrightarrow>
           wanted K s1 (pr_desired rep) t = Some w \<longrightarrow>
           rules_at K s2 t = {#rule_for w#} \<and> routes_at K s2 t = {#route_for w#})))"
proof -
  obtain cfg st0 sa sb where m: "config = Inr cfg" "sa = snd (snd (reconcile K iter [] s))"
    "sb = snd (run_passes cfg (first # ticks) st0 sa)" "reconcile K iter [] sb = (Inr (), log, s1)"
    "\<And>late. routerd_main config client (Inr K) L rd iter first ticks sig late s =
       (Inr (Inr (), log), snd (run_passes cfg late (fst (run_passes cfg (first # ticks) st0 sa)) s1))"
    by (rule routerd_main_stopped [OF stop]) blast
  have ok: "list_all (pass_ok K) (first # ticks)" "re_netlink (fst p) = K" "iter_ok (re_iter_tables (fst p))"
    using assms(4) by (simp_all add: pass_ok_def)
  have "routes_wf K sa" unfolding m(2)
    by (metis reconcile_wf [OF assms(1,3,2)] prod.collapse empty_iff list.set(1))
  then have wf: "routes_wf K sb"
    unfolding m(3) by (rule router_passes_wf [OF assms(1) ok(1)])
  have "in_sync K s1 t None" for t
    using reconcile_effect [OF assms(1,3) wf _ m(4), of t] clean by (simp add: wanted_Nil)
  then have none: "rules_at K s1 t = {#} \<and> routes_at K s1 t = {#}" for t by (simp add: in_sync_def)
  have wf1: "routes_wf K s1"
    by (rule conjunct1 [OF reconcile_wf [OF assms(1,3) wf _ m(4)]]) simp
  let ?st = "fst (run_passes cfg (first # ticks) st0 sa)"
  obtain rep st' s' where once: "reconcile_once (fst p) cfg (fst (snd p)) (snd (snd p)) ?st s1 = (rep, st', s')"
    by (rule prod_cases3)
  then have s2: "s' = s2" using late m(5) [of "[p]"] by (cases p) (simp del: run_passes.simps(2), simp)
  have "rules_at K s2 t = {#rule_for w#} \<and> routes_at K s2 t = {#route_for w#}"
    if "pr_routes rep = Inr ()" "\<forall>m \<in> set (pr_warnings rep). failed_table m \<noteq> Some t"
      "wanted K s1 (pr_desired rep) t = Some w" for t w
    using pass_in_sync [OF _ ok(3) _ once that(1,2), unfolded ok(2), OF assms(1) wf1] s2 that(3)
    by (simp add: in_sync_def)
  then show ?thesis
    using none m(1) once [unfolded s2] by (intro conjI exI [of _ cfg] exI [of _ rep] exI) simp_all
qed

theorem late_pass_undoes_teardown_witness:
  "let t = table_id_for (110, 13, 196, 173);
     run = (\<lambda>late. snd (routerd_main (Inr sample_config) (Inr ()) (Inr list_netlink) sample_loader (\<lambda>_. None)
       (\<lambda>ts. ts) (sample_router_env, 0, 0) [] (Inr ()) late ([], [])))
   in rules_at list_netlink (run []) t = {#} \<and>
      rules_at list_netlink (run [(sample_router_env, 30, 30)]) t \<noteq> {#}"
proof -
  let ?m = "\<lambda>late. routerd_main (Inr sample_config) (Inr ()) (Inr list_netlink) sample_loader (\<lambda>_. None)
     (\<lambda>ts. ts) (sample_router_env, 0, 0) [] (Inr ()) late ([], [])"
  let ?p = "(sample_router_env, 30, 30)" and ?t = "table_id_for (110, 13, 196, 173)"
  let ?s1 = "snd (snd (reconcile list_netlink (\<lambda>ts. ts) [sample_spec] ([], [])))"
  obtain rest dp where dp: "Datapath_load sample_loader (\<lambda>_. None) (ifaces (dscp sample_config)) = Inr (rest, dp)"
    by (simp add: Datapath_load_def sample_loader_def sample_config_def link_type_def)
  have purge: "reconcile list_netlink (\<lambda>ts. ts) [] ([], []) = (Inr (), [], ([], []))" by code_simp
  have tear: "reconcile list_netlink (\<lambda>ts. ts) [] ?s1 = (Inr (), [], ([], []))" by code_simp
  let ?st = "\<lparr>st_cache = [], st_gateway_cache = [], st_datapath = dp, st_known_ids = []\<rparr>"
  obtain st' where run: "run_passes sample_config [(sample_router_env, 0, 0)] ?st ([], []) = (st', ?s1)"
    using sample_pass_kernel by (metis prod.collapse)
  have stop: "?m [] = (Inr (Inr (), []), ([], []))"
    by (simp add: routerd_main_def RouteManager_new_def dp purge run tear del: run_passes.simps(2))
  have ok: "list_all (pass_ok list_netlink) ((sample_router_env, 0, 0) # [] @ [?p])"
    using sample_hyps(2) by (simp add: pass_ok_def sample_env)
  obtain r s2 where late: "?m [?p] = (r, s2)" by (cases "?m [?p]")
  note th = late_pass_undoes_teardown [OF sample_hyps(1,3,2) ok stop _ late]
  obtain rep st st2 where once: "reconcile_once sample_router_env sample_config 30 30 st ([], []) = (rep, st2, s2)"
    and eff: "\<And>t w. pr_routes rep = Inr () \<Longrightarrow> \<forall>m \<in> set (pr_warnings rep). failed_table m \<noteq> Some t \<Longrightarrow>
      wanted list_netlink ([], []) (pr_desired rep) t = Some w \<Longrightarrow> rules_at list_netlink s2 t = {#rule_for w#}"
    and none: "rules_at list_netlink ([], []) ?t = {#}"
    using th by auto
  have rep: "pr_desired rep = [sample_spec]" "pr_routes rep = Inr ()" "pr_warnings rep = []"
    using sample_pass_report [OF once] by simp_all
  have "wanted list_netlink ([], []) [sample_spec] ?t = Some \<lparr>rs_src = (110, 13, 196, 173),
      rs_gateway = (10, 0, 0, 5), rs_ifindex = 7, rs_fwmark = Some 2\<rparr>"
    by code_simp
  from eff [OF rep(2) _ this [folded rep(1)]] rep(3) have "rules_at list_netlink s2 ?t \<noteq> {#}" by simp
  with none stop late show ?thesis by (simp add: Let_def)
qed

end
