(* ===== verification/Gateway.thy ===== *)
theory Gateway
  imports Routing Http_Auth
begin

text \<open>
  The gateway, crate \<open>dumbarp-gateway\<close>: configuration (\<open>config.rs\<close>), the polling pass
  (\<open>reconcile.rs\<close>, \<open>client.rs\<close>) and the HTTP service that publishes what it learned (\<open>http.rs\<close>). File
  reading, TOML, HTTP and netlink are parameters. A request reaches the router as one of the two routes
  the service registers.
\<close>

section \<open>Configuration\<close>

record 'url GwDaemonEntry =
  gd_name :: string
  gd_endpoint :: 'url
  gd_auth_token :: string
  gd_nexthop :: ipv4addr
  gd_device :: string

record 'sock ServeConfig =
  listen :: 'sock
  serve_auth_token :: string

record ('url, 'sock) GwConfig =
  gc_refresh_interval_secs :: u64
  gc_stale_after_secs :: u64
  gc_manage_routes :: bool
  gc_daemons :: "'url GwDaemonEntry list"
  gc_serve :: "'sock ServeConfig option"

definition gw_default_refresh :: u64 where "gw_default_refresh = 30"
definition gw_default_stale :: u64 where "gw_default_stale = 300"
definition gw_default_manage_routes :: bool where "gw_default_manage_routes = True"

datatype gw_config_error =
    GwRead | GwParse
  | GwNoDaemons
  | GwZeroRefresh
  | GwStaleBelowRefresh u64 u64
  | GwEmptyName
  | GwEmptyDevice string
  | GwEmptyToken string
  | GwDuplicateName string
  | GwEmptyServeToken
  | GwNothingToDo

fun check_daemons :: "string list \<Rightarrow> 'url GwDaemonEntry list \<Rightarrow> gw_config_error + unit" where
  "check_daemons seen [] = Inr ()"
| "check_daemons seen (d # ds) =
     (if gd_name d = [] then Inl GwEmptyName
      else if gd_device d = [] then Inl (GwEmptyDevice (gd_name d))
      else if gd_auth_token d = [] then Inl (GwEmptyToken (gd_name d))
      else if gd_name d \<in> set seen then Inl (GwDuplicateName (gd_name d))
      else check_daemons (gd_name d # seen) ds)"

definition check_config :: "('url, 'sock) GwConfig \<Rightarrow> gw_config_error + ('url, 'sock) GwConfig" where
  "check_config cfg =
     (if gc_daemons cfg = [] then Inl GwNoDaemons
      else if gc_refresh_interval_secs cfg = 0 then Inl GwZeroRefresh
      else if gc_stale_after_secs cfg < gc_refresh_interval_secs cfg
        then Inl (GwStaleBelowRefresh (gc_stale_after_secs cfg) (gc_refresh_interval_secs cfg))
      else case check_daemons [] (gc_daemons cfg) of
        Inl e \<Rightarrow> Inl e
      | Inr _ \<Rightarrow>
          if (case gc_serve cfg of Some serve \<Rightarrow> serve_auth_token serve = [] | None \<Rightarrow> False) then Inl GwEmptyServeToken
          else if \<not> gc_manage_routes cfg \<and> gc_serve cfg = None then Inl GwNothingToDo
          else Inr cfg)"

definition gw_load ::
  "('path \<Rightarrow> string option) \<Rightarrow> (string \<Rightarrow> ('url, 'sock) GwConfig option) \<Rightarrow> 'path \<Rightarrow>
     gw_config_error + ('url, 'sock) GwConfig" where
  "gw_load read_to_string from_toml path =
     (case read_to_string path of
        None \<Rightarrow> Inl GwRead
      | Some raw \<Rightarrow> (case from_toml raw of None \<Rightarrow> Inl GwParse | Some cfg \<Rightarrow> check_config cfg))"

section \<open>The polling pass\<close>

definition gw_fetch ::
  "('url, 'resp) http_env \<Rightarrow> ('resp \<Rightarrow> LeasesResponse option) \<Rightarrow> 'url GwDaemonEntry \<Rightarrow> api_error + Leases" where
  "gw_fetch http json daemon = fetch_leases http json (gd_endpoint daemon) (gd_auth_token daemon) (gd_name daemon)"

definition gw_push_specs :: "'url GwDaemonEntry \<Rightarrow> ipv4addr list \<Rightarrow> RouteSpec list \<Rightarrow> RouteSpec list" where
  "gw_push_specs daemon ips out =
     out @ map (\<lambda>ip. \<lparr>sp_src = ip, sp_gateway = gd_nexthop daemon, sp_iface = gd_device daemon,
                      sp_fwmark = None\<rparr>) ips"

definition gw_desired :: "'url GwDaemonEntry list \<Rightarrow> (string, Leases) hashmap \<Rightarrow> RouteSpec list" where
  "gw_desired entries view =
     foldl (\<lambda>desired daemon.
       case hm_get view (gd_name daemon) of
         None \<Rightarrow> desired
       | Some leases \<Rightarrow> gw_push_specs daemon (l_ips leases) desired) [] entries"

text \<open>
  One pass: the state is the lease cache; \<open>router\<close> is absent when route management is off. What the
  pass logs is returned with it: the statistics, the wanted routes, and the outcome for the routes.
\<close>

record gw_report =
  gr_stats :: RoundStats
  gr_desired :: "RouteSpec list"
  gr_routes :: "((route_error + unit) \<times> warning list) option"

definition gw_reconcile_once ::
  "('url, 'resp) http_env \<Rightarrow> ('resp \<Rightarrow> LeasesResponse option) \<Rightarrow> (u32 list \<Rightarrow> u32 list) \<Rightarrow>
     ('url, 'sock) GwConfig \<Rightarrow> nat \<Rightarrow> 's netlink option \<Rightarrow> Leases Cache \<Rightarrow> 's \<Rightarrow>
     gw_report \<times> Leases Cache \<times> 's" where
  "gw_reconcile_once http json iter cfg now router st s =
     (let stale = from_secs (gc_stale_after_secs cfg);
          results = map (gw_fetch http json) (gc_daemons cfg);
          round = zip (map gd_name (gc_daemons cfg)) results;
          ((stats, view), st') = apply_round now round stale st;
          desired = gw_desired (gc_daemons cfg) view
      in case router of
           None \<Rightarrow> (\<lparr>gr_stats = stats, gr_desired = desired, gr_routes = None\<rparr>, st', s)
         | Some K \<Rightarrow>
             (case reconcile K iter desired s of
                (res, log, s') \<Rightarrow>
                  (\<lparr>gr_stats = stats, gr_desired = desired, gr_routes = Some (res, log)\<rparr>, st', s')))"

section \<open>The HTTP service\<close>

definition constant_time_eq :: "u8 list \<Rightarrow> u8 list \<Rightarrow> bool" where
  "constant_time_eq a b \<longleftrightarrow>
     (if length a \<noteq> length b then False
      else foldl (\<lambda>diff (x, y). diff OR (x XOR y)) 0 (zip a b) = 0)"

definition auth_layer :: "string \<Rightarrow> auth_header \<Rightarrow> 'b \<Rightarrow> 'b response" where
  "auth_layer auth_token header next =
     (case header of
        None \<Rightarrow> Unauthorized
      | Some (Inl _) \<Rightarrow> Unauthorized
      | Some (Inr v) \<Rightarrow>
          (case strip_prefix ''Bearer '' v of
             None \<Rightarrow> Unauthorized
           | Some token \<Rightarrow>
               if \<not> constant_time_eq (as_bytes token) (as_bytes auth_token) then Unauthorized else Answer next))"

text \<open>The closure of \<open>daemons_handler\<close>, for one configured daemon.\<close>

definition daemon_view :: "(string, Leases) hashmap \<Rightarrow> 'url GwDaemonEntry \<Rightarrow> DaemonEntryView option" where
  "daemon_view view d =
     (case hm_get view (gd_name d) of
        None \<Rightarrow> None
      | Some leases \<Rightarrow>
          Some \<lparr>v_name = gd_name d, v_nexthop = Ipv4Addr_to_string (gd_nexthop d), v_device = gd_device d,
                v_dumbarpd_id = l_dumbarpd_id leases, v_ips = map Ipv4Addr_to_string (l_ips leases)\<rparr>)"

definition daemons_handler :: "('url, 'sock) GwConfig \<Rightarrow> Leases Cache \<Rightarrow> DaemonsResponse" where
  "daemons_handler cfg st =
     (let view = snapshot st in \<lparr>daemons = List.map_filter (daemon_view view) (gc_daemons cfg)\<rparr>)"

definition gw_healthz_handler :: string where "gw_healthz_handler = ''ok''"

text \<open>The two routes of the service: \<open>/healthz\<close> is open, \<open>/daemons\<close> is behind the guard.\<close>

datatype gw_route = GetGwHealthz | GetDaemons

datatype gw_page = GwHealthz string | DaemonsPage DaemonsResponse

record ('url, 'sock) ServeState =
  ss_cfg :: "('url, 'sock) GwConfig"
  ss_state :: "Leases Cache"
  ss_auth_token :: string

definition gw_router :: "('url, 'sock) ServeState \<Rightarrow> gw_route \<Rightarrow> auth_header \<Rightarrow> gw_page response" where
  "gw_router state route header =
     (case route of
        GetGwHealthz \<Rightarrow> Answer (GwHealthz gw_healthz_handler)
      | GetDaemons \<Rightarrow>
          auth_layer (ss_auth_token state) header (DaemonsPage (daemons_handler (ss_cfg state) (ss_state state))))"

section \<open>Lemmas\<close>

lemma check_daemons_iff:
  "check_daemons seen ds = Inr () \<longleftrightarrow>
     (\<forall>d \<in> set ds. gd_name d \<noteq> [] \<and> gd_device d \<noteq> [] \<and> gd_auth_token d \<noteq> [] \<and> gd_name d \<notin> set seen) \<and>
     distinct (map gd_name ds)"
  by (induction ds arbitrary: seen) (auto simp: image_iff)

interpretation gw_entries: named_sources "\<lambda>ds. check_daemons [] ds = Inr ()" gd_name
  by unfold_locales (simp add: check_daemons_iff)

lemma constant_time_eq_iff [simp]: "constant_time_eq a b \<longleftrightarrow> a = b"
  by (auto simp: constant_time_eq_def or_xor_fold_zero zip_all_eq)

interpretation gw_auth: bearer_guard auth_layer
  by unfold_locales (auto simp: auth_layer_def strip_prefix_iff split: option.splits sum.splits)

lemma gw_desired_snoc:
  "gw_desired (es @ [d]) view =
     (case hm_get view (gd_name d) of
        None \<Rightarrow> gw_desired es view
      | Some leases \<Rightarrow> gw_push_specs d (l_ips leases) (gw_desired es view))"
  by (simp add: gw_desired_def split: option.split)

lemma gw_desired_iff:
  "sp \<in> set (gw_desired es view) \<longleftrightarrow>
     (\<exists>d \<in> set es. \<exists>l. hm_get view (gd_name d) = Some l \<and> sp_src sp \<in> set (l_ips l) \<and>
        sp_gateway sp = gd_nexthop d \<and> sp_iface sp = gd_device d \<and> sp_fwmark sp = None)"
proof (induction es rule: rev_induct)
  case Nil
  then show ?case by (simp add: gw_desired_def)
next
  case (snoc d es)
  then show ?case
    by (cases sp; cases "hm_get view (gd_name d)") (auto simp: gw_desired_snoc gw_push_specs_def)
qed

lemma check_config_iff:
  "check_config cfg = Inr cfg' \<longleftrightarrow>
     cfg' = cfg \<and> gc_daemons cfg \<noteq> [] \<and> gc_refresh_interval_secs cfg \<noteq> 0 \<and>
     gc_refresh_interval_secs cfg \<le> gc_stale_after_secs cfg \<and> check_daemons [] (gc_daemons cfg) = Inr () \<and>
     pred_option (\<lambda>serve. serve_auth_token serve \<noteq> []) (gc_serve cfg) \<and>
     (gc_manage_routes cfg \<or> gc_serve cfg \<noteq> None)"
  by (cases "check_daemons [] (gc_daemons cfg)"; cases "gc_serve cfg")
    (auto simp: check_config_def not_less)

text \<open>What the gateway publishes of a daemon, before and after the wire.\<close>

definition published :: "(string, Leases) hashmap \<Rightarrow> 'url GwDaemonEntry \<Rightarrow> DaemonRoutes option" where
  "published view d = map_option (\<lambda>l.
     \<lparr>r_name = gd_name d, r_nexthop = gd_nexthop d, r_device = gd_device d,
      r_dumbarpd_id = l_dumbarpd_id l, r_ips = l_ips l\<rparr>) (hm_get view (gd_name d))"

lemma daemon_view_parse:
  assumes "\<forall>d \<in> set ds. gd_device d \<noteq> []"
  shows "try_map (parse_entry label) (List.map_filter (daemon_view view) ds) =
    Inr (List.map_filter (published view) ds)"
  using assms
  by (induction ds) (auto simp: daemon_view_def published_def parse_entry_def split: option.split)

lemma daemons_handler_parse:
  assumes "\<forall>d \<in> set (gc_daemons cfg). gd_device d \<noteq> []"
  shows "DaemonsResponse_parse (daemons_handler cfg st) label =
    Inr (List.map_filter (published (snapshot st)) (gc_daemons cfg))"
  using daemon_view_parse [OF assms] by (simp add: DaemonsResponse_parse_def daemons_handler_def Let_def)

section \<open>Properties\<close>

text \<open>
  The gateway answers a guarded request exactly when the request carries the text \<open>Bearer\<close>, one
  space and the configured token as its authorization header, byte for byte; in every other case
  the answer is 401 and the handler does not run.
\<close>

theorem gateway_answers_only_bearer:
  "auth_layer auth_token header next =
     (if header = Some (Inr (''Bearer '' @ auth_token)) then Answer next else Unauthorized)"
  by (rule gw_auth.guard_eq)

text \<open>
  What the gateway publishes arrives intact. For an accepted configuration, the response of the
  \<open>/daemons\<close> handler passes the client's validation, and validation gives back exactly the configured
  daemons the cache serves, in order, each with its name, next hop and device from the
  configuration and its id and addresses from its leases.
\<close>

theorem published_daemons_parse_back:
  assumes "check_config cfg = Inr cfg"
  shows "DaemonsResponse_parse (daemons_handler cfg st) label =
    Inr (List.map_filter (\<lambda>d. map_option (\<lambda>l.
        \<lparr>r_name = gd_name d, r_nexthop = gd_nexthop d, r_device = gd_device d,
         r_dumbarpd_id = l_dumbarpd_id l, r_ips = l_ips l\<rparr>) (hm_get (snapshot st) (gd_name d))) (gc_daemons cfg))"
proof -
  have "\<forall>d \<in> set (gc_daemons cfg). gd_device d \<noteq> []"
    using assms by (simp add: check_config_iff check_daemons_iff)
  then show ?thesis by (rule daemons_handler_parse [unfolded published_def [abs_def]])
qed

definition sample_gw_config :: "(string, unit) GwConfig" where
  "sample_gw_config =
     \<lparr>gc_refresh_interval_secs = gw_default_refresh, gc_stale_after_secs = gw_default_stale,
      gc_manage_routes = gw_default_manage_routes,
      gc_daemons = [\<lparr>gd_name = ''homelab'', gd_endpoint = ''u1'', gd_auth_token = ''tok'', gd_nexthop = (10, 0, 0, 5),
         gd_device = ''br0''\<rparr>,
        \<lparr>gd_name = ''edge'', gd_endpoint = ''u2'', gd_auth_token = ''tok'', gd_nexthop = (10, 0, 0, 6),
         gd_device = ''br1''\<rparr>],
      gc_serve = None\<rparr>"

lemma sample_gw_config_ok: "check_config sample_gw_config = Inr sample_gw_config"
  by (simp add: sample_gw_config_def check_config_def gw_default_refresh_def gw_default_stale_def
      gw_default_manage_routes_def)

theorem published_daemons_parse_back_witness:
  "DaemonsResponse_parse (daemons_handler sample_gw_config
      [(''homelab'', \<lparr>cvalue = \<lparr>l_ips = [(1, 2, 3, 4)], l_dumbarpd_id = Some 7\<rparr>, last_success = 0\<rparr>)]) ''gw'' =
    Inr [\<lparr>r_name = ''homelab'', r_nexthop = (10, 0, 0, 5), r_device = ''br0'', r_dumbarpd_id = Some 7,
      r_ips = [(1, 2, 3, 4)]\<rparr>]"
  using published_daemons_parse_back [OF sample_gw_config_ok,
      of "[(''homelab'', \<lparr>cvalue = \<lparr>l_ips = [(1, 2, 3, 4)], l_dumbarpd_id = Some 7\<rparr>, last_success = 0\<rparr>)]" "''gw''"]
  by (simp add: sample_gw_config_def snapshot_def hm_map_def)

text \<open>
  A pass of the gateway takes up what it fetched. For an accepted configuration, the leases
  fetched from a daemon in this pass are what the cache serves for it afterwards; each of its
  addresses is a wanted route through the daemon's next hop and device, without a mark; and the
  kernel is left alone when route management is off.
\<close>

theorem gateway_pass_takes_up_leases:
  assumes "check_config cfg = Inr cfg" "gw_reconcile_once http json iter cfg now router st s = (rep, st', s')"
    and "d \<in> set (gc_daemons cfg)" "gw_fetch http json d = Inr l"
  shows "hm_get (snapshot st') (gd_name d) = Some l \<and>
    (\<forall>ip \<in> set (l_ips l). \<lparr>sp_src = ip, sp_gateway = gd_nexthop d, sp_iface = gd_device d, sp_fwmark = None\<rparr>
       \<in> set (gr_desired rep)) \<and>
    (router = None \<longrightarrow> s' = s)"
proof -
  let ?round = "zip (map gd_name (gc_daemons cfg)) (map (gw_fetch http json) (gc_daemons cfg))"
  let ?ar = "apply_round now ?round (from_secs (gc_stale_after_secs cfg)) st"
  have acc: "check_daemons [] (gc_daemons cfg) = Inr ()" using assms(1) by (simp add: check_config_iff)
  have served: "hm_get (snapshot (snd ?ar)) (gd_name d) = Some l"
    by (rule gw_entries.round_served [OF acc assms(3), where f = "gw_fetch http json"]) (rule assms(4))
  have "st' = snd ?ar" "gr_desired rep = gw_desired (gc_daemons cfg) (snd (fst ?ar))" "router = None \<longrightarrow> s' = s"
    using assms(2) by (auto simp: gw_reconcile_once_def Let_def split: prod.splits option.splits)
  moreover have "snd (fst ?ar) = snapshot (snd ?ar)" by (rule apply_round_view)
  ultimately show ?thesis
    using served assms(3) by (auto simp: gw_desired_iff)
qed

theorem gateway_pass_takes_up_leases_witness:
  "hm_get (snapshot (fst (snd (gw_reconcile_once
      \<lparr>url_join = (\<lambda>u p. Some u), send_get = (\<lambda>u t. Some u), error_for_status = Some\<rparr>
      (\<lambda>u. if u = ''u1'' then Some \<lparr>lr_ips = [''1.2.3.4''], lr_dumbarpd_id = None\<rparr> else None)
      (\<lambda>ts. ts) sample_gw_config 0 (None :: list_kernel netlink option) [] ([], []))))) ''homelab'' =
    Some \<lparr>l_ips = [(1, 2, 3, 4)], l_dumbarpd_id = None\<rparr>"
proof -
  let ?http = "\<lparr>url_join = (\<lambda>u p. Some u), send_get = (\<lambda>u t. Some u), error_for_status = Some\<rparr>
    :: (string, string) http_env"
  let ?json = "\<lambda>u. if u = ''u1'' then Some \<lparr>lr_ips = [''1.2.3.4''], lr_dumbarpd_id = None\<rparr> else None"
  let ?r = "gw_reconcile_once ?http ?json (\<lambda>ts. ts) sample_gw_config 0 (None :: list_kernel netlink option) [] ([], [])"
  let ?d = "\<lparr>gd_name = ''homelab'', gd_endpoint = ''u1'', gd_auth_token = ''tok'', gd_nexthop = (10, 0, 0, 5),
    gd_device = ''br0''\<rparr>"
  have r: "?r = (fst ?r, fst (snd ?r), snd (snd ?r))" by simp
  have d: "?d \<in> set (gc_daemons sample_gw_config)" by (simp add: sample_gw_config_def)
  have f: "gw_fetch ?http ?json ?d = Inr \<lparr>l_ips = [(1, 2, 3, 4)], l_dumbarpd_id = None\<rparr>" by code_simp
  show ?thesis
    using gateway_pass_takes_up_leases [OF sample_gw_config_ok r d f] by simp
qed

end
