(* ===== verification/Gateway_Main.thy ===== *)
theory Gateway_Main
  imports Gateway Lifecycle
begin

text \<open>
  The life of the gateway, \<open>src/dumbarp-gateway/src/main.rs\<close> and \<open>spawn\<close> of \<open>reconcile.rs\<close>: it loads its
  configuration, opens a route manager when it manages routes, runs a pass at once and one per tick,
  and answers requests between the passes when it serves.
\<close>

section \<open>Definitions\<close>

text \<open>The world at a tick: what the HTTP client sees, the order of iteration over the tables, the clock.\<close>

record ('url, 'resp) gw_world =
  gw_http :: "('url, 'resp) http_env"
  gw_json :: "'resp \<Rightarrow> LeasesResponse option"
  gw_iter :: "u32 list \<Rightarrow> u32 list"
  gw_now :: nat

definition gw_tick ::
  "('url, 'sock) GwConfig \<Rightarrow> 's netlink option \<Rightarrow> ('url, 'resp) gw_world \<Rightarrow> Leases Cache \<times> 's \<Rightarrow> Leases Cache \<times> 's" where
  "gw_tick cfg router w x =
     snd (gw_reconcile_once (gw_http w) (gw_json w) (gw_iter w) cfg (gw_now w) router (fst x) (snd x))"

text \<open>
  What happens while the process waits for its signal: ticks of the timer task, and requests, which
  arrive only when the gateway serves. Both use the cache under its lock, so they do not overlap.
\<close>

datatype ('url, 'resp) gw_event = Tick "('url, 'resp) gw_world" | Request gw_route auth_header

definition gw_answer :: "('url, 'sock) GwConfig \<Rightarrow> Leases Cache \<Rightarrow> gw_route \<Rightarrow> auth_header \<Rightarrow> gw_page response list" where
  "gw_answer cfg st route header =
     (case gc_serve cfg of
        None \<Rightarrow> []
      | Some serve \<Rightarrow>
          [gw_router \<lparr>ss_cfg = cfg, ss_state = st, ss_auth_token = serve_auth_token serve\<rparr> route header])"

fun gw_loop ::
  "('url, 'sock) GwConfig \<Rightarrow> 's netlink option \<Rightarrow> ('url, 'resp) gw_event list \<Rightarrow> Leases Cache \<times> 's \<Rightarrow>
     gw_page response list \<times> Leases Cache \<times> 's" where
  "gw_loop cfg router [] x = ([], x)"
| "gw_loop cfg router (Tick w # es) x = gw_loop cfg router es (gw_tick cfg router w x)"
| "gw_loop cfg router (Request route header # es) x =
     (let r = gw_loop cfg router es x in (gw_answer cfg (fst x) route header @ fst r, snd r))"

datatype gw_start_error = GwConfigError gw_config_error | GwNoClient | GwNoNetlink connect_error | GwNoListener | GwStopFailed

text \<open>
  \<open>gateway_main\<close> takes the outcomes of the calls that may fail (building the HTTP client, opening the
  netlink connection, binding the listener), the world at the first pass, the events until the signal,
  and the outcome of serving or of waiting for the signal. It returns the answers given, or the error the process ends with, and the cache and kernel at the end.
\<close>

definition gateway_main ::
  "gw_config_error + ('url, 'sock) GwConfig \<Rightarrow> unit + unit \<Rightarrow> unit + 's netlink \<Rightarrow> ('sock \<Rightarrow> unit + unit) \<Rightarrow>
     ('url, 'resp) gw_world \<Rightarrow> ('url, 'resp) gw_event list \<Rightarrow> unit + unit \<Rightarrow> 's \<Rightarrow>
     (gw_start_error + gw_page response list) \<times> Leases Cache \<times> 's" where
  "gateway_main config client new_connection bind first events stop s =
     (case config of
        Inl e \<Rightarrow> (Inl (GwConfigError e), Cache_default, s)
      | Inr cfg \<Rightarrow>
          (case client of
             Inl _ \<Rightarrow> (Inl GwNoClient, Cache_default, s)
           | Inr _ \<Rightarrow>
               (case (if gc_manage_routes cfg then map_sum id Some (RouteManager_new new_connection) else Inr None) of
                  Inl e \<Rightarrow> (Inl (GwNoNetlink e), Cache_default, s)
                | Inr router \<Rightarrow>
                    let x = gw_tick cfg router first (Cache_default, s) in
                    if (case gc_serve cfg of None \<Rightarrow> False | Some serve \<Rightarrow> isl (bind (listen serve)))
                    then (Inl GwNoListener, x)
                    else (case gw_loop cfg router events x of
                            (answers, x') \<Rightarrow> (case stop of Inl _ \<Rightarrow> (Inl GwStopFailed, x') | Inr _ \<Rightarrow> (Inr answers, x'))))))"

section \<open>Lemmas\<close>

text \<open>The ticks of a run; the rounds of polls they make of the configured daemons.\<close>

primrec tick_world :: "('url, 'resp) gw_event \<Rightarrow> ('url, 'resp) gw_world option" where
  "tick_world (Tick w) = Some w"
| "tick_world (Request route header) = None"

definition gw_round ::
  "('url, 'sock) GwConfig \<Rightarrow> ('url, 'resp) gw_world \<Rightarrow> nat \<times> (string \<times> (api_error + Leases)) list" where
  "gw_round cfg w = (gw_now w, zip (map gd_name (gc_daemons cfg)) (map (gw_fetch (gw_http w) (gw_json w)) (gc_daemons cfg)))"

lemma gw_tick_cache:
  "fst (gw_tick cfg router w x) =
     run_rounds (from_secs (gc_stale_after_secs cfg)) [gw_round cfg w] (fst x)"
  by (auto simp: gw_tick_def gw_reconcile_once_def run_rounds_def gw_round_def Let_def split: prod.splits option.splits)

lemma gw_loop_cache:
  "fst (snd (gw_loop cfg router es x)) =
     run_rounds (from_secs (gc_stale_after_secs cfg)) (map (gw_round cfg) (List.map_filter tick_world es)) (fst x)"
  by (induction cfg router es x rule: gw_loop.induct) (simp_all add: gw_tick_cache run_rounds_def Let_def)

lemma gw_loop_append:
  "gw_loop cfg router (es @ fs) x =
     (let r = gw_loop cfg router es x; q = gw_loop cfg router fs (snd r) in (fst r @ fst q, snd q))"
  by (induction cfg router es x rule: gw_loop.induct) (simp_all add: Let_def)

lemma gw_desired_unmarked: "\<forall>spec \<in> set (gw_desired es view). sp_fwmark spec \<noteq> Some 0"
  by (auto simp: gw_desired_iff)

lemma gw_tick_kept:
  assumes "\<forall>K. router = Some K \<longrightarrow> netlink_laws K" "iter_ok (gw_iter w)" "kernel_kept router s0 (snd x)"
  shows "kernel_kept router s0 (snd (gw_tick cfg router w x))"
proof (cases router)
  case None
  with assms(3) show ?thesis by (simp add: gw_tick_def gw_reconcile_once_def Let_def split: prod.split)
next
  case (Some K)
  let ?ar = "apply_round (gw_now w) (zip (map gd_name (gc_daemons cfg)) (map (gw_fetch (gw_http w) (gw_json w)) (gc_daemons cfg)))
    (from_secs (gc_stale_after_secs cfg)) (fst x)"
  have "snd (gw_tick cfg router w x) = snd (snd (reconcile K (gw_iter w) (gw_desired (gc_daemons cfg) (snd (fst ?ar))) (snd x)))"
    by (simp add: Some gw_tick_def gw_reconcile_once_def Let_def split: prod.split)
  moreover have "netlink_laws K" using assms(1) Some by simp
  ultimately show ?thesis
    using kernel_kept_pass [OF _ assms(2) gw_desired_unmarked] assms(3) by (simp add: Some)
qed

interpretation gw_ticks: tick_loop "gw_tick cfg router"
  "\<lambda>ws x. snd (gw_loop cfg router (map Tick ws) x)"
  "\<lambda>w. (\<forall>K. router = Some K \<longrightarrow> netlink_laws K) \<and> iter_ok (gw_iter w)"
  "\<lambda>x. kernel_kept router s0 (snd x)" for cfg router s0
  by unfold_locales (simp_all add: gw_tick_kept)

text \<open>Requests change nothing, so a run ends where its ticks alone end.\<close>

lemma gw_loop_ticks: "snd (gw_loop cfg router es x) = snd (gw_loop cfg router (map Tick (List.map_filter tick_world es)) x)"
  by (induction cfg router es x rule: gw_loop.induct) (simp_all add: Let_def)

lemma gateway_main_unfold:
  assumes "gateway_main (Inr cfg) client new_connection bind first events stop s = (Inr answers, x)"
  obtains router where "gc_manage_routes cfg \<Longrightarrow> \<exists>K. new_connection = Inr K \<and> router = Some K"
    "\<not> gc_manage_routes cfg \<Longrightarrow> router = None"
    "gw_loop cfg router (Tick first # events) (Cache_default, s) = (answers, x)"
  using assms
  by (auto simp: gateway_main_def RouteManager_new_def Let_def split: sum.splits if_splits prod.splits option.splits)

lemma gw_load_ok: "gw_load read_to_string from_toml path = Inr cfg \<Longrightarrow> check_config cfg = Inr cfg"
  by (auto simp: gw_load_def check_config_iff split: option.splits)

lemma sorted_gw_rounds: "map fst (map (gw_round cfg) ws) = map gw_now ws"
  by (simp add: gw_round_def)

section \<open>Properties\<close>

text \<open>
  C24. The gateway answers with the latest it knows. Take any run of the gateway, with passes at
  non-decreasing instants in any worlds and requests between them, that ends with a request for
  \<open>/daemons\<close>. The answer is 401 unless the request carries the configured bearer token; with the token
  it is a response that passes the client's validation and gives back the configured daemons, in
  order, each with its id and addresses from its latest successful poll of the run, as long as this is not
  too old; a daemon whose latest success is too old, or which never answered, is left out.
\<close>

theorem gateway_serves_latest:
  assumes "gateway_main (gw_load read_to_string from_toml path) client new_connection bind first
      (events @ [Request GetDaemons header]) stop s = (Inr answers, x)"
    and "gw_load read_to_string from_toml path = Inr cfg" "gc_serve cfg = Some serve"
    and "ws = first # List.map_filter tick_world events" "sorted (map gw_now ws)"
  shows "\<exists>page. last answers =
      (if header = Some (Inr (''Bearer '' @ serve_auth_token serve)) then Answer (DaemonsPage page) else Unauthorized) \<and>
    DaemonsResponse_parse page label =
      Inr (List.map_filter (\<lambda>d. map_option (\<lambda>l.
        \<lparr>r_name = gd_name d, r_nexthop = gd_nexthop d, r_device = gd_device d,
         r_dumbarpd_id = l_dumbarpd_id l, r_ips = l_ips l\<rparr>)
        (served (from_secs (gc_stale_after_secs cfg)) (polls (gd_name d) (map (gw_round cfg) ws)))) (gc_daemons cfg))"
proof -
  obtain router where run: "gw_loop cfg router (Tick first # events @ [Request GetDaemons header]) (Cache_default, s) = (answers, x)"
    using gateway_main_unfold [OF assms(1) [unfolded assms(2)]] by metis
  let ?es = "Tick first # events"
  let ?st = "fst (snd (gw_loop cfg router ?es (Cache_default, s)))"
  have answers: "answers = fst (gw_loop cfg router ?es (Cache_default, s)) @ gw_answer cfg ?st GetDaemons header"
    using run gw_loop_append [of cfg router ?es "[Request GetDaemons header]" "(Cache_default, s)"]
    by (simp add: Let_def)
  have cache: "hm_get (snapshot ?st) n = served (from_secs (gc_stale_after_secs cfg)) (polls n (map (gw_round cfg) ws))" for n
  proof -
    have st: "?st = run_rounds (from_secs (gc_stale_after_secs cfg)) (map (gw_round cfg) ws) Cache_default"
      unfolding gw_loop_cache by (simp add: assms(4))
    have "sorted (map fst (map (gw_round cfg) ws))" using assms(5) by (simp only: sorted_gw_rounds)
    then show ?thesis unfolding st by (rule run_rounds_serves)
  qed
  have "\<forall>d \<in> set (gc_daemons cfg). gd_device d \<noteq> []"
    using gw_load_ok [OF assms(2)] by (simp add: check_config_iff check_daemons_iff)
  note parse = daemons_handler_parse [OF this, of ?st label, unfolded published_def [abs_def] cache]
  show ?thesis
    by (rule exI [of _ "daemons_handler cfg ?st"], rule conjI, rule_tac [2] parse)
      (simp add: answers gw_answer_def assms(3) gw_router_def gw_auth.guard_eq)
qed

definition sample_world :: "string list \<Rightarrow> nat \<Rightarrow> (string, string) gw_world" where
  "sample_world up now =
     \<lparr>gw_http = \<lparr>url_join = (\<lambda>u p. Some u), send_get = (\<lambda>u t. Some u), error_for_status = Some\<rparr>,
      gw_json = (\<lambda>u. if u \<in> set up then Some \<lparr>lr_ips = [''1.2.3.4''], lr_dumbarpd_id = None\<rparr> else None),
      gw_iter = (\<lambda>ts. ts), gw_now = now\<rparr>"

definition sample_serving :: "(string, unit) GwConfig" where
  "sample_serving = sample_gw_config\<lparr>gc_serve := Some \<lparr>listen = (), serve_auth_token = ''s''\<rparr>, gc_manage_routes := False\<rparr>"

lemma sample_serving_loads: "gw_load (\<lambda>p. Some p) (\<lambda>raw. Some sample_serving) ''cfg'' = Inr sample_serving"
  using sample_gw_config_ok by (simp add: gw_load_def sample_serving_def check_config_iff)

text \<open>The second daemon is down from the start; the first answers once and is down at the second pass.\<close>

theorem gateway_serves_latest_witness:
  "\<exists>answers x page. gateway_main (Inr sample_serving) (Inr ()) (Inl () :: unit + list_kernel netlink) (\<lambda>_. Inr ()) (sample_world [''u1''] 0)
      [Tick (sample_world [] 60), Request GetDaemons (Some (Inr ''Bearer s''))] (Inr ()) ([], []) = (Inr answers, x) \<and>
    last answers = Answer (DaemonsPage page) \<and>
    DaemonsResponse_parse page ''gw'' =
      Inr [\<lparr>r_name = ''homelab'', r_nexthop = (10, 0, 0, 5), r_device = ''br0'', r_dumbarpd_id = None, r_ips = [(1, 2, 3, 4)]\<rparr>]"
proof -
  let ?main = "gateway_main (gw_load (\<lambda>p. Some p) (\<lambda>raw. Some sample_serving) ''cfg'') (Inr ()) (Inl () :: unit + list_kernel netlink)
    (\<lambda>_. Inr ()) (sample_world [''u1''] 0)
    ([Tick (sample_world [] 60)] @ [Request GetDaemons (Some (Inr ''Bearer s''))]) (Inr ()) ([], [])"
  have "gc_serve sample_serving = Some \<lparr>listen = (), serve_auth_token = ''s''\<rparr>" "\<not> gc_manage_routes sample_serving"
    by (simp_all add: sample_serving_def)
  note serve = this
  obtain answers x where m: "?main = (Inr answers, x)"
    by (simp add: sample_serving_loads gateway_main_def serve Let_def)
  let ?ws = "[sample_world [''u1''] 0, sample_world [] 60]"
  have ws: "?ws = sample_world [''u1''] 0 # List.map_filter tick_world [Tick (sample_world [] 60)]" by simp
  have so: "sorted (map gw_now ?ws)" by (simp add: sample_world_def)
  have rounds: "map (gw_round sample_serving) ?ws =
      [(0, [(''homelab'', Inr \<lparr>l_ips = [(1, 2, 3, 4)], l_dumbarpd_id = None\<rparr>), (''edge'', Inl (BadJson ''leases''))]),
       (60, [(''homelab'', Inl (BadJson ''leases'')), (''edge'', Inl (BadJson ''leases''))])]"
    by code_simp
  have stale: "from_secs (gc_stale_after_secs sample_serving) = 300000000000"
    by (simp add: from_secs_def sample_serving_def sample_gw_config_def gw_default_stale_def)
  have se: "served 300000000000 (polls ''homelab'' (map (gw_round sample_serving) ?ws)) =
      Some \<lparr>l_ips = [(1, 2, 3, 4)], l_dumbarpd_id = None\<rparr>"
    "served 300000000000 (polls ''edge'' (map (gw_round sample_serving) ?ws)) = None"
    unfolding rounds by (simp_all add: served_def polls_def round_polls_def latest_ok_def)
  have "\<exists>page. last answers = Answer (DaemonsPage page) \<and> DaemonsResponse_parse page ''gw'' =
      Inr [\<lparr>r_name = ''homelab'', r_nexthop = (10, 0, 0, 5), r_device = ''br0'', r_dumbarpd_id = None, r_ips = [(1, 2, 3, 4)]\<rparr>]"
    using gateway_serves_latest [OF m sample_serving_loads serve(1) ws so, of "''gw''"] se stale
    by (simp add: sample_serving_def sample_gw_config_def)
  with m [unfolded sample_serving_loads append.simps] show ?thesis by blast
qed

text \<open>
  C25. The gateway touches nothing that is not its own. However it ends (with an error
  or told to stop) and whatever requests to the kernel fail, the policy rules that are not dumbarp's are at
  the end those of the start; and the kernel is left alone altogether when route management is off,
  and when the start fails before the first pass.
\<close>

theorem gateway_keeps_foreign_rules:
  assumes "gateway_main config client new_connection bind first events stop s = (r, st, s')"
    and "\<forall>K. new_connection = Inr K \<longrightarrow> netlink_laws K \<and> routes_wf K s"
    and "\<forall>w \<in> set (first # List.map_filter tick_world events). iter_ok (gw_iter w)"
  shows "(\<forall>K. new_connection = Inr K \<longrightarrow> foreign_rules K s' = foreign_rules K s) \<and>
    (\<forall>cfg. config = Inr cfg \<longrightarrow> \<not> gc_manage_routes cfg \<longrightarrow> s' = s) \<and>
    (isl r \<longrightarrow> r \<noteq> Inl GwNoListener \<longrightarrow> r \<noteq> Inl GwStopFailed \<longrightarrow> s' = s)"
proof (cases "s' = s")
  case False
  obtain cfg router where cfg: "config = Inr cfg"
    and router: "(if gc_manage_routes cfg then map_sum id Some (RouteManager_new new_connection) else Inr None) = Inr router"
    and fin: "s' = snd (gw_tick cfg router first (Cache_default, s)) \<and> r = Inl GwNoListener \<or>
      s' = snd (snd (gw_loop cfg router (Tick first # events) (Cache_default, s))) \<and> (\<not> isl r \<or> r = Inl GwStopFailed)"
    using assms(1) False
    by (auto simp: gateway_main_def Let_def split: sum.splits if_splits prod.splits option.splits)
  have laws: "\<forall>K. router = Some K \<longrightarrow> netlink_laws K \<and> routes_wf K s"
    using router assms(2) by (auto simp: RouteManager_new_def split: if_splits sum.splits)
  have kept: "kernel_kept router s (snd (snd (gw_loop cfg router (map Tick ws) (Cache_default, s))))"
    if "\<forall>w \<in> set ws. iter_ok (gw_iter w)" for ws
    using gw_ticks.loop_inv [where s = "(Cache_default, s)" and cfg = cfg and router = router and ?s0.0 = s and es = ws]
      laws that kernel_kept_refl [of router s] by (simp add: list_all_iff)
  have "kernel_kept router s s'"
    using fin kept [of "[first]"] kept [of "first # List.map_filter tick_world events"] assms(3)
      gw_loop_ticks [of cfg router "Tick first # events" "(Cache_default, s)"] by auto
  with router False fin cfg show ?thesis
    by (auto simp: kernel_kept_def RouteManager_new_def split: option.splits if_splits sum.splits)
qed simp

theorem gateway_keeps_foreign_rules_witness:
  "foreign_rules list_netlink (snd (snd (gateway_main (Inr sample_gw_config) (Inr ()) (Inr list_netlink) (\<lambda>_. Inr ())
     (sample_world [''u1''] 0) [Tick (sample_world [] 60)] (Inr ()) ([foreign_rule], [])))) = [foreign_rule]"
proof -
  let ?m = "gateway_main (Inr sample_gw_config) (Inr ()) (Inr list_netlink) (\<lambda>_. Inr ())
     (sample_world [''u1''] 0) [Tick (sample_world [] 60)] (Inr ()) ([foreign_rule], [])"
  have m: "?m = (fst ?m, fst (snd ?m), snd (snd ?m))" by simp
  have wf: "routes_wf list_netlink ([foreign_rule], [])" and f: "foreign_rules list_netlink ([foreign_rule], []) = [foreign_rule]"
    using foreign_rule_kernel by blast+
  have it: "\<forall>w \<in> set (sample_world [''u1''] 0 # List.map_filter tick_world [Tick (sample_world [] 60)]). iter_ok (gw_iter w)"
    by (simp add: sample_world_def iter_ok_def)
  have "\<forall>K. (Inr list_netlink :: unit + list_kernel netlink) = Inr K \<longrightarrow> netlink_laws K \<and> routes_wf K ([foreign_rule], [])"
    using wf sample_hyps(1) by auto
  from gateway_keeps_foreign_rules [OF m this it] f show ?thesis by simp
qed

end
