(* ===== verification/Neigh.thy ===== *)
theory Neigh
  imports Ebpf Sysfs
begin

text \<open>
  The neighbour prober of the daemon, \<open>src/dumbarp-daemon/src/neigh.rs\<close>: it asks for the gateway's MAC
  address over a packet socket, waits for the answer, and keeps a permanent neighbour entry by
  running \<open>ip\<close>. The socket calls, the clock, the task runtime and the command are parameters over a
  world \<open>'w\<close>; the receive loop may run forever and is a partial function.
\<close>

section \<open>Frames\<close>

definition build_arp_request :: "mac \<Rightarrow> ipv4addr \<Rightarrow> ipv4addr \<Rightarrow> u8 list" where
  "build_arp_request src_mac src_ip dst_ip =
     (let frame = replicate 42 0;
          frame = put_bytes 0 (replicate 6 0xff) frame;
          frame = put_bytes 6 (list6 src_mac) frame;
          frame = put_bytes 12 [0x08, 0x06] frame;
          arp = drop 14 frame;
          arp = put_bytes 0 [0x00, 0x01] arp;
          arp = put_bytes 2 [0x08, 0x00] arp;
          arp = arp[4 := 6];
          arp = arp[5 := 4];
          arp = put_bytes 6 [0x00, 0x01] arp;
          arp = put_bytes 8 (list6 src_mac) arp;
          arp = put_bytes 14 (list4 src_ip) arp;
          arp = put_bytes 18 (replicate 6 0x00) arp;
          arp = put_bytes 24 (list4 dst_ip) arp
      in take 14 frame @ arp)"

definition parse_arp_reply :: "u8 list \<Rightarrow> ipv4addr \<Rightarrow> ipv4addr \<Rightarrow> mac option" where
  "parse_arp_reply frame expected_sender_ip expected_target_ip =
     (if length frame < 42 then None
      else if u16_from_be_bytes (frame ! 12, frame ! 13) \<noteq> 0x0806 then None
      else
        let arp = drop 14 frame in
        if u16_from_be_bytes (arp ! 6, arp ! 7) \<noteq> 2 then None
        else
          let sender_ip = get4 arp 14; target_ip = get4 arp 24 in
          if sender_ip \<noteq> expected_sender_ip \<or> target_ip \<noteq> expected_target_ip then None
          else Some (get6 arp 8))"

section \<open>Interface files\<close>

datatype neigh_error =
    NoIfaceFile string
  | BadIfaceMac mac_error
  | BadIfaceIndex
  | SocketFailed
  | TimeoutFailed
  | BindFailed
  | SendFailed
  | RecvFailed
  | TaskPanicked
  | AllAttemptsFailed
  | CommandNotRun
  | CommandFailed

definition neigh_parse_mac :: "string \<Rightarrow> mac_error + mac" where
  "neigh_parse_mac s =
     (let parts = split_on (CHR '':'') s in
      if length parts \<noteq> 6 then Inl (BadFormat s)
      else case try_map octet_of_hex parts of
        Inl e \<Rightarrow> Inl e
      | Inr out \<Rightarrow> Inr (out ! 0, out ! 1, out ! 2, out ! 3, out ! 4, out ! 5))"

definition read_iface_mac :: "read_file \<Rightarrow> string \<Rightarrow> neigh_error + mac" where
  "read_iface_mac read_to_string iface =
     (case read_to_string (sys_path iface ''address'') of
        None \<Rightarrow> Inl (NoIfaceFile (sys_path iface ''address''))
      | Some raw \<Rightarrow> (case neigh_parse_mac (trim raw) of Inl e \<Rightarrow> Inl (BadIfaceMac e) | Inr m \<Rightarrow> Inr m))"

definition read_iface_index :: "read_file \<Rightarrow> string \<Rightarrow> neigh_error + int" where
  "read_iface_index read_to_string iface =
     (case read_to_string (sys_path iface ''ifindex'') of
        None \<Rightarrow> Inl (NoIfaceFile (sys_path iface ''ifindex''))
      | Some raw \<Rightarrow> (case parse_i32 (trim raw) of None \<Rightarrow> Inl BadIfaceIndex | Some i \<Rightarrow> Inr i))"

section \<open>The probe\<close>

text \<open>
  The system calls on a packet socket bound to ARP. \<open>so_recvfrom\<close> gives the bytes received, at most
  the 1024 of the buffer, or an error, which the two-second timeout is one of.
\<close>

record 'w sock_env =
  so_socket :: "'w \<Rightarrow> (unit + int) \<times> 'w"
  so_rcvtimeo :: "int \<Rightarrow> nat \<Rightarrow> 'w \<Rightarrow> (unit + unit) \<times> 'w"
  so_bind :: "int \<Rightarrow> int \<Rightarrow> 'w \<Rightarrow> (unit + unit) \<times> 'w"
  so_sendto :: "int \<Rightarrow> int \<Rightarrow> u8 list \<Rightarrow> 'w \<Rightarrow> (unit + unit) \<times> 'w"
  so_recvfrom :: "int \<Rightarrow> 'w \<Rightarrow> (unit + u8 list) \<times> 'w"
  so_close :: "int \<Rightarrow> 'w \<Rightarrow> 'w"

partial_function (option) recv_loop ::
  "('w \<Rightarrow> (unit + u8 list) \<times> 'w) \<Rightarrow> ipv4addr \<Rightarrow> ipv4addr \<Rightarrow> 'w \<Rightarrow> ((neigh_error + mac) \<times> 'w) option" where
  "recv_loop recv gw_ip src_ip w =
     (case recv w of (r, w') \<Rightarrow>
        case r of
          Inl _ \<Rightarrow> Some (Inl RecvFailed, w')
        | Inr frame \<Rightarrow>
            if length frame < 42 then recv_loop recv gw_ip src_ip w'
            else case parse_arp_reply frame gw_ip src_ip of
              Some mac \<Rightarrow> Some (Inr mac, w')
            | None \<Rightarrow> recv_loop recv gw_ip src_ip w')"

text \<open>The body of \<open>probe_gateway_mac\<close> once the socket is open, and the whole, with the guard that closes it.\<close>

definition probe_on_socket ::
  "'w sock_env \<Rightarrow> int \<Rightarrow> mac \<Rightarrow> int \<Rightarrow> ipv4addr \<Rightarrow> ipv4addr \<Rightarrow> 'w \<Rightarrow> ((neigh_error + mac) \<times> 'w) option" where
  "probe_on_socket S fd src_mac ifindex src_ip gw_ip w =
     (case so_rcvtimeo S fd 2 w of
        (Inl _, w1) \<Rightarrow> Some (Inl TimeoutFailed, w1)
      | (Inr _, w1) \<Rightarrow>
          (case so_bind S fd ifindex w1 of
             (Inl _, w2) \<Rightarrow> Some (Inl BindFailed, w2)
           | (Inr _, w2) \<Rightarrow>
               (case so_sendto S fd ifindex (build_arp_request src_mac src_ip gw_ip) w2 of
                  (Inl _, w3) \<Rightarrow> Some (Inl SendFailed, w3)
                | (Inr _, w3) \<Rightarrow> recv_loop (so_recvfrom S fd) gw_ip src_ip w3)))"

definition probe_gateway_mac ::
  "'w sock_env \<Rightarrow> read_file \<Rightarrow> string \<Rightarrow> ipv4addr \<Rightarrow> ipv4addr \<Rightarrow> 'w \<Rightarrow> ((neigh_error + mac) \<times> 'w) option" where
  "probe_gateway_mac S read_to_string iface src_ip gw_ip w =
     (case read_iface_mac read_to_string iface of
        Inl e \<Rightarrow> Some (Inl e, w)
      | Inr src_mac \<Rightarrow>
          (case read_iface_index read_to_string iface of
             Inl e \<Rightarrow> Some (Inl e, w)
           | Inr ifindex \<Rightarrow>
               (case so_socket S w of
                  (Inl _, w1) \<Rightarrow> Some (Inl SocketFailed, w1)
                | (Inr fd, w1) \<Rightarrow>
                    map_option (\<lambda>(r, w'). (r, so_close S fd w'))
                      (probe_on_socket S fd src_mac ifindex src_ip gw_ip w1))))"

section \<open>Retries and the neighbour entry\<close>

text \<open>
  The runtime. \<open>spawn_blocking\<close> and the wait for its result run the closure to its end, on another thread;
  the wait gives a \<open>JoinError\<close> when the closure panicked, or when the runtime refused it because it was
  shutting down, and then the closure has not run at all (\<open>rt_refuses\<close>). The two closures of this file
  cannot panic: the slices they take have constant bounds, except \<open>&buf[..n]\<close>, where \<open>recvfrom\<close> returns
  at most the length of the buffer. The first may never return (\<open>None\<close>). \<open>rt_sleep\<close> is the pause of a
  second. The command runner reports whether the command could be started and whether it succeeded.
\<close>

record 'w runtime =
  rt_refuses :: "'w \<Rightarrow> bool"
  rt_sleep :: "'w \<Rightarrow> 'w"

definition spawn_blocking :: "'w runtime \<Rightarrow> ('w \<Rightarrow> ('a \<times> 'w) option) \<Rightarrow> 'w \<Rightarrow> ((unit + 'a) \<times> 'w) option" where
  "spawn_blocking R task w =
     (if rt_refuses R w then Some (Inl (), w) else map_option (\<lambda>(r, w'). (Inr r, w')) (task w))"

definition spawn_returning :: "'w runtime \<Rightarrow> ('w \<Rightarrow> 'a \<times> 'w) \<Rightarrow> 'w \<Rightarrow> (unit + 'a) \<times> 'w" where
  "spawn_returning R task w =
     (if rt_refuses R w then (Inl (), w) else case task w of (r, w') \<Rightarrow> (Inr r, w'))"

type_synonym 'w command = "string list \<Rightarrow> 'w \<Rightarrow> (unit + bool) \<times> 'w"

fun probe_attempts ::
  "'w runtime \<Rightarrow> ('w \<Rightarrow> ((neigh_error + mac) \<times> 'w) option) \<Rightarrow> nat list \<Rightarrow> 'w \<Rightarrow> ((neigh_error + mac) \<times> 'w) option" where
  "probe_attempts R probe [] w = Some (Inl AllAttemptsFailed, w)"
| "probe_attempts R probe (attempt # rest) w =
     (case spawn_blocking R probe w of
        None \<Rightarrow> None
      | Some (Inl _, w') \<Rightarrow> Some (Inl TaskPanicked, w')
      | Some (Inr (Inr mac), w') \<Rightarrow> Some (Inr mac, w')
      | Some (Inr (Inl err), w') \<Rightarrow> probe_attempts R probe rest (rt_sleep R w'))"

definition probe_with_retry ::
  "'w runtime \<Rightarrow> 'w sock_env \<Rightarrow> read_file \<Rightarrow> string \<Rightarrow> ipv4addr \<Rightarrow> ipv4addr \<Rightarrow> 'w \<Rightarrow> ((neigh_error + mac) \<times> 'w) option" where
  "probe_with_retry R S read_to_string iface src_ip gw_ip w =
     probe_attempts R (probe_gateway_mac S read_to_string iface src_ip gw_ip) [1, 2, 3] w"

definition neigh_args :: "string \<Rightarrow> ipv4addr \<Rightarrow> mac \<Rightarrow> string list" where
  "neigh_args iface gw_ip mac =
     [''neigh'', ''replace'', Ipv4Addr_to_string gw_ip, ''lladdr'', mac_to_string mac, ''dev'', iface, ''nud'',
      ''permanent'']"

definition set_permanent_neigh ::
  "'w runtime \<Rightarrow> 'w command \<Rightarrow> string \<Rightarrow> ipv4addr \<Rightarrow> mac \<Rightarrow> 'w \<Rightarrow> (neigh_error + unit) \<times> 'w" where
  "set_permanent_neigh R ip iface gw_ip mac w =
     (case spawn_returning R (\<lambda>w.
         case ip (neigh_args iface gw_ip mac) w of
           (Inl _, w') \<Rightarrow> (Inl CommandNotRun, w')
         | (Inr success, w') \<Rightarrow> (if \<not> success then Inl CommandFailed else Inr (), w')) w of
        (Inl _, w') \<Rightarrow> (Inl TaskPanicked, w')
      | (Inr r, w') \<Rightarrow> (r, w'))"

text \<open>The refresher after the given number of ticks of its timer; \<open>None\<close> when the probe never returned.\<close>

fun refresh_ticks :: "'w runtime \<Rightarrow> 'w command \<Rightarrow> string \<Rightarrow> ipv4addr \<Rightarrow> mac \<Rightarrow> nat \<Rightarrow> 'w \<Rightarrow> 'w" where
  "refresh_ticks R ip iface gw_ip mac 0 w = w"
| "refresh_ticks R ip iface gw_ip mac (Suc n) w =
     refresh_ticks R ip iface gw_ip mac n (snd (set_permanent_neigh R ip iface gw_ip mac w))"

definition probe_and_refresh ::
  "'w runtime \<Rightarrow> 'w command \<Rightarrow> 'w sock_env \<Rightarrow> read_file \<Rightarrow> string \<Rightarrow> ipv4addr \<Rightarrow> ipv4addr \<Rightarrow> nat \<Rightarrow> 'w \<Rightarrow> 'w option" where
  "probe_and_refresh R ip S read_to_string iface src_ip gw_ip ticks w =
     (case probe_with_retry R S read_to_string iface src_ip gw_ip w of
        None \<Rightarrow> None
      | Some (Inl err, w') \<Rightarrow> Some w'
      | Some (Inr mac, w') \<Rightarrow>
          Some (refresh_ticks R ip iface gw_ip mac ticks (snd (set_permanent_neigh R ip iface gw_ip mac w'))))"

section \<open>Lemmas on frames\<close>

text \<open>The request in the terms of the headers the XDP program reads.\<close>

definition probe_eth :: "mac \<Rightarrow> EthHdr" where
  "probe_eth m = \<lparr>eth_dst_addr = (0xff, 0xff, 0xff, 0xff, 0xff, 0xff), eth_src_addr = m, eth_ether_type = (8, 6)\<rparr>"

definition probe_arp :: "mac \<Rightarrow> ipv4addr \<Rightarrow> ipv4addr \<Rightarrow> ArpHdr" where
  "probe_arp m src dst = \<lparr>arp_htype = (0, 1), arp_ptype = (8, 0), arp_hlen = 6, arp_plen = 4, arp_oper = (0, 1),
     arp_sha = m, arp_spa = src, arp_tha = (0, 0, 0, 0, 0, 0), arp_tpa = dst\<rparr>"

lemma upd_replicate: "0 < n \<Longrightarrow> (replicate n x)[0 := y] = y # replicate (n - 1) x"
  by (cases n) simp_all

lemma replicate_6: "replicate 6 x = [x, x, x, x, x, x]"
  by (simp add: numeral_eq_Suc)

lemma build_arp_request_bytes:
  "build_arp_request m src dst = bytes_EthHdr (probe_eth m) @ bytes_ArpHdr (probe_arp m src dst)"
proof -
  obtain a b c d e f where m: "m = (a, b, c, d, e, f)" by (cases m)
  obtain g h i j where src: "src = (g, h, i, j)" by (cases src)
  obtain k l o' q where dst: "dst = (k, l, o', q)" by (cases dst)
  have eth: "put_bytes 12 [8, 6] (put_bytes 6 (list6 m) (put_bytes 0 (replicate 6 0xff) (replicate 42 0))) =
      replicate 6 0xff @ [a, b, c, d, e, f, 8, 6] @ replicate 28 0"
    by (simp add: m put_bytes_def)
  show ?thesis
    unfolding build_arp_request_def Let_def eth
    by (simp add: m src dst put_bytes_def list_update_append upd_replicate replicate_6 probe_eth_def probe_arp_def
        bytes_EthHdr_def bytes_ArpHdr_def)
qed

lemma build_arp_request_headers:
  "length (build_arp_request m src dst) = 42"
  "load_EthHdr (build_arp_request m src dst) 0 = probe_eth m"
  "load_ArpHdr (build_arp_request m src dst) 14 = probe_arp m src dst"
proof -
  show "length (build_arp_request m src dst) = 42" by (simp add: build_arp_request_bytes)
  show "load_EthHdr (build_arp_request m src dst) 0 = probe_eth m"
    "load_ArpHdr (build_arp_request m src dst) 14 = probe_arp m src dst"
    by (cases m; cases src; cases dst;
        simp add: build_arp_request_bytes probe_eth_def probe_arp_def header_defs)+
qed

lemma parse_arp_reply_iff:
  "parse_arp_reply d gw src = Some m \<longleftrightarrow>
     42 \<le> length d \<and> u16_from_be_bytes (eth_ether_type (load_EthHdr d 0)) = 0x0806 \<and>
     u16_from_be_bytes (arp_oper (load_ArpHdr d 14)) = 2 \<and> arp_spa (load_ArpHdr d 14) = gw \<and>
     arp_tpa (load_ArpHdr d 14) = src \<and> arp_sha (load_ArpHdr d 14) = m"
  by (auto simp: parse_arp_reply_def Let_def header_defs not_less)

lemma neigh_parse_mac_eq: "neigh_parse_mac = parse_mac"
  by (simp add: fun_eq_iff neigh_parse_mac_def parse_mac_def Let_def)

text \<open>The XDP program answers the request of the prober.\<close>

lemma probe_answered:
  assumes "ethertype_arp env = u16_from_ne_bytes (env_endian env) (8, 6)"
    and "ARP_TABLE maps (arp_key env i gw) = Some m"
  shows "\<exists>d'. dumbarp env lru maps \<lparr>xdp_data = build_arp_request own src gw, ingress_ifindex = i\<rparr> =
      (XDP_TX, \<lparr>xdp_data = d', ingress_ifindex = i\<rparr>, maps) \<and>
    eth_dst_addr (load_EthHdr d' 0) = own \<and> parse_arp_reply d' gw src = Some m"
proof -
  let ?d = "build_arp_request own src gw"
  let ?ctx = "\<lparr>xdp_data = ?d, ingress_ifindex = i\<rparr>"
  note h = build_arp_request_headers [of own src gw]
  have req: "arp_request_for env maps ?ctx m"
    using assms by (simp add: arp_request_for_def ether_type_of_def h probe_eth_def probe_arp_def u16_from_be_bytes.simps)
  let ?d1 = "put_bytes 14 (bytes_ArpHdr (arp_reply_to (probe_arp own src gw) m)) ?d"
  let ?e = "(probe_eth own)\<lparr>eth_dst_addr := own, eth_src_addr := m\<rparr>"
  let ?d2 = "put_bytes 0 (bytes_EthHdr ?e) ?d1"
  have r: "in_range 14 28 ?d" "in_range 0 14 ?d1" by (simp_all add: in_range_def h)
  have "load_ArpHdr ?d2 14 = arp_reply_to (probe_arp own src gw) m" "load_EthHdr ?d2 0 = ?e" "length ?d2 = 42"
    using r by (simp_all add: load_ArpHdr_frame load_put_ArpHdr load_put_EthHdr h)
  then have "parse_arp_reply ?d2 gw src = Some m" "eth_dst_addr (load_EthHdr ?d2 0) = own"
    by (simp_all add: parse_arp_reply_iff arp_reply_to_def probe_eth_def probe_arp_def u16_to_be_bytes_def
        u16_from_be_bytes.simps)
  moreover have "dumbarp env lru maps ?ctx = (XDP_TX, \<lparr>xdp_data = ?d2, ingress_ifindex = i\<rparr>, maps)"
    using dumbarp_request [OF req refl, of lru] by (simp add: h) (simp add: probe_eth_def)
  ultimately show ?thesis by blast
qed

section \<open>Lemmas on the receive loop\<close>

text \<open>What the loop makes of one receive, and the world after so many.\<close>

definition verdict :: "('w \<Rightarrow> (unit + u8 list) \<times> 'w) \<Rightarrow> ipv4addr \<Rightarrow> ipv4addr \<Rightarrow> 'w \<Rightarrow> (neigh_error + mac) option" where
  "verdict recv gw src w =
     (case fst (recv w) of
        Inl _ \<Rightarrow> Some (Inl RecvFailed)
      | Inr frame \<Rightarrow> map_option Inr (parse_arp_reply frame gw src))"

primrec after :: "('w \<Rightarrow> (unit + u8 list) \<times> 'w) \<Rightarrow> nat \<Rightarrow> 'w \<Rightarrow> 'w" where
  "after recv 0 w = w"
| "after recv (Suc n) w = after recv n (snd (recv w))"

lemma recv_loop_unfold:
  "recv_loop recv gw src w =
     (case verdict recv gw src w of
        Some r \<Rightarrow> Some (r, snd (recv w))
      | None \<Rightarrow> recv_loop recv gw src (snd (recv w)))"
proof -
  have "parse_arp_reply f gw src = None" if "length f < 42" for f
    using that by (simp add: parse_arp_reply_def)
  then show ?thesis
    by (subst recv_loop.simps) (auto simp: verdict_def split: prod.splits sum.splits option.splits)
qed

lemma recv_loop_returns:
  "\<forall>k < n. verdict recv gw src (after recv k w) = None \<Longrightarrow> verdict recv gw src (after recv n w) = Some r \<Longrightarrow>
     recv_loop recv gw src w = Some (r, after recv (Suc n) w)"
proof (induction n arbitrary: w)
  case 0
  then show ?case by (simp add: recv_loop_unfold [of recv gw src w])
next
  case (Suc n)
  have "verdict recv gw src w = None" using Suc.prems(1) by force
  moreover have "recv_loop recv gw src (snd (recv w)) = Some (r, after recv (Suc n) (snd (recv w)))"
  proof (rule Suc.IH)
    show "\<forall>k < n. verdict recv gw src (after recv k (snd (recv w))) = None"
      using Suc.prems(1) by force
    show "verdict recv gw src (after recv n (snd (recv w))) = Some r"
      using Suc.prems(2) by simp
  qed
  ultimately show ?case by (simp add: recv_loop_unfold [of recv gw src w])
qed

lemma recv_loop_stops:
  assumes "recv_loop recv gw src w = Some (r, w')"
  shows "\<exists>n. verdict recv gw src (after recv n w) \<noteq> None"
proof (rule recv_loop.raw_induct [where P = "\<lambda>recv gw src w _. \<exists>n. verdict recv gw src (after recv n w) \<noteq> None",
      OF _ assms])
  fix f :: "('w \<Rightarrow> (unit + u8 list) \<times> 'w) \<Rightarrow> ipv4addr \<Rightarrow> ipv4addr \<Rightarrow> 'w \<Rightarrow> ((neigh_error + mac) \<times> 'w) option"
    and recv gw src w y
  assume IH: "\<And>recv gw src w y. f recv gw src w = Some y \<Longrightarrow> \<exists>n. verdict recv gw src (after recv n w) \<noteq> None"
    and eq: "(case recv w of (r, w') \<Rightarrow>
        case r of
          Inl _ \<Rightarrow> Some (Inl RecvFailed, w')
        | Inr frame \<Rightarrow>
            if length frame < 42 then f recv gw src w'
            else case parse_arp_reply frame gw src of
              Some mac \<Rightarrow> Some (Inr mac, w')
            | None \<Rightarrow> f recv gw src w') = Some y"
  show "\<exists>n. verdict recv gw src (after recv n w) \<noteq> None"
  proof (cases "verdict recv gw src w")
    case None
    with eq have "f recv gw src (snd (recv w)) = Some y"
      by (auto simp: verdict_def split: prod.splits sum.splits option.splits if_splits)
    from IH [OF this] obtain n where "verdict recv gw src (after recv n (snd (recv w))) \<noteq> None" ..
    then show ?thesis by (intro exI [of _ "Suc n"]) simp
  next
    case (Some r)
    then show ?thesis by (intro exI [of _ 0]) simp
  qed
qed

lemma recv_loop_after:
  assumes "recv_loop recv gw src w = Some (r, w')"
  shows "\<exists>n. w' = after recv n w"
proof -
  from recv_loop_stops [OF assms] obtain n where
    n: "verdict recv gw src (after recv n w) \<noteq> None" "\<forall>k < n. verdict recv gw src (after recv k w) = None"
    using exists_least_iff [of "\<lambda>n. verdict recv gw src (after recv n w) \<noteq> None"] by auto
  then obtain r' where "verdict recv gw src (after recv n w) = Some r'" by blast
  from recv_loop_returns [OF n(2) this] assms show ?thesis by (intro exI [of _ "Suc n"]) simp
qed

section \<open>Lemmas on the socket\<close>

text \<open>
  The descriptors a process has open: a successful \<open>socket\<close> opens a new one, \<open>close\<close> closes it, the
  other calls and the pause leave them alone.
\<close>

definition sock_laws :: "'w sock_env \<Rightarrow> 'w runtime \<Rightarrow> ('w \<Rightarrow> int set) \<Rightarrow> bool" where
  "sock_laws S R fds \<longleftrightarrow>
     (\<forall>w fd w'. so_socket S w = (Inr fd, w') \<longrightarrow> fd \<notin> fds w \<and> fds w' = insert fd (fds w)) \<and>
     (\<forall>w e w'. so_socket S w = (Inl e, w') \<longrightarrow> fds w' = fds w) \<and>
     (\<forall>fd t w. fds (snd (so_rcvtimeo S fd t w)) = fds w) \<and>
     (\<forall>fd i w. fds (snd (so_bind S fd i w)) = fds w) \<and>
     (\<forall>fd i d w. fds (snd (so_sendto S fd i d w)) = fds w) \<and>
     (\<forall>fd w. fds (snd (so_recvfrom S fd w)) = fds w) \<and>
     (\<forall>fd w. fds (so_close S fd w) = fds w - {fd}) \<and>
     (\<forall>w. fds (rt_sleep R w) = fds w)"

lemma sock_lawsD:
  assumes "sock_laws S R fds"
  shows "so_socket S w = (Inr fd, w') \<Longrightarrow> fd \<notin> fds w \<and> fds w' = insert fd (fds w)"
    and "so_socket S w = (Inl e, w') \<Longrightarrow> fds w' = fds w"
    and "so_rcvtimeo S fd t w = (r, w') \<Longrightarrow> fds w' = fds w"
    and "so_bind S fd i w = (r, w') \<Longrightarrow> fds w' = fds w"
    and "so_sendto S fd i d w = (r, w') \<Longrightarrow> fds w' = fds w"
    and "fds (snd (so_recvfrom S fd w)) = fds w"
    and "fds (so_close S fd w) = fds w - {fd}"
    and "fds (rt_sleep R w) = fds w"
  using assms unfolding sock_laws_def by (simp_all, (metis snd_conv)+)

lemma after_fds: "sock_laws S R fds \<Longrightarrow> fds (after (so_recvfrom S fd) n w) = fds w"
  by (induction n arbitrary: w) (simp_all add: sock_lawsD(6))

lemma probe_on_socket_fds:
  assumes "sock_laws S R fds" "probe_on_socket S fd m i src gw w = Some (r, w')"
  shows "fds w' = fds w"
proof -
  obtain r1 w1 where 1: "so_rcvtimeo S fd 2 w = (r1, w1)" by (cases "so_rcvtimeo S fd 2 w")
  obtain r2 w2 where 2: "so_bind S fd i w1 = (r2, w2)" by (cases "so_bind S fd i w1")
  let ?send = "so_sendto S fd i (build_arp_request m src gw) w2"
  obtain r3 w3 where 3: "?send = (r3, w3)" by (cases ?send)
  note f = sock_lawsD(3) [OF assms(1) 1] sock_lawsD(4) [OF assms(1) 2] sock_lawsD(5) [OF assms(1) 3]
  from assms(2) 1 2 3 have "w' = w1 \<or> w' = w2 \<or> w' = w3 \<or>
      recv_loop (so_recvfrom S fd) gw src w3 = Some (r, w')"
    by (auto simp: probe_on_socket_def split: sum.splits)
  then show ?thesis
    using f recv_loop_after [of "so_recvfrom S fd" gw src w3 r w'] after_fds [OF assms(1)] by auto
qed

lemma probe_gateway_mac_fds:
  assumes "sock_laws S R fds" "probe_gateway_mac S rd iface src gw w = Some (r, w')"
  shows "fds w' = fds w"
proof (cases "isl (read_iface_mac rd iface) \<or> isl (read_iface_index rd iface)")
  case True
  with assms(2) show ?thesis by (auto simp: probe_gateway_mac_def isl_def split: sum.splits)
next
  case False
  then obtain m i where mi: "read_iface_mac rd iface = Inr m" "read_iface_index rd iface = Inr i"
    by (cases "read_iface_mac rd iface"; cases "read_iface_index rd iface") auto
  obtain r1 w1 where s: "so_socket S w = (r1, w1)" by (cases "so_socket S w")
  show ?thesis
  proof (cases r1)
    case (Inl e)
    with assms(2) s mi sock_lawsD(2) [OF assms(1), of w e w1] show ?thesis by (simp add: probe_gateway_mac_def)
  next
    case (Inr fd)
    with assms(2) s mi obtain w2 where
      p: "probe_on_socket S fd m i src gw w1 = Some (r, w2)" "w' = so_close S fd w2"
      by (auto simp: probe_gateway_mac_def)
    with sock_lawsD(1) [OF assms(1) s [unfolded Inr]] show ?thesis
      by (simp add: probe_on_socket_fds [OF assms(1) p(1)] sock_lawsD(7) [OF assms(1)])
  qed
qed

lemma probe_attempts_fds:
  assumes "sock_laws S R fds" "\<And>w r w'. probe w = Some (r, w') \<Longrightarrow> fds w' = fds w"
  shows "probe_attempts R probe as w = Some (r, w') \<Longrightarrow> fds w' = fds w"
proof (induction "as" arbitrary: w)
  case Nil
  then show ?case by simp
next
  case (Cons a as')
  from Cons.prems obtain q w1 where q: "spawn_blocking R probe w = Some (q, w1)" by (auto split: option.splits)
  have f: "fds w1 = fds w" using q assms(2) by (auto simp: spawn_blocking_def split: if_splits)
  from Cons.prems q have "w' = w1 \<or> probe_attempts R probe as' (rt_sleep R w1) = Some (r, w')"
    by (auto split: sum.splits)
  then show ?case using f Cons.IH sock_lawsD(8) [OF assms(1)] by auto
qed

section \<open>Properties\<close>

text \<open>
  C29. The receive loop returns exactly when some receive settles it: the first one that fails, or that
  holds an ARP reply from the gateway's address to ours, decides, and its verdict is the result. A
  stream of other frames that never ends keeps the loop running forever, since the timeout is one of
  each single receive.
\<close>

theorem recv_loop_settles:
  "recv_loop recv gw src w =
     (if \<exists>n. verdict recv gw src (after recv n w) \<noteq> None
      then let n = (LEAST n. verdict recv gw src (after recv n w) \<noteq> None)
           in Some (the (verdict recv gw src (after recv n w)), after recv (Suc n) w)
      else None)"
proof (cases "\<exists>n. verdict recv gw src (after recv n w) \<noteq> None")
  case True
  let ?n = "LEAST n. verdict recv gw src (after recv n w) \<noteq> None"
  have "verdict recv gw src (after recv ?n w) = Some (the (verdict recv gw src (after recv ?n w)))"
    using LeastI_ex [OF True] by simp
  moreover have "\<forall>k < ?n. verdict recv gw src (after recv k w) = None" using not_less_Least by blast
  ultimately show ?thesis using True recv_loop_returns [of ?n recv gw src w] by (simp add: Let_def)
next
  case False
  then have "recv_loop recv gw src w = None" using recv_loop_stops [of recv gw src w] by (metis not_None_eq prod.exhaust)
  with False show ?thesis by simp
qed

text \<open>
  The prober and the responder agree on the wire. When the XDP program of another host receives
  the request the prober builds, on an interface whose table has the asked address, the frame it
  sends back goes to the prober, and the prober's parser accepts it as the answer and reads the
  table's MAC address from it.
\<close>

theorem responder_answers_probe:
  assumes "ethertype_arp env = u16_from_ne_bytes (env_endian env) (8, 6)"
    and "ARP_TABLE maps (arp_key env i gw) = Some m"
  shows "\<exists>d'. dumbarp env lru maps \<lparr>xdp_data = build_arp_request own src gw, ingress_ifindex = i\<rparr> =
      (XDP_TX, \<lparr>xdp_data = d', ingress_ifindex = i\<rparr>, maps) \<and>
    eth_dst_addr (load_EthHdr d' 0) = own \<and> parse_arp_reply d' gw src = Some m"
  using assms by (rule probe_answered)

theorem responder_answers_probe_witness:
  "\<exists>d'. dumbarp sample_env sample_lru sample_maps
      \<lparr>xdp_data = build_arp_request (2, 0, 0, 0, 0, 9) (10, 0, 0, 9) (10, 0, 0, 1), ingress_ifindex = 2\<rparr> =
      (XDP_TX, \<lparr>xdp_data = d', ingress_ifindex = 2\<rparr>, sample_maps) \<and>
    eth_dst_addr (load_EthHdr d' 0) = (2, 0, 0, 0, 0, 9) \<and>
    parse_arp_reply d' (10, 0, 0, 1) (10, 0, 0, 9) = Some (2, 0, 0, 0, 0, 1)"
  by (rule responder_answers_probe) (simp_all add: sample_env_def sample_maps_def u16_from_be_bytes.simps)

text \<open>
  C30. The prober leaks no socket. However the attempts end, whichever call on the socket fails in them,
  whatever frames arrive, and whether or not the runtime refuses one of the tasks, once
  \<open>probe_with_retry\<close> returns the process has the descriptors open that it had before: every path through
  \<open>probe_gateway_mac\<close> that opened a socket has closed it.
\<close>

theorem probe_closes_sockets:
  assumes "sock_laws S R fds" "probe_with_retry R S rd iface src gw w = Some (r, w')"
  shows "fds w' = fds w"
  using probe_attempts_fds [OF assms(1), of "probe_gateway_mac S rd iface src gw"]
    probe_gateway_mac_fds [OF assms(1)] assms(2)
  unfolding probe_with_retry_def by blast

text \<open>A world of frames to receive and open descriptors.\<close>

definition sim_sock :: "(u8 list list \<times> int set) sock_env" where
  "sim_sock = \<lparr>so_socket = (\<lambda>(fs, o'). if 3 \<in> o' then (Inl (), (fs, o')) else (Inr 3, (fs, insert 3 o'))),
     so_rcvtimeo = (\<lambda>fd t w. (Inr (), w)), so_bind = (\<lambda>fd i w. (Inr (), w)), so_sendto = (\<lambda>fd i d w. (Inr (), w)),
     so_recvfrom = (\<lambda>fd (fs, o'). case fs of [] \<Rightarrow> (Inl (), ([], o')) | f # fs' \<Rightarrow> (Inr f, (fs', o'))),
     so_close = (\<lambda>fd (fs, o'). (fs, o' - {fd}))\<rparr>"

text \<open>A runtime that never refuses a task, and one that does so once there is nothing left to receive.\<close>

definition sim_runtime :: "'w runtime" where
  "sim_runtime = \<lparr>rt_refuses = (\<lambda>w. False), rt_sleep = (\<lambda>w. w)\<rparr>"

definition closing_runtime :: "(u8 list list \<times> int set) runtime" where
  "closing_runtime = \<lparr>rt_refuses = (\<lambda>w. fst w = []), rt_sleep = (\<lambda>w. w)\<rparr>"

lemma sim_sock_laws: "sock_laws sim_sock sim_runtime snd" "sock_laws sim_sock closing_runtime snd"
  by (auto simp: sock_laws_def sim_sock_def sim_runtime_def closing_runtime_def split: if_splits list.split)

definition sim_iface :: read_file where
  "sim_iface path =
     (if path = sys_path ''eth0'' ''address'' then Some (mac_to_string (2, 0, 0, 0, 0, 9) @ [CHR 0x0A])
      else if path = sys_path ''eth0'' ''ifindex'' then Some ''2'' else None)"

lemma sim_iface_eth0:
  "read_iface_mac sim_iface ''eth0'' = Inr (2, 0, 0, 0, 0, 9)" "read_iface_index sim_iface ''eth0'' = Inr 2"
  subgoal by (simp add: read_iface_mac_def sim_iface_def trim_mac neigh_parse_mac_eq del: mac_to_string.simps)
  subgoal by (simp add: read_iface_index_def sim_iface_def sys_path_def trim_def is_space_def parse_i32_def
      parse_uint_def strip_plus_def digit_of_def hex_val_def)
  done

lemmas sim_probe = probe_with_retry_def probe_gateway_mac_def probe_on_socket_def sim_iface_eth0 sim_sock_def
  spawn_blocking_def recv_loop.simps

theorem probe_closes_sockets_witness:
  "(\<exists>w'. probe_with_retry sim_runtime sim_sock sim_iface ''eth0'' (10, 0, 0, 9) (10, 0, 0, 1) ([[1, 2, 3]], {0, 1, 2}) =
      Some (Inl AllAttemptsFailed, w') \<and> snd w' = {0, 1, 2}) \<and>
   (\<exists>w'. probe_with_retry closing_runtime sim_sock sim_iface ''eth0'' (10, 0, 0, 9) (10, 0, 0, 1) ([[1, 2, 3]], {0, 1, 2}) =
      Some (Inl TaskPanicked, w') \<and> snd w' = {0, 1, 2})"
proof -
  let ?p = "\<lambda>R. probe_with_retry R sim_sock sim_iface ''eth0'' (10, 0, 0, 9) (10, 0, 0, 1) ([[1, 2, 3]], {0, 1, 2})"
  have "\<exists>w'. ?p sim_runtime = Some (Inl AllAttemptsFailed, w')"
    by (simp add: sim_probe sim_runtime_def)
  then obtain w1 where 1: "?p sim_runtime = Some (Inl AllAttemptsFailed, w1)" ..
  have "\<exists>w'. ?p closing_runtime = Some (Inl TaskPanicked, w')"
    by (simp add: sim_probe closing_runtime_def)
  then obtain w2 where 2: "?p closing_runtime = Some (Inl TaskPanicked, w2)" ..
  from probe_closes_sockets [OF sim_sock_laws(1) 1] probe_closes_sockets [OF sim_sock_laws(2) 2] 1 2
  show ?thesis by auto
qed

end
