(* ===== verification/Btree.thy ===== *)
theory Btree
  imports Prelude "HOL-Library.List_Lexorder" "HOL-Library.Char_ord" "HOL-Library.Product_Lexorder"
begin

text \<open>
  The standard library's ordered map, which the daemon keeps its leases in and the Kubernetes
  replicator its pools. The locale \<open>dictionary\<close> is the contract of a map with insertion and removal; the
  ordered map and the hash map of the prelude both interpret it.
\<close>

text \<open>The standard library's \<open>BTreeMap\<close>, as the list of its entries in the order of the keys.\<close>

fun bt_insert :: "'k :: linorder \<Rightarrow> 'v \<Rightarrow> ('k \<times> 'v) list \<Rightarrow> ('k \<times> 'v) list" where
  "bt_insert k v [] = [(k, v)]"
| "bt_insert k v ((k', v') # m) =
     (if k < k' then (k, v) # (k', v') # m
      else if k = k' then (k, v) # m
      else (k', v') # bt_insert k v m)"

definition bt_remove :: "'k :: linorder \<Rightarrow> ('k \<times> 'v) list \<Rightarrow> ('k \<times> 'v) list" where
  "bt_remove k m = filter (\<lambda>(k', v). k' \<noteq> k) m"

definition bt_ok :: "('k :: linorder \<times> 'v) list \<Rightarrow> bool" where
  "bt_ok m \<longleftrightarrow> sorted_wrt (<) (map fst m)"

section \<open>The contract of a dictionary\<close>

locale dictionary =
  fixes get :: "'m \<Rightarrow> 'k \<Rightarrow> 'v option" and put :: "'k \<Rightarrow> 'v \<Rightarrow> 'm \<Rightarrow> 'm" and del :: "'k \<Rightarrow> 'm \<Rightarrow> 'm"
    and ok :: "'m \<Rightarrow> bool"
  assumes get_put: "ok m \<Longrightarrow> get (put k v m) = (get m)(k \<mapsto> v)"
    and get_del: "ok m \<Longrightarrow> get (del k m) = (get m)(k := None)"
    and ok_put: "ok m \<Longrightarrow> ok (put k v m)"
    and ok_del: "ok m \<Longrightarrow> ok (del k m)"
begin

lemma del_put: "ok m \<Longrightarrow> get m k = None \<Longrightarrow> get (del k (put k v m)) = get m"
  by (auto simp: get_put get_del ok_put)

lemma put_put: "ok m \<Longrightarrow> get (put k w (put k v m)) = get (put k w m)"
  by (simp add: get_put ok_put)

lemma puts_ok: "ok m \<Longrightarrow> ok (fold (\<lambda>(k, v). put k v) kvs m)"
  by (induction kvs arbitrary: m) (auto simp: ok_put)

lemma get_puts: "ok m \<Longrightarrow> get (fold (\<lambda>(k, v). put k v) kvs m) = get m ++ map_of (rev kvs)"
  by (induction kvs arbitrary: m) (auto simp: ok_put get_put map_add_assoc)

end

lemma map_of_bt_insert [simp]: "map_of (bt_insert k v m) = (map_of m)(k \<mapsto> v)"
  by (induction k v m rule: bt_insert.induct) auto

lemma map_of_bt_remove [simp]: "map_of (bt_remove k m) = (map_of m)(k := None)"
  by (induction m) (auto simp: bt_remove_def)

lemma fst_bt_insert: "fst ` set (bt_insert k v m) = insert k (fst ` set m)"
  by (induction k v m rule: bt_insert.induct) auto

lemma bt_ok_insert [simp]: "bt_ok m \<Longrightarrow> bt_ok (bt_insert k v m)"
  by (induction k v m rule: bt_insert.induct) (auto simp: bt_ok_def fst_bt_insert)

lemma bt_ok_remove [simp]: "bt_ok m \<Longrightarrow> bt_ok (bt_remove k m)"
  unfolding bt_ok_def bt_remove_def by (induction m) auto

interpretation bt: dictionary map_of bt_insert bt_remove bt_ok
  by unfold_locales simp_all

interpretation hm: dictionary hm_get hm_insert hm_remove hm_ok
  by unfold_locales (simp_all add: fun_eq_iff)

lemma bt_ok_Nil [simp]: "bt_ok []"
  by (simp add: bt_ok_def)

lemma bt_ok_distinct: "bt_ok m \<Longrightarrow> distinct (map fst m)"
  unfolding bt_ok_def by (simp add: strict_sorted_iff)

text \<open>A map filled in a loop that skips some of the items.\<close>

definition bt_collect :: "('a \<Rightarrow> ('k :: linorder \<times> 'v) option) \<Rightarrow> 'a list \<Rightarrow> ('k \<times> 'v) list" where
  "bt_collect f xs = foldl (\<lambda>out x. case f x of None \<Rightarrow> out | Some (k, v) \<Rightarrow> bt_insert k v out) [] xs"

lemma foldl_collect:
  "foldl (\<lambda>out x. case f x of None \<Rightarrow> out | Some (k, v) \<Rightarrow> bt_insert k v out) out xs =
     fold (\<lambda>(k, v). bt_insert k v) (List.map_filter f xs) out"
  by (induction xs arbitrary: out) (auto split: option.split)

lemma map_of_collect: "map_of (bt_collect f xs) = map_of (rev (List.map_filter f xs))"
  unfolding bt_collect_def foldl_collect by (simp add: bt.get_puts)

lemma bt_ok_collect: "bt_ok (bt_collect f xs)"
  unfolding bt_collect_def foldl_collect by (simp add: bt.puts_ok)

lemma bt_collect_from:
  "(k, v) \<in> set (bt_collect f xs) \<Longrightarrow> \<exists>x \<in> set xs. f x = Some (k, v)"
proof -
  assume "(k, v) \<in> set (bt_collect f xs)"
  then have "map_of (bt_collect f xs) k = Some v"
    by (rule map_of_is_SomeI [OF bt_ok_distinct [OF bt_ok_collect]])
  then have "(k, v) \<in> set (List.map_filter f xs)" unfolding map_of_collect by (auto dest: map_of_SomeD)
  then show ?thesis by (auto simp: List.map_filter_def)
qed

lemma bt_collect_has:
  "x \<in> set xs \<Longrightarrow> f x = Some (k, v) \<Longrightarrow> \<exists>v'. (k, v') \<in> set (bt_collect f xs)"
proof -
  assume "x \<in> set xs" "f x = Some (k, v)"
  then have "(k, v) \<in> set (rev (List.map_filter f xs))" by (force simp: List.map_filter_def)
  then have "map_of (bt_collect f xs) k \<noteq> None" unfolding map_of_collect using weak_map_of_SomeI by fastforce
  then show ?thesis by (auto dest: map_of_SomeD)
qed

end
