(* ===== verification/Daemon.thy ===== *)
theory Daemon
  imports Engine Routing Btree
begin

text \<open>
  The daemon \<open>dumbarpd\<close>, crate \<open>dumbarp-daemon\<close>: configuration (\<open>config.rs\<close>), the shared state
  (\<open>state.rs\<close>, \<open>lease.rs\<close>), the HTTP service (\<open>http.rs\<close>), the DHCP task of every interface (\<open>dhcp.rs\<close>)
  and the routing refresh (\<open>refresh.rs\<close>). The DHCP tasks run concurrently over the engine and the
  leases, each behind its own lock; they are a step relation whose steps are the critical sections.
\<close>

section \<open>Configuration\<close>

record 'sock DConfig =
  dc_listen :: 'sock
  dc_auth_token :: string
  dc_refresh_interval_secs :: u64
  dc_ifaces :: "string list"
  dc_manage_routing :: bool
  dc_neigh_refresh_interval_secs :: u64
  dc_dumbarpd_id :: u8

definition d_default_refresh :: u64 where "d_default_refresh = 60"
definition d_default_manage_routing :: bool where "d_default_manage_routing = True"
definition d_default_neigh_refresh :: u64 where "d_default_neigh_refresh = 30"

datatype dconfig_error = DcRead | DcParse | DcEmptyToken | DcNoIfaces | DcZeroRefresh | DcBadId u8

definition d_check :: "'sock DConfig \<Rightarrow> dconfig_error + 'sock DConfig" where
  "d_check cfg =
     (if dc_auth_token cfg = [] then Inl DcEmptyToken
      else if dc_ifaces cfg = [] then Inl DcNoIfaces
      else if dc_refresh_interval_secs cfg = 0 then Inl DcZeroRefresh
      else if dc_dumbarpd_id cfg > DSCP_ID_MAX then Inl (DcBadId (dc_dumbarpd_id cfg))
      else Inr cfg)"

definition d_load ::
  "('path \<Rightarrow> string option) \<Rightarrow> (string \<Rightarrow> 'sock DConfig option) \<Rightarrow> 'path \<Rightarrow> dconfig_error + 'sock DConfig" where
  "d_load read_to_string from_toml path =
     (case read_to_string path of
        None \<Rightarrow> Inl DcRead
      | Some raw \<Rightarrow> (case from_toml raw of None \<Rightarrow> Inl DcParse | Some cfg \<Rightarrow> d_check cfg))"

definition dscp_id :: "'sock DConfig \<Rightarrow> u8 option" where
  "dscp_id self = (if dc_dumbarpd_id self \<noteq> 0 then Some (dc_dumbarpd_id self) else None)"

section \<open>The shared state\<close>

record LeaseInfo =
  li_ip :: ipv4addr
  li_gateway :: ipv4addr

record ('b, 'x, 't) AppState =
  st_auth_token :: string
  engine :: "('b, 'x, 't) Dumbarp"
  leases :: "(string \<times> LeaseInfo) list"
  st_dumbarpd_id :: "u8 option"

definition AppState_new :: "string \<Rightarrow> ('b, 'x, 't) Dumbarp \<Rightarrow> u8 option \<Rightarrow> ('b, 'x, 't) AppState" where
  "AppState_new auth_token eng dumbarpd_id =
     \<lparr>st_auth_token = auth_token, engine = eng, leases = [], st_dumbarpd_id = dumbarpd_id\<rparr>"

definition current_ips :: "('b, 'x, 't) AppState \<Rightarrow> ipv4addr list" where
  "current_ips self = map (\<lambda>(iface, l). li_ip l) (leases self)"

definition current_routes :: "('b, 'x, 't) AppState \<Rightarrow> RouteSpec list" where
  "current_routes self =
     map (\<lambda>(iface, l). \<lparr>sp_src = li_ip l, sp_gateway = li_gateway l, sp_iface = iface, sp_fwmark = None\<rparr>)
       (leases self)"

section \<open>The HTTP service\<close>

definition constant_time_eq :: "u8 list \<Rightarrow> u8 list \<Rightarrow> bool" where
  "constant_time_eq a b \<longleftrightarrow>
     (if length a \<noteq> length b then False
      else foldl (\<lambda>diff (x, y). diff OR (x XOR y)) 0 (zip a b) = 0)"

definition auth_layer :: "string \<Rightarrow> auth_header \<Rightarrow> 'r \<Rightarrow> 'r response" where
  "auth_layer auth_token header next =
     (case header of
        None \<Rightarrow> Unauthorized
      | Some (Inl _) \<Rightarrow> Unauthorized
      | Some (Inr v) \<Rightarrow>
          (case strip_prefix ''Bearer '' v of
             None \<Rightarrow> Unauthorized
           | Some token \<Rightarrow>
               if \<not> constant_time_eq (as_bytes token) (as_bytes auth_token) then Unauthorized else Answer next))"

definition leases_handler :: "('b, 'x, 't) AppState \<Rightarrow> LeasesResponse" where
  "leases_handler state =
     \<lparr>lr_ips = map Ipv4Addr_to_string (current_ips state), lr_dumbarpd_id = st_dumbarpd_id state\<rparr>"

definition healthz_handler :: string where "healthz_handler = ''ok''"

text \<open>The two routes of the service: \<open>/healthz\<close> is open, \<open>/leases\<close> is behind the guard.\<close>

datatype http_route = GetHealthz | GetLeases

datatype page = Healthz string | LeasesPage LeasesResponse

definition http_router :: "('b, 'x, 't) AppState \<Rightarrow> http_route \<Rightarrow> auth_header \<Rightarrow> page response" where
  "http_router state route header =
     (case route of
        GetHealthz \<Rightarrow> Answer (Healthz healthz_handler)
      | GetLeases \<Rightarrow> auth_layer (st_auth_token state) header (LeasesPage (leases_handler state)))"

section \<open>The routing refresh\<close>

definition reconcile_routing ::
  "('b, 'x, 't) AppState \<Rightarrow> (u32 list \<Rightarrow> u32 list) \<Rightarrow> 's netlink option \<Rightarrow> 's \<Rightarrow> 's" where
  "reconcile_routing state iter manager s =
     (case manager of
        None \<Rightarrow> s
      | Some K \<Rightarrow> let desired = current_routes state in (case reconcile K iter desired s of (_, _, s') \<Rightarrow> s'))"

section \<open>The DHCP tasks\<close>

record dhcp_lease =
  yiaddr :: ipv4addr
  gateways :: "ipv4addr list option"

definition first_gateway :: "dhcp_lease \<Rightarrow> ipv4addr option" where
  "first_gateway lease =
     (case gateways lease of
        None \<Rightarrow> None
      | Some gs \<Rightarrow> (case gs of [] \<Rightarrow> None | g # _ \<Rightarrow> Some g))"

text \<open>
  Where a task of \<open>run_dhcp_for_iface\<close> stands between two critical sections: creating its client;
  waiting for an event; engine updated and about to record the lease; lease recorded and about to
  restart the neighbour refresher; attach failed and about to drop the lease; detached after a DHCP
  error and about to drop the lease; left the event loop; refresher stopped; detached and about to
  drop the lease. \<open>spawn_all\<close> starts one task for every element of the configured list, so that an
  interface listed twice has two tasks; they are numbered by their position in the list.
\<close>

datatype pc =
    Init
  | Waiting
  | PutLease LeaseInfo
  | StartNeigh LeaseInfo
  | AttachFailed
  | ErrDetached
  | Ended
  | Aborted
  | Detached

record ('b, 'x, 't) daemon =
  app :: "('b, 'x, 't) AppState"
  task :: "nat \<Rightarrow> (string \<times> pc) option"
  refresher :: "nat \<Rightarrow> (ipv4addr \<times> ipv4addr) option"

definition spawn_all :: "('b, 'x, 't) AppState \<Rightarrow> string list \<Rightarrow> ('b, 'x, 't) daemon" where
  "spawn_all state ifaces =
     \<lparr>app = state, task = (\<lambda>n. if n < length ifaces then Some (ifaces ! n, Init) else None),
      refresher = (\<lambda>_. None)\<rparr>"

definition goto :: "nat \<Rightarrow> pc \<Rightarrow> ('b, 'x, 't) daemon \<Rightarrow> ('b, 'x, 't) daemon" where
  "goto n p d = d\<lparr>task := (task d)(n := map_option (\<lambda>(iface, _). (iface, p)) (task d n))\<rparr>"

definition set_engine :: "('b, 'x, 't) Dumbarp \<Rightarrow> ('b, 'x, 't) daemon \<Rightarrow> ('b, 'x, 't) daemon" where
  "set_engine e d = d\<lparr>app := (app d)\<lparr>engine := e\<rparr>\<rparr>"

definition set_leases :: "(string \<times> LeaseInfo) list \<Rightarrow> ('b, 'x, 't) daemon \<Rightarrow> ('b, 'x, 't) daemon" where
  "set_leases m d = d\<lparr>app := (app d)\<lparr>leases := m\<rparr>\<rparr>"

text \<open>The section under the engine's lock when a lease arrives: detach, then attach with the new address.\<close>

definition on_lease ::
  "('b, 'x, 't) aya \<Rightarrow> endian \<Rightarrow> read_file \<Rightarrow> nat \<Rightarrow> string \<Rightarrow> dhcp_lease \<Rightarrow> ('b, 'x, 't) daemon \<Rightarrow>
   ('b, 'x, 't) daemon" where
  "on_lease A en read_to_string n iface lease d =
     (case first_gateway lease of
        None \<Rightarrow> d
      | Some gateway \<Rightarrow>
          let ip = yiaddr lease; info = \<lparr>li_ip = ip, li_gateway = gateway\<rparr>;
              e1 = snd (remove_interface A iface (engine (app d)))
          in case add_interface A en read_to_string iface ip (st_dumbarpd_id (app d)) e1 of
               (Inr _, e2) \<Rightarrow> goto n (PutLease info) (set_engine e2 d)
             | (Inl _, e2) \<Rightarrow> goto n AttachFailed (set_engine e2 d))"

text \<open>The two sections of \<open>detach\<close>, and those that update the leases and the refresher.\<close>

definition detach_engine :: "('b, 'x, 't) aya \<Rightarrow> string \<Rightarrow> ('b, 'x, 't) daemon \<Rightarrow> ('b, 'x, 't) daemon" where
  "detach_engine A iface d = set_engine (snd (remove_interface A iface (engine (app d)))) d"

definition drop_lease :: "string \<Rightarrow> ('b, 'x, 't) daemon \<Rightarrow> ('b, 'x, 't) daemon" where
  "drop_lease iface d = set_leases (bt_remove iface (leases (app d))) d"

definition put_lease :: "string \<Rightarrow> LeaseInfo \<Rightarrow> ('b, 'x, 't) daemon \<Rightarrow> ('b, 'x, 't) daemon" where
  "put_lease iface info d = set_leases (bt_insert iface info (leases (app d))) d"

definition restart_refresher :: "nat \<Rightarrow> LeaseInfo \<Rightarrow> ('b, 'x, 't) daemon \<Rightarrow> ('b, 'x, 't) daemon" where
  "restart_refresher n info d =
     d\<lparr>refresher := (refresher d)(n \<mapsto> (li_ip info, li_gateway info))\<rparr>"

definition stop_refresher :: "nat \<Rightarrow> ('b, 'x, 't) daemon \<Rightarrow> ('b, 'x, 't) daemon" where
  "stop_refresher n d = d\<lparr>refresher := (refresher d)(n := None)\<rparr>"

text \<open>
  One step of one task, the \<open>n\<close>th, which is on interface \<open>i\<close>. A client that cannot be created is retried,
  an event is a lease, an error or the end of the stream. When a lease attaches the interface, the
  kernel's index of it is not that of another attached interface.
\<close>

inductive dhcp_step ::
  "('b, 'x, 't) aya \<Rightarrow> endian \<Rightarrow> ('b, 'x, 't) daemon \<Rightarrow> ('b, 'x, 't) daemon \<Rightarrow> bool" for A en where
  init_ok: "task d n = Some (i, Init) \<Longrightarrow> dhcp_step A en d (goto n Waiting d)"
| init_err: "task d n = Some (i, Init) \<Longrightarrow> dhcp_step A en d d"
| lease: "task d n = Some (i, Waiting) \<Longrightarrow>
    fresh_ifindex rd i (snd (remove_interface A i (engine (app d)))) \<Longrightarrow>
    dhcp_step A en d (on_lease A en rd n i l d)"
| put: "task d n = Some (i, PutLease info) \<Longrightarrow>
    dhcp_step A en d (goto n (StartNeigh info) (put_lease i info d))"
| neigh: "task d n = Some (i, StartNeigh info) \<Longrightarrow>
    dhcp_step A en d (goto n Waiting (restart_refresher n info d))"
| attach_failed: "task d n = Some (i, AttachFailed) \<Longrightarrow> dhcp_step A en d (goto n Waiting (drop_lease i d))"
| dhcp_err: "task d n = Some (i, Waiting) \<Longrightarrow> dhcp_step A en d (goto n ErrDetached (detach_engine A i d))"
| err_drop: "task d n = Some (i, ErrDetached) \<Longrightarrow> dhcp_step A en d (goto n Ended (drop_lease i d))"
| stream_end: "task d n = Some (i, Waiting) \<Longrightarrow> dhcp_step A en d (goto n Ended d)"
| abort: "task d n = Some (i, Ended) \<Longrightarrow> dhcp_step A en d (goto n Aborted (stop_refresher n d))"
| detach: "task d n = Some (i, Aborted) \<Longrightarrow> dhcp_step A en d (goto n Detached (detach_engine A i d))"
| drop: "task d n = Some (i, Detached) \<Longrightarrow> dhcp_step A en d (goto n Init (drop_lease i d))"

text \<open>The states the tasks for the configured interfaces can reach.\<close>

inductive daemon_run :: "('b, 'x, 't) aya \<Rightarrow> endian \<Rightarrow> string list \<Rightarrow> ('b, 'x, 't) daemon \<Rightarrow> bool"
  for A en ifaces where
  start: "Dumbarp_new A = Inr eng \<Longrightarrow>
    daemon_run A en ifaces (spawn_all (AppState_new token eng did) ifaces)"
| step: "daemon_run A en ifaces d \<Longrightarrow> dhcp_step A en d d' \<Longrightarrow> daemon_run A en ifaces d'"

section \<open>Lemmas\<close>

lemma d_constant_time_eq_iff [simp]: "constant_time_eq a b \<longleftrightarrow> a = b"
  by (auto simp: constant_time_eq_def or_xor_fold_zero zip_all_eq)

interpretation d_auth: bearer_guard auth_layer
  by unfold_locales (auto simp: auth_layer_def strip_prefix_iff split: option.splits sum.splits)

lemma remove_interface_attached:
  "hm_get (attached (snd (remove_interface A i e))) = (hm_get (attached e))(i := None)"
  by (cases "hm_get (attached e) i")
    (auto simp: remove_interface_def Let_def fun_eq_iff split: prod.splits sum.splits)

lemma add_interface_attached:
  "add_interface A en rd i ip did e = (r, e') \<Longrightarrow>
     (case r of
        Inl _ \<Rightarrow> attached e' = attached e
      | Inr _ \<Rightarrow> \<exists>a. hm_get (attached e') = (hm_get (attached e))(i \<mapsto> a) \<and>
          ak_ip (a_key a) = u32_from_ne_bytes en ip)"
  by (auto simp: add_interface_def Let_def fun_eq_iff split: prod.splits sum.splits if_splits)

lemmas daemon_defs = goto_def set_engine_def set_leases_def detach_engine_def drop_lease_def put_lease_def
  restart_refresher_def stop_refresher_def

section \<open>The invariant of the tasks\<close>

text \<open>The recorded lease of an interface and its attachment are both there, for one address, or both absent.\<close>

definition agree :: "endian \<Rightarrow> ('x, 't) Attached option \<Rightarrow> LeaseInfo option \<Rightarrow> bool" where
  "agree en a l =
     (case (a, l) of
        (None, None) \<Rightarrow> True
      | (Some at, Some info) \<Rightarrow> ak_ip (a_key at) = u32_from_ne_bytes en (li_ip info)
      | _ \<Rightarrow> False)"

definition pc_inv :: "endian \<Rightarrow> pc \<Rightarrow> ('x, 't) Attached option \<Rightarrow> LeaseInfo option \<Rightarrow> bool" where
  "pc_inv en p a l =
     (case p of
        Init \<Rightarrow> a = None \<and> l = None
      | PutLease info \<Rightarrow> agree en a (Some info)
      | StartNeigh info \<Rightarrow> agree en a l \<and> l = Some info
      | AttachFailed \<Rightarrow> a = None
      | ErrDetached \<Rightarrow> a = None
      | Detached \<Rightarrow> a = None
      | _ \<Rightarrow> agree en a l)"

text \<open>Each task stays on its interface; what a task relies on holds if no other is on the same interface.\<close>

definition daemon_inv ::
  "('b, 'x, 't) aya \<Rightarrow> endian \<Rightarrow> string list \<Rightarrow> ('b, 'x, 't) daemon \<Rightarrow> bool" where
  "daemon_inv A en ifaces d \<longleftrightarrow>
     engine_run A en (engine (app d)) \<and> bt_ok (leases (app d)) \<and>
     (\<forall>n i p. task d n = Some (i, p) \<longrightarrow> n < length ifaces \<and> i = ifaces ! n) \<and>
     (distinct ifaces \<longrightarrow> (\<forall>n i p. task d n = Some (i, p) \<longrightarrow>
        pc_inv en p (hm_get (attached (engine (app d))) i) (map_of (leases (app d)) i)))"

lemma agree_None [simp]: "agree en None l \<longleftrightarrow> l = None"
  by (simp add: agree_def split: option.split)

lemma daemon_invD:
  "daemon_inv A en ifaces d \<Longrightarrow> engine_run A en (engine (app d))"
  "daemon_inv A en ifaces d \<Longrightarrow> bt_ok (leases (app d))"
  by (simp_all add: daemon_inv_def)

lemma daemon_inv_start:
  "Dumbarp_new A = Inr eng \<Longrightarrow> daemon_inv A en ifaces (spawn_all (AppState_new token eng did) ifaces)"
proof -
  assume n: "Dumbarp_new A = Inr eng"
  with new_engine_attached [OF n] show ?thesis
    by (simp add: daemon_inv_def spawn_all_def AppState_new_def bt_ok_def pc_inv_def engine_run.created
        split: if_splits)
qed

text \<open>A step of the \<open>n\<close>th task, on interface \<open>i\<close>, leaves what concerns the other interfaces alone.\<close>

lemma daemon_inv_task:
  assumes inv: "daemon_inv A en ifaces d" and t: "task d n = Some (i, p)"
    and t': "task d' = (task d)(n := Some (i, q))" and run: "engine_run A en (engine (app d'))" "bt_ok (leases (app d'))"
    and other: "\<forall>j. j \<noteq> i \<longrightarrow> hm_get (attached (engine (app d'))) j = hm_get (attached (engine (app d))) j \<and>
      map_of (leases (app d')) j = map_of (leases (app d)) j"
    and own: "pc_inv en p (hm_get (attached (engine (app d))) i) (map_of (leases (app d)) i) \<Longrightarrow>
      pc_inv en q (hm_get (attached (engine (app d'))) i) (map_of (leases (app d')) i)"
  shows "daemon_inv A en ifaces d'"
proof -
  have names: "m < length ifaces \<and> j = ifaces ! m" if "task d m = Some (j, p')" for m j p'
    using inv that by (simp add: daemon_inv_def)
  have "m < length ifaces \<and> j = ifaces ! m" if "task d' m = Some (j, p')" for m j p'
    using that names [OF t] names [of m j p'] by (auto simp: t' split: if_splits)
  moreover have "pc_inv en p' (hm_get (attached (engine (app d'))) j) (map_of (leases (app d')) j)"
    if "distinct ifaces" "task d' m = Some (j, p')" for m j p'
  proof (cases "m = n")
    case True
    then show ?thesis using inv t that own by (auto simp: t' daemon_inv_def)
  next
    case False
    then have m: "task d m = Some (j, p')" using that(2) by (simp add: t')
    with names [OF t] names [OF m] that(1) False have "j \<noteq> i" by (simp add: nth_eq_iff_index_eq)
    with other inv m that(1) show ?thesis by (simp add: daemon_inv_def)
  qed
  ultimately show ?thesis using run by (simp add: daemon_inv_def)
qed

lemma on_lease_inv:
  assumes inv: "daemon_inv A en ifaces d" and t: "task d n = Some (i, Waiting)"
    and fresh: "fresh_ifindex rd i (snd (remove_interface A i (engine (app d))))"
  shows "daemon_inv A en ifaces (on_lease A en rd n i l d)"
proof (cases "first_gateway l")
  case None
  with inv show ?thesis by (simp add: on_lease_def)
next
  case (Some g)
  let ?e1 = "snd (remove_interface A i (engine (app d)))"
  obtain r e2 where add: "add_interface A en rd i (yiaddr l) (st_dumbarpd_id (app d)) ?e1 = (r, e2)"
    by (cases "add_interface A en rd i (yiaddr l) (st_dumbarpd_id (app d)) ?e1")
  have "engine_run A en (snd (add_interface A en rd i (yiaddr l) (st_dumbarpd_id (app d)) ?e1))"
    using inv fresh by (intro engine_run.add engine_run.remove daemon_invD(1))
  then have run: "engine_run A en e2" by (simp add: add)
  note at = add_interface_attached [OF add] remove_interface_attached [of A i "engine (app d)"]
  show ?thesis
  proof (cases r)
    case (Inl e)
    with Some add have d': "on_lease A en rd n i l d = goto n AttachFailed (set_engine e2 d)"
      by (simp add: on_lease_def)
    show ?thesis
      by (rule daemon_inv_task [OF inv t, of _ AttachFailed])
        (use daemon_invD [OF inv] run at Inl in \<open>auto simp: d' t daemon_defs pc_inv_def\<close>)
  next
    case (Inr u)
    let ?p = "PutLease \<lparr>li_ip = yiaddr l, li_gateway = g\<rparr>"
    from Inr Some add have d': "on_lease A en rd n i l d = goto n ?p (set_engine e2 d)" by (simp add: on_lease_def)
    show ?thesis
      by (rule daemon_inv_task [OF inv t, of _ ?p])
        (use daemon_invD [OF inv] run at Inr in \<open>auto simp: d' t daemon_defs pc_inv_def agree_def\<close>)
  qed
qed

lemma daemon_inv_step:
  assumes "dhcp_step A en d d'" "daemon_inv A en ifaces d"
  shows "daemon_inv A en ifaces d'"
  using assms
proof (induction rule: dhcp_step.induct)
  case (lease d n i rd l)
  then show ?case by (intro on_lease_inv)
next
  case (init_err d n i)
  then show ?case by simp
qed ((rule daemon_inv_task, assumption, assumption,
      auto simp: daemon_defs pc_inv_def remove_interface_attached engine_run.remove daemon_invD) [1])+

lemma daemon_run_inv: "daemon_run A en ifaces d \<Longrightarrow> daemon_inv A en ifaces d"
  by (induction rule: daemon_run.induct) (simp add: daemon_inv_start, rule daemon_inv_step)

lemma leases_page:
  "http_router st GetLeases header =
     (if header = Some (Inr (''Bearer '' @ st_auth_token st)) then Answer (LeasesPage (leases_handler st)) else Unauthorized)"
  by (simp add: http_router_def d_auth.guard_eq)

lemma leases_handler_parse:
  "LeasesResponse_parse (leases_handler st) label =
     Inr \<lparr>l_ips = map (\<lambda>(iface, l). li_ip l) (leases st), l_dumbarpd_id = st_dumbarpd_id st\<rparr>"
  by (simp add: leases_handler_def current_ips_def LeasesResponse_parse_def del: map_map)

section \<open>Properties\<close>

text \<open>
  C31. What the daemon publishes, it answers for. Let no interface be configured twice. In every state
  the concurrent tasks can reach, whenever the task of an interface waits for its next event: a recorded
  lease of the interface has its address in \<open>ARP_TABLE\<close> under the interface's index, so the XDP program
  answers for it; and without a recorded lease nothing is attached to the interface. The condition on the
  configuration is not checked by the daemon, and it is needed (\<open>repeated_iface_not_answered\<close>).
\<close>

theorem published_lease_is_answered:
  assumes "daemon_run A en ifaces d" "distinct ifaces" "bpf_laws A vw" "task d n = Some (i, Waiting)"
  shows "case map_of (leases (app d)) i of
      None \<Rightarrow> hm_get (attached (engine (app d))) i = None
    | Some info \<Rightarrow> \<exists>a m. hm_get (attached (engine (app d))) i = Some a \<and>
        vArp (vw (bpf (engine (app d)))) \<lparr>ak_ifindex = a_ifindex a, ak_ip = u32_from_ne_bytes en (li_ip info)\<rparr> = Some m"
proof -
  note inv = daemon_run_inv [OF assms(1)]
  note einv = engine_run_inv [OF daemon_invD(1) [OF inv] assms(3)]
  have "pc_inv en Waiting (hm_get (attached (engine (app d))) i) (map_of (leases (app d)) i)"
    using inv assms(2,4) unfolding daemon_inv_def by blast
  then have ag: "agree en (hm_get (attached (engine (app d))) i) (map_of (leases (app d)) i)"
    by (simp add: pc_inv_def)
  have "\<exists>m. vArp (vw (bpf (engine (app d)))) \<lparr>ak_ifindex = a_ifindex a, ak_ip = ak_ip (a_key a)\<rparr> = Some m"
    if at: "hm_get (attached (engine (app d))) i = Some a" for a
  proof -
    have "a_key a = \<lparr>ak_ifindex = a_ifindex a, ak_ip = ak_ip (a_key a)\<rparr>"
      using engine_invD(1) [OF einv at] by (cases "a_key a") simp
    then show ?thesis using engine_invD(3) [OF einv, of "a_key a"] at by auto
  qed
  then show ?thesis using ag by (auto simp: agree_def split: option.splits)
qed

text \<open>A daemon that has attached its interface and recorded the lease.\<close>

definition sim_start :: "string list \<Rightarrow> (nat \<times> (nat, nat) bpf_view, nat, nat) daemon" where
  "sim_start ifaces = spawn_all (AppState_new ''tok'' \<lparr>bpf = (0, empty_view), attached = []\<rparr> (Some 5)) ifaces"

lemma sim_daemon_steps:
  assumes "ifaces \<noteq> []" "hd ifaces = ''eth0''"
  shows "\<exists>d. (dhcp_step (sim_aya True) LittleEndian)\<^sup>*\<^sup>* (sim_start ifaces) d \<and> task d 0 = Some (''eth0'', Waiting) \<and>
     (\<forall>n > 0. task d n = task (sim_start ifaces) n) \<and>
     leases (app d) = [(''eth0'', \<lparr>li_ip = (10, 0, 0, 1), li_gateway = (10, 0, 0, 254)\<rparr>)]"
proof -
  let ?A = "sim_aya True" and ?en = LittleEndian and ?i = "''eth0''"
  let ?info = "\<lparr>li_ip = (10, 0, 0, 1), li_gateway = (10, 0, 0, 254)\<rparr>"
  let ?l = "\<lparr>yiaddr = (10, 0, 0, 1), gateways = Some [(10, 0, 0, 254)]\<rparr>"
  let ?eng = "\<lparr>bpf = (0, empty_view), attached = []\<rparr>"
  let ?d0 = "sim_start ifaces"
  let ?d1 = "goto 0 Waiting ?d0"
  let ?d2 = "on_lease ?A ?en sim_sysfs 0 ?i ?l ?d1"
  let ?d3 = "goto 0 (StartNeigh ?info) (put_lease ?i ?info ?d2)"
  let ?d4 = "goto 0 Waiting (restart_refresher 0 ?info ?d3)"
  have t0: "task ?d0 0 = Some (?i, Init)"
    using assms by (simp add: sim_start_def spawn_all_def hd_conv_nth)
  have rm: "remove_interface ?A ?i ?eng = (Inl (NotAttached ?i), ?eng)" by (simp add: remove_interface_def)
  have e1: "engine (app ?d1) = ?eng" "st_dumbarpd_id (app ?d1) = Some 5" "leases (app ?d1) = []"
    by (simp_all add: sim_start_def spawn_all_def AppState_new_def goto_def)
  have t1: "task ?d1 0 = Some (?i, Waiting)" by (simp add: goto_def t0)
  obtain e2 where "add_interface ?A ?en sim_sysfs ?i (10, 0, 0, 1) (Some 5) ?eng = (Inr (), e2)"
    using sim_add_works by blast
  then have d2: "?d2 = goto 0 (PutLease ?info) (set_engine e2 ?d1)"
    by (simp add: on_lease_def first_gateway_def e1 rm Let_def)
  have t2: "task ?d2 0 = Some (?i, PutLease ?info)" "leases (app ?d2) = []"
    "\<forall>n > 0. task ?d2 n = task ?d0 n"
    unfolding d2 using e1(3) t1 by (simp_all add: set_engine_def goto_def)
  have fresh: "fresh_ifindex sim_sysfs ?i (snd (remove_interface ?A ?i (engine (app ?d1))))"
    unfolding e1 rm by (simp add: sim_fresh)
  have t3: "task ?d3 0 = Some (?i, StartNeigh ?info)" using t2(1) by (simp add: daemon_defs)
  have t4: "task ?d4 0 = Some (?i, Waiting)" "\<forall>n > 0. task ?d4 n = task ?d0 n"
    "leases (app ?d4) = [(?i, ?info)]"
    using t2 by (simp_all add: daemon_defs)
  have "dhcp_step ?A ?en ?d0 ?d1" by (rule dhcp_step.init_ok [OF t0])
  moreover have "dhcp_step ?A ?en ?d1 ?d2" by (rule dhcp_step.lease [OF t1 fresh])
  moreover have "dhcp_step ?A ?en ?d2 ?d3" by (rule dhcp_step.put [OF t2(1)])
  moreover have "dhcp_step ?A ?en ?d3 ?d4" by (rule dhcp_step.neigh [OF t3])
  ultimately have "(dhcp_step ?A ?en)\<^sup>*\<^sup>* ?d0 ?d4" by (meson converse_rtranclp_into_rtranclp rtranclp.rtrancl_refl)
  with t4 show ?thesis by blast
qed

lemma daemon_run_steps:
  "(dhcp_step A en)\<^sup>*\<^sup>* d d' \<Longrightarrow> daemon_run A en ifaces d \<Longrightarrow> daemon_run A en ifaces d'"
  by (induction rule: rtranclp_induct) (auto intro: daemon_run.step)

lemma sim_daemon_run:
  assumes "ifaces \<noteq> []" "hd ifaces = ''eth0''"
  shows "\<exists>d. daemon_run (sim_aya True) LittleEndian ifaces d \<and> task d 0 = Some (''eth0'', Waiting) \<and>
     (\<forall>n > 0. task d n = task (sim_start ifaces) n) \<and>
     map_of (leases (app d)) ''eth0'' = Some \<lparr>li_ip = (10, 0, 0, 1), li_gateway = (10, 0, 0, 254)\<rparr>"
proof -
  have "daemon_run (sim_aya True) LittleEndian ifaces (sim_start ifaces)"
    unfolding sim_start_def by (rule daemon_run.start) (rule sim_new)
  with sim_daemon_steps [OF assms] show ?thesis by (metis daemon_run_steps map_of_Cons_code(2))
qed

theorem published_lease_is_answered_witness:
  "\<exists>d a m. daemon_run (sim_aya True) LittleEndian [''eth0'', ''eth1''] d \<and>
     hm_get (attached (engine (app d))) ''eth0'' = Some a \<and>
     vArp (snd (bpf (engine (app d)))) \<lparr>ak_ifindex = a_ifindex a, ak_ip = u32_from_ne_bytes LittleEndian (10, 0, 0, 1)\<rparr> = Some m"
proof -
  obtain d where d: "daemon_run (sim_aya True) LittleEndian [''eth0'', ''eth1''] d" "task d 0 = Some (''eth0'', Waiting)"
    "map_of (leases (app d)) ''eth0'' = Some \<lparr>li_ip = (10, 0, 0, 1), li_gateway = (10, 0, 0, 254)\<rparr>"
    using sim_daemon_run [of "[''eth0'', ''eth1'']"] by auto
  have "distinct [''eth0'', ''eth1'']" by simp
  from published_lease_is_answered [OF d(1) this sim_aya_laws d(2)] d show ?thesis by (simp, blast)
qed

text \<open>
  An interface that is listed twice has two tasks, and one of them can undo what the other has done: the
  first waits with its lease recorded and published, while the second, after an error of its own client,
  has detached the program from the interface.
\<close>

lemma repeated_iface_not_answered:
  "\<exists>d. daemon_run (sim_aya True) LittleEndian [''eth0'', ''eth0''] d \<and> task d 0 = Some (''eth0'', Waiting) \<and>
     map_of (leases (app d)) ''eth0'' = Some \<lparr>li_ip = (10, 0, 0, 1), li_gateway = (10, 0, 0, 254)\<rparr> \<and>
     hm_get (attached (engine (app d))) ''eth0'' = None"
proof -
  let ?is = "[''eth0'', ''eth0'']"
  obtain d where d: "daemon_run (sim_aya True) LittleEndian ?is d" "task d 0 = Some (''eth0'', Waiting)"
    "\<forall>n > 0. task d n = task (sim_start ?is) n"
    "map_of (leases (app d)) ''eth0'' = Some \<lparr>li_ip = (10, 0, 0, 1), li_gateway = (10, 0, 0, 254)\<rparr>"
    using sim_daemon_run [of ?is] by auto
  have 1: "task d 1 = Some (''eth0'', Init)" using d(3) by (simp add: sim_start_def spawn_all_def)
  let ?d1 = "goto 1 Waiting d"
  have 2: "task ?d1 1 = Some (''eth0'', Waiting)" using 1 by (simp add: goto_def)
  let ?d2 = "goto 1 ErrDetached (detach_engine (sim_aya True) ''eth0'' ?d1)"
  have "daemon_run (sim_aya True) LittleEndian ?is ?d2"
    by (rule daemon_run.step [OF daemon_run.step [OF d(1) dhcp_step.init_ok [OF 1]] dhcp_step.dhcp_err [OF 2]])
  moreover have "task ?d2 0 = Some (''eth0'', Waiting)" "leases (app ?d2) = leases (app d)"
    "hm_get (attached (engine (app ?d2))) ''eth0'' = None"
    using d(2) by (simp_all add: daemon_defs remove_interface_attached)
  ultimately show ?thesis using d(4) by auto
qed

text \<open>
  The leases of the daemon arrive intact. The \<open>/leases\<close> page is given exactly to requests with the
  configured bearer token; its response passes the client's validation, and validation gives back
  the recorded addresses in the order of the interface names, and the daemon's id.
\<close>

theorem daemon_leases_parse_back:
  "http_router st GetLeases header =
     (if header = Some (Inr (''Bearer '' @ st_auth_token st)) then Answer (LeasesPage (leases_handler st)) else Unauthorized) \<and>
   LeasesResponse_parse (leases_handler st) label =
     Inr \<lparr>l_ips = map (\<lambda>(iface, l). li_ip l) (leases st), l_dumbarpd_id = st_dumbarpd_id st\<rparr>"
  by (simp add: leases_page leases_handler_parse)

text \<open>
  A configuration the daemon loads is usable: the token is not empty, there is an interface, the
  refresh period is positive, and the id it tags with, if any, is a DSCP value the data plane uses.
\<close>

theorem loaded_config_usable:
  assumes "d_load read_to_string from_toml path = Inr cfg"
  shows "dc_auth_token cfg \<noteq> [] \<and> dc_ifaces cfg \<noteq> [] \<and> 0 < dc_refresh_interval_secs cfg \<and>
    pred_option (\<lambda>i. 1 \<le> i \<and> i \<le> DSCP_ID_MAX) (dscp_id cfg)"
proof -
  have "1 \<le> i" if "i \<noteq> 0" for i :: u8 using that by (simp add: word_le_nat_alt unat_gt_0 Suc_le_eq)
  with assms show ?thesis
    by (auto simp: d_load_def d_check_def dscp_id_def word_gt_0 split: option.splits if_splits)
qed

theorem loaded_config_usable_witness:
  "0 < dc_refresh_interval_secs \<lparr>dc_listen = (), dc_auth_token = ''t'', dc_refresh_interval_secs = d_default_refresh,
     dc_ifaces = [''eth0''], dc_manage_routing = d_default_manage_routing,
     dc_neigh_refresh_interval_secs = d_default_neigh_refresh, dc_dumbarpd_id = 7\<rparr>"
  using loaded_config_usable [of "\<lambda>p. Some p" "\<lambda>raw. Some \<lparr>dc_listen = (), dc_auth_token = ''t'',
     dc_refresh_interval_secs = d_default_refresh, dc_ifaces = [''eth0''], dc_manage_routing = d_default_manage_routing,
     dc_neigh_refresh_interval_secs = d_default_neigh_refresh, dc_dumbarpd_id = 7\<rparr>" "''cfg''"]
  by (simp add: d_load_def d_check_def d_default_refresh_def DSCP_ID_MAX_def)

end
