(* ===== verification/Daemon_Main.thy ===== *)
theory Daemon_Main
  imports Daemon Lifecycle
begin

text \<open>
  The life of \<open>dumbarpd\<close>, \<open>src/dumbarp-daemon/src/main.rs\<close>: the start with its errors, and the tasks that then
  run beside each other: the DHCP tasks (\<open>dhcp_step\<close>) and the routing refresh (\<open>spawn\<close> of \<open>refresh.rs\<close>). A
  refresh reads the leases under their lock and works on the kernel after releasing it, so it is two
  steps, with steps of the DHCP tasks in between.
\<close>

section \<open>The start\<close>

datatype d_start_error =
    DsConfig dconfig_error
  | DsEngine engine_error
  | DsNetlink connect_error
  | DsBind

text \<open>The state of the host: the tasks and what they share, a refresh under way, the kernel's routing state.\<close>

record ('b, 'x, 't, 's) host =
  h_daemon :: "('b, 'x, 't) daemon"
  h_refresh :: "RouteSpec list option"
  h_kernel :: 's

text \<open>
  \<open>main\<close> up to the point where it serves: it spawns the tasks before it binds its listener, and ends
  with an error when one of the steps fails.
\<close>

definition dumbarpd_start ::
  "dconfig_error + 'sock DConfig \<Rightarrow> ('b, 'x, 't) aya \<Rightarrow> unit + 's netlink \<Rightarrow> ('sock \<Rightarrow> unit + unit) \<Rightarrow> 's \<Rightarrow>
     d_start_error + ('b, 'x, 't, 's) host \<times> 's netlink option" where
  "dumbarpd_start config A new_connection bind s =
     (case config of
        Inl e \<Rightarrow> Inl (DsConfig e)
      | Inr cfg \<Rightarrow>
          (case Dumbarp_new A of
             Inl e \<Rightarrow> Inl (DsEngine e)
           | Inr eng \<Rightarrow>
               let state = AppState_new (dc_auth_token cfg) eng (dscp_id cfg) in
               (case (if dc_manage_routing cfg then map_sum id Some (RouteManager_new new_connection) else Inr None) of
                  Inl e \<Rightarrow> Inl (DsNetlink e)
                | Inr router \<Rightarrow>
                    let d = spawn_all state (dc_ifaces cfg) in
                    (case bind (dc_listen cfg) of
                       Inl _ \<Rightarrow> Inl DsBind
                     | Inr _ \<Rightarrow> Inr (\<lparr>h_daemon = d, h_refresh = None, h_kernel = s\<rparr>, router)))))"

section \<open>The tasks\<close>

definition refresh_read :: "('b, 'x, 't, 's) host \<Rightarrow> ('b, 'x, 't, 's) host" where
  "refresh_read h = h\<lparr>h_refresh := Some (current_routes (app (h_daemon h)))\<rparr>"

definition refresh_apply ::
  "'s netlink \<Rightarrow> (u32 list \<Rightarrow> u32 list) \<Rightarrow> RouteSpec list \<Rightarrow> ('b, 'x, 't, 's) host \<Rightarrow> ('b, 'x, 't, 's) host" where
  "refresh_apply K iter desired h =
     h\<lparr>h_refresh := None, h_kernel := snd (snd (reconcile K iter desired (h_kernel h)))\<rparr>"

text \<open>
  A step of the host: of a DHCP task; a tick without a route manager, which does nothing; or one of
  the two halves of a refresh. Requests to the HTTP service change nothing.
\<close>

inductive host_step ::
  "('b, 'x, 't) aya \<Rightarrow> endian \<Rightarrow> 's netlink option \<Rightarrow> ('b, 'x, 't, 's) host \<Rightarrow> ('b, 'x, 't, 's) host \<Rightarrow> bool"
  for A en router where
  dhcp: "dhcp_step A en (h_daemon h) d' \<Longrightarrow> host_step A en router h (h\<lparr>h_daemon := d'\<rparr>)"
| idle_tick: "router = None \<Longrightarrow> host_step A en router h h"
| tick: "router = Some K \<Longrightarrow> h_refresh h = None \<Longrightarrow> host_step A en router h (refresh_read h)"
| apply_tick: "router = Some K \<Longrightarrow> h_refresh h = Some desired \<Longrightarrow> iter_ok iter \<Longrightarrow>
    host_step A en router h (refresh_apply K iter desired h)"

inductive host_run ::
  "('b, 'x, 't) aya \<Rightarrow> endian \<Rightarrow> 's netlink option \<Rightarrow> ('b, 'x, 't, 's) host \<Rightarrow> ('b, 'x, 't, 's) host \<Rightarrow> bool"
  for A en router h0 where
  start: "host_run A en router h0 h0"
| step: "host_run A en router h0 h \<Longrightarrow> host_step A en router h h' \<Longrightarrow> host_run A en router h0 h'"

section \<open>Lemmas\<close>

lemma dumbarpd_start_Inr:
  "dumbarpd_start config A new_connection bind s = Inr (h, router) \<longleftrightarrow>
     (\<exists>cfg eng. config = Inr cfg \<and> Dumbarp_new A = Inr eng \<and> \<not> isl (bind (dc_listen cfg)) \<and>
        (if dc_manage_routing cfg then \<exists>K. new_connection = Inr K \<and> router = Some K else router = None) \<and>
        h = \<lparr>h_daemon = spawn_all (AppState_new (dc_auth_token cfg) eng (dscp_id cfg)) (dc_ifaces cfg),
             h_refresh = None, h_kernel = s\<rparr>)"
proof (cases config)
  case (Inr cfg)
  show ?thesis
    by (cases "Dumbarp_new A"; cases new_connection; cases "dc_manage_routing cfg"; cases "bind (dc_listen cfg)")
      (auto simp: Inr dumbarpd_start_def RouteManager_new_def)
qed (simp add: dumbarpd_start_def)

lemma current_routes_unmarked: "\<forall>spec \<in> set (current_routes st). sp_fwmark spec \<noteq> Some 0"
  by (auto simp: current_routes_def)

text \<open>What holds in every state of a run: the tasks' invariant, and what is kept of the kernel.\<close>

definition host_inv ::
  "('b, 'x, 't) aya \<Rightarrow> endian \<Rightarrow> 's netlink option \<Rightarrow> 's \<Rightarrow> ('b, 'x, 't, 's) host \<Rightarrow> bool" where
  "host_inv A en router s0 h \<longleftrightarrow>
     (\<exists>ifaces. daemon_run A en ifaces (h_daemon h)) \<and> kernel_kept router s0 (h_kernel h) \<and>
     (\<forall>desired. h_refresh h = Some desired \<longrightarrow> (\<forall>spec \<in> set desired. sp_fwmark spec \<noteq> Some 0))"

lemma host_inv_step:
  assumes "host_step A en router h h'" "host_inv A en router s0 h" "\<forall>K. router = Some K \<longrightarrow> netlink_laws K"
  shows "host_inv A en router s0 h'"
  using assms
proof (induction rule: host_step.induct)
  case (dhcp h d')
  then show ?case by (auto simp: host_inv_def intro: daemon_run.step)
next
  case (tick K h)
  then show ?case using current_routes_unmarked by (auto simp: host_inv_def refresh_read_def)
next
  case (apply_tick K h desired iter)
  then show ?case using kernel_kept_pass [of K iter desired] by (simp add: host_inv_def refresh_apply_def)
qed

lemma host_run_inv:
  assumes "host_run A en router h0 h" "host_inv A en router s0 h0" "\<forall>K. router = Some K \<longrightarrow> netlink_laws K"
  shows "host_inv A en router s0 h"
  using assms(1,2) by (induction rule: host_run.induct) (auto intro: host_inv_step [OF _ _ assms(3)])

lemma host_inv_start:
  assumes "dumbarpd_start config A new_connection bind s = Inr (h, router)" "\<forall>K. router = Some K \<longrightarrow> routes_wf K s"
  shows "host_inv A en router s h"
  using assms kernel_kept_refl [of router s]
  by (auto simp: dumbarpd_start_Inr host_inv_def intro!: exI daemon_run.start)

lemma current_routes_iff:
  "bt_ok (leases st) \<Longrightarrow> spec \<in> set (current_routes st) \<longleftrightarrow>
     (\<exists>i info. map_of (leases st) i = Some info \<and>
        spec = \<lparr>sp_src = li_ip info, sp_gateway = li_gateway info, sp_iface = i, sp_fwmark = None\<rparr>)"
proof -
  assume "bt_ok (leases st)"
  then have "(i, info) \<in> set (leases st) \<longleftrightarrow> map_of (leases st) i = Some info" for i info
    by (simp add: bt_ok_def strict_sorted_iff)
  then show ?thesis unfolding current_routes_def by (simp add: image_iff case_prod_beta) (metis fst_conv snd_conv surj_pair)
qed

lemma host_run_dhcp:
  assumes "(dhcp_step A en)\<^sup>*\<^sup>* (h_daemon h) d" "host_run A en router h0 h"
  shows "host_run A en router h0 (h\<lparr>h_daemon := d\<rparr>)"
  using assms(1)
proof (induction rule: rtranclp_induct)
  case base
  with assms(2) show ?case by simp
next
  case (step d d')
  then show ?case using host_run.step [OF step.IH host_step.dhcp [of A en "h\<lparr>h_daemon := d\<rparr>" d']] by simp
qed

text \<open>The ids in \<open>DSCP_ID\<close>: adding an interface brings at most the given one, removing none.\<close>

lemma add_interface_tags:
  assumes "bpf_laws A vw" "engine_inv vw st" "fresh_ifindex rd i st"
  shows "ran (vDscp (vw (bpf (snd (add_interface A en rd i ip d st))))) \<subseteq> ran (vDscp (vw (bpf st))) \<union> set_option d"
proof (cases "add_interface A en rd i ip d st")
  case (Pair r st')
  show ?thesis
  proof (cases r)
    case (Inl e)
    with Pair have f: "add_interface A en rd i ip d st = (Inl e, st')" by simp
    show ?thesis using add_interface_failure [OF assms f] by (simp add: f)
  next
    case (Inr u)
    with Pair have f: "add_interface A en rd i ip d st = (Inr u, st')" by simp
    show ?thesis
      by (rule add_interface_success [OF assms f]) (auto simp: f ran_def split: option.splits if_splits)
  qed
qed

lemma remove_interface_tags:
  assumes "bpf_laws A vw" "engine_inv vw st"
  shows "ran (vDscp (vw (bpf (snd (remove_interface A i st))))) \<subseteq> ran (vDscp (vw (bpf st)))"
proof (cases "hm_get (attached st) i")
  case (Some a)
  from remove_interface_view [OF assms Some] obtain b where b: "bpf (snd (remove_interface A i st)) = b"
    "\<forall>y. vDscp (vw b) y = (if tc_link_id a \<noteq> None \<and> y = a_ifindex a then None else vDscp (vw (bpf st)) y)" by auto
  have "vDscp (vw (bpf st)) y = Some v" if "vDscp (vw b) y = Some v" for y v
    using that b(2) [rule_format, of y] by (simp split: if_splits)
  with b(1) show ?thesis by (auto simp: ran_def)
qed (simp add: remove_interface_def)

definition tags_ok :: "('b \<Rightarrow> ('x, 't) bpf_view) \<Rightarrow> u8 option \<Rightarrow> ('b, 'x, 't) daemon \<Rightarrow> bool" where
  "tags_ok vw did d \<longleftrightarrow>
     st_dumbarpd_id (app d) = did \<and> ran (vDscp (vw (bpf (engine (app d))))) \<subseteq> set_option did"

lemma tags_ok_on_lease:
  assumes "bpf_laws A vw" "engine_run A en (engine (app d))" "tags_ok vw did d"
    and "fresh_ifindex rd i (snd (remove_interface A i (engine (app d))))"
  shows "tags_ok vw did (on_lease A en rd n i l d)"
proof -
  let ?e = "snd (remove_interface A i (engine (app d)))"
  note run = engine_run_inv [OF assms(2,1)] engine_run_inv [OF engine_run.remove [OF assms(2)] assms(1), of i]
  have "ran (vDscp (vw (bpf (snd (add_interface A en rd i ip did ?e))))) \<subseteq> set_option did" for ip
    using add_interface_tags [OF assms(1) run(2) assms(4), of en ip did] remove_interface_tags [OF assms(1) run(1), of i]
      assms(3) by (auto simp: tags_ok_def)
  from this [of "yiaddr l"] assms(3) show ?thesis
    by (auto simp: on_lease_def tags_ok_def Let_def goto_def set_engine_def split: option.split prod.splits sum.split)
qed

lemma tags_ok_step:
  assumes "dhcp_step A en d d'" "daemon_run A en ifaces d" "tags_ok vw did d" "bpf_laws A vw"
  shows "tags_ok vw did d'"
proof -
  have run: "engine_run A en (engine (app d))" by (rule daemon_invD(1) [OF daemon_run_inv [OF assms(2)]])
  note rm = remove_interface_tags [OF assms(4) engine_run_inv [OF run assms(4)]]
  from assms(1,3) run rm show ?thesis
  proof (induction rule: dhcp_step.induct)
    case (lease d n i rd l)
    then show ?case by (intro tags_ok_on_lease [OF assms(4)])
  qed (auto simp: tags_ok_def daemon_defs)
qed

lemma host_run_tags:
  assumes "host_run A en router h0 h" "daemon_run A en ifaces (h_daemon h0)" "tags_ok vw did (h_daemon h0)" "bpf_laws A vw"
  shows "daemon_run A en ifaces (h_daemon h) \<and> tags_ok vw did (h_daemon h)"
  using assms(1)
proof (induction rule: host_run.induct)
  case (step h h')
  from step.hyps(2) step.IH show ?case
    by (induction rule: host_step.induct)
      (auto simp: refresh_read_def refresh_apply_def intro: daemon_run.step tags_ok_step [OF _ _ _ assms(4)])
qed (use assms(2,3) in simp)

lemma tags_ok_start:
  assumes "bpf_laws A vw" "Dumbarp_new A = Inr eng"
  shows "tags_ok vw did (spawn_all (AppState_new token eng did) ifaces)"
  by (simp add: tags_ok_def spawn_all_def AppState_new_def ran_def new_engine_maps(3) [OF assms(2,1)])

section \<open>A concrete host\<close>

definition sample_dconfig :: "unit DConfig" where
  "sample_dconfig = \<lparr>dc_listen = (), dc_auth_token = ''tok'', dc_refresh_interval_secs = d_default_refresh,
     dc_ifaces = [''eth0''], dc_manage_routing = d_default_manage_routing,
     dc_neigh_refresh_interval_secs = d_default_neigh_refresh, dc_dumbarpd_id = 5\<rparr>"

definition sample_host :: "list_kernel \<Rightarrow> (sim_state, nat, nat, list_kernel) host" where
  "sample_host s = \<lparr>h_daemon = sim_start [''eth0''], h_refresh = None, h_kernel = s\<rparr>"

lemma sample_host_start:
  "dumbarpd_start (Inr sample_dconfig) (sim_aya True) (Inr list_netlink) (\<lambda>_. Inr ()) s = Inr (sample_host s, Some list_netlink)"
  by (simp add: dumbarpd_start_def sim_new sample_dconfig_def d_default_manage_routing_def RouteManager_new_def
      sample_host_def sim_start_def dscp_id_def)

text \<open>A host whose lease is recorded and whose refresh has read it.\<close>

lemma sample_host_reads:
  "\<exists>h. host_run (sim_aya True) LittleEndian (Some list_netlink) (sample_host s) h \<and>
     leases (app (h_daemon h)) = [(''eth0'', \<lparr>li_ip = (10, 0, 0, 1), li_gateway = (10, 0, 0, 254)\<rparr>)] \<and>
     h_refresh h = Some (current_routes (app (h_daemon h))) \<and> h_kernel h = s"
proof -
  obtain d where d: "(dhcp_step (sim_aya True) LittleEndian)\<^sup>*\<^sup>* (h_daemon (sample_host s)) d"
    "leases (app d) = [(''eth0'', \<lparr>li_ip = (10, 0, 0, 1), li_gateway = (10, 0, 0, 254)\<rparr>)]"
    using sim_daemon_steps [of "[''eth0'']"] unfolding sample_host_def by (metis host.select_convs(1) list.sel(1) list.distinct(1))
  note run = host_run_dhcp [OF d(1) host_run.start, of "Some list_netlink"]
  have "host_run (sim_aya True) LittleEndian (Some list_netlink) (sample_host s) (refresh_read (sample_host s\<lparr>h_daemon := d\<rparr>))"
    by (rule host_run.step [OF run host_step.tick [OF refl]]) (simp add: sample_host_def)
  then show ?thesis
    using d(2) by (intro exI [of _ "refresh_read (sample_host s\<lparr>h_daemon := d\<rparr>)"]) (simp add: refresh_read_def sample_host_def)
qed

section \<open>Properties\<close>

text \<open>
  C34. The daemon touches nothing that is not its own. In every state a run of the daemon can reach,
  with its DHCP tasks and the refresh interleaved in any way and whatever fails: the policy rules that
  are not dumbarp's are those of the start, and without route management the kernel's routing state is
  the one of the start.
\<close>

theorem daemon_keeps_foreign_rules:
  assumes "dumbarpd_start config A new_connection bind s = Inr (h0, router)" "host_run A en router h0 h"
    and "\<forall>K. new_connection = Inr K \<longrightarrow> netlink_laws K \<and> routes_wf K s"
  shows "(\<forall>K. new_connection = Inr K \<longrightarrow> foreign_rules K (h_kernel h) = foreign_rules K s) \<and>
    (router = None \<longrightarrow> h_kernel h = s)"
proof -
  have r: "router = None \<or> (\<exists>K. router = Some K \<and> new_connection = Inr K)"
    using assms(1) by (auto simp: dumbarpd_start_Inr split: if_splits)
  then have laws: "\<forall>K. router = Some K \<longrightarrow> netlink_laws K" "\<forall>K. router = Some K \<longrightarrow> routes_wf K s" using assms(3) by auto
  have "kernel_kept router s (h_kernel h)"
    using host_run_inv [OF assms(2) host_inv_start [OF assms(1) laws(2)] laws(1)] by (simp add: host_inv_def)
  with r show ?thesis by (auto simp: kernel_kept_def)
qed

theorem daemon_keeps_foreign_rules_witness:
  "\<exists>h. host_run (sim_aya True) LittleEndian (Some list_netlink) (sample_host ([foreign_rule], [])) h \<and>
     leases (app (h_daemon h)) \<noteq> [] \<and> foreign_rules list_netlink (h_kernel h) = [foreign_rule]"
proof -
  let ?s = "([foreign_rule], [])"
  obtain h where h: "host_run (sim_aya True) LittleEndian (Some list_netlink) (sample_host ?s) h" "leases (app (h_daemon h)) \<noteq> []"
    using sample_host_reads [of ?s] by (metis list.distinct(1))
  have "\<forall>K. (Inr list_netlink :: unit + list_kernel netlink) = Inr K \<longrightarrow> netlink_laws K \<and> routes_wf K ?s"
    using sample_hyps(1) foreign_rule_kernel by auto
  from daemon_keeps_foreign_rules [OF sample_host_start h(1) this] h foreign_rule_kernel show ?thesis by auto
qed

text \<open>
  C33. The refresh routes what is leased. Let the refresh have read the leases at one moment of a run
  and, after any steps of the DHCP tasks, work on the kernel without a failed request. Then the table of
  every lease read, unless its address shares the table with another lease, holds exactly the rule for the leased
  address and exactly the on-link route to the lease's gateway through the lease's interface.
\<close>

theorem refresh_routes_leases:
  assumes "dumbarpd_start config A new_connection bind s = Inr (h0, Some K)" "netlink_laws K" "routes_wf K s"
    and "host_run A en (Some K) h0 h1" "map_of (leases (app (h_daemon h1))) i = Some info"
    and "host_run A en (Some K) h0 h2" "h_refresh h2 = Some (current_routes (app (h_daemon h1)))"
    and "iter_ok iter" "reconcile K iter (current_routes (app (h_daemon h1))) (h_kernel h2) = (Inr (), log, s')"
    and "\<forall>w \<in> set log. failed_table w \<noteq> Some (table_id_for (li_ip info))"
    and "ifindex K (h_kernel h2) i = Inr idx"
    and "\<forall>j info'. map_of (leases (app (h_daemon h1))) j = Some info' \<longrightarrow>
      table_id_for (li_ip info') = table_id_for (li_ip info) \<longrightarrow> j = i"
  shows "rules_at K s' (table_id_for (li_ip info)) = {#\<lparr>cr_src = li_ip info, cr_fwmark = None, cr_fwmask = None\<rparr>#} \<and>
    routes_at K s' (table_id_for (li_ip info)) = {#\<lparr>ct_gateway = li_gateway info, ct_oif = idx, ct_onlink = True\<rparr>#} \<and>
    host_step A en (Some K) h2 (h2\<lparr>h_refresh := None, h_kernel := s'\<rparr>)"
proof -
  let ?st = "app (h_daemon h1)"
  let ?spec = "\<lparr>sp_src = li_ip info, sp_gateway = li_gateway info, sp_iface = i, sp_fwmark = None\<rparr>"
  have "\<forall>K'. Some K = Some K' \<longrightarrow> routes_wf K' s" "\<forall>K'. Some K = Some K' \<longrightarrow> netlink_laws K'" using assms(2,3) by simp_all
  note inv = host_run_inv [OF _ host_inv_start [OF assms(1) this(1)] this(2)]
  have ok: "bt_ok (leases ?st)"
    using inv [OF assms(4)] by (auto simp: host_inv_def dest: daemon_run_inv daemon_invD(2))
  have wf: "routes_wf K (h_kernel h2)" using inv [OF assms(6)] by (simp add: host_inv_def kernel_kept_def)
  have "wanted K (h_kernel h2) (current_routes ?st) (table_id_for (sp_src ?spec)) =
      Some \<lparr>rs_src = sp_src ?spec, rs_gateway = sp_gateway ?spec, rs_ifindex = idx, rs_fwmark = sp_fwmark ?spec\<rparr>"
  proof (rule wanted_unique)
    show "?spec \<in> set (current_routes ?st)" using assms(5) ok by (auto simp: current_routes_iff)
    show "ifindex K (h_kernel h2) (sp_iface ?spec) = Inr idx" using assms(11) by simp
    fix other
    assume "other \<in> set (current_routes ?st)" "table_id_for (sp_src other) = table_id_for (sp_src ?spec)"
    then obtain j info' where j: "map_of (leases ?st) j = Some info'" "table_id_for (li_ip info') = table_id_for (li_ip info)"
      "other = \<lparr>sp_src = li_ip info', sp_gateway = li_gateway info', sp_iface = j, sp_fwmark = None\<rparr>"
      unfolding current_routes_iff [OF ok] by auto
    with assms(12) have "j = i" by blast
    with j assms(5) show "other = ?spec" by simp
  qed
  then have "in_sync K s' (table_id_for (li_ip info)) (Some \<lparr>rs_src = li_ip info, rs_gateway = li_gateway info,
      rs_ifindex = idx, rs_fwmark = None\<rparr>)"
    using reconcile_effect [OF assms(2,8) wf current_routes_unmarked assms(9), of "table_id_for (li_ip info)"] assms(10)
    by simp
  moreover have "host_step A en (Some K) h2 (h2\<lparr>h_refresh := None, h_kernel := s'\<rparr>)"
  proof -
    have "host_step A en (Some K) h2 (refresh_apply K iter (current_routes ?st) h2)"
      by (rule host_step.apply_tick [OF refl assms(7,8)])
    with assms(9) show ?thesis by (simp add: refresh_apply_def)
  qed
  ultimately show ?thesis by (simp add: in_sync_def rule_for_def route_for_def expected_fwmask_def)
qed

theorem refresh_routes_leases_witness:
  "\<exists>h :: (sim_state, nat, nat, list_kernel) host. rules_at list_netlink (h_kernel h) (table_id_for (10, 0, 0, 1)) =
       {#\<lparr>cr_src = (10, 0, 0, 1), cr_fwmark = None, cr_fwmask = None\<rparr>#} \<and>
     routes_at list_netlink (h_kernel h) (table_id_for (10, 0, 0, 1)) =
       {#\<lparr>ct_gateway = (10, 0, 0, 254), ct_oif = 7, ct_onlink = True\<rparr>#}"
proof -
  let ?info = "\<lparr>li_ip = (10, 0, 0, 1), li_gateway = (10, 0, 0, 254)\<rparr>"
  obtain h where h: "host_run (sim_aya True) LittleEndian (Some list_netlink) (sample_host ([], [])) h"
    "leases (app (h_daemon h)) = [(''eth0'', ?info)]"
    "h_refresh h = Some (current_routes (app (h_daemon h)))" "h_kernel h = ([], [])"
    using sample_host_reads [of "([], [])"] by blast
  let ?r = "reconcile list_netlink (\<lambda>ts. ts) (current_routes (app (h_daemon h))) ([], [])"
  have routes: "current_routes (app (h_daemon h)) =
      [\<lparr>sp_src = (10, 0, 0, 1), sp_gateway = (10, 0, 0, 254), sp_iface = ''eth0'', sp_fwmark = None\<rparr>]"
    by (simp add: current_routes_def h(2))
  have "fst ?r = Inr () \<and> fst (snd ?r) = []" unfolding routes by code_simp
  then have r: "reconcile list_netlink (\<lambda>ts. ts) (current_routes (app (h_daemon h))) (h_kernel h) = (Inr (), [], snd (snd ?r))"
    by (metis h(4) prod.collapse)
  have l: "map_of (leases (app (h_daemon h))) ''eth0'' = Some ?info" by (simp add: h(2))
  have i: "ifindex list_netlink (h_kernel h) ''eth0'' = Inr 7" by (simp add: ifindex_def list_netlink_def)
  have one: "\<forall>j info'. map_of (leases (app (h_daemon h))) j = Some info' \<longrightarrow>
      table_id_for (li_ip info') = table_id_for (li_ip ?info) \<longrightarrow> j = ''eth0''" by (simp add: h(2))
  have none: "\<forall>w \<in> set ([] :: warning list). failed_table w \<noteq> Some (table_id_for (li_ip ?info))" by simp
  show ?thesis
    using refresh_routes_leases [OF sample_host_start sample_hyps(1,3) h(1) l h(1,3) sample_hyps(2) r none i one]
    by (intro exI [of _ "h\<lparr>h_kernel := snd (snd ?r)\<rparr>"]) simp
qed

text \<open>
  C32. Tags are well-formed. In every state a run of the daemon can reach from a configuration that
  loads, the id it publishes, if any, is a value the DSCP field can carry and is not the zero of
  untagged traffic, and \<open>DSCP_ID\<close>, from which the XDP program stamps, holds for every interface that id
  and no other.
\<close>

theorem daemon_tags_well_formed:
  assumes "dumbarpd_start (d_load read_to_string from_toml path) A new_connection bind s = Inr (h0, router)"
    and "host_run A en router h0 h" "bpf_laws A vw"
  shows "pred_option (\<lambda>i. 1 \<le> i \<and> i \<le> DSCP_ID_MAX) (lr_dumbarpd_id (leases_handler (app (h_daemon h)))) \<and>
    ran (vDscp (vw (bpf (engine (app (h_daemon h)))))) \<subseteq> set_option (lr_dumbarpd_id (leases_handler (app (h_daemon h))))"
proof -
  from assms(1) obtain cfg eng where cfg: "d_load read_to_string from_toml path = Inr cfg" and eng: "Dumbarp_new A = Inr eng"
    and h0: "h_daemon h0 = spawn_all (AppState_new (dc_auth_token cfg) eng (dscp_id cfg)) (dc_ifaces cfg)"
    by (auto simp: dumbarpd_start_Inr)
  have "tags_ok vw (dscp_id cfg) (h_daemon h)"
    using host_run_tags [OF assms(2) _ _ assms(3), of "dc_ifaces cfg" "dscp_id cfg"] tags_ok_start [OF assms(3) eng]
      daemon_run.start [OF eng] by (simp add: h0)
  with loaded_config_usable [OF cfg] show ?thesis by (simp add: tags_ok_def leases_handler_def)
qed

theorem daemon_tags_well_formed_witness:
  "\<exists>h. host_run (sim_aya True) LittleEndian (Some list_netlink) (sample_host ([], [])) h \<and>
     leases (app (h_daemon h)) \<noteq> [] \<and>
     pred_option (\<lambda>i. 1 \<le> i \<and> i \<le> DSCP_ID_MAX) (lr_dumbarpd_id (leases_handler (app (h_daemon h)))) \<and>
     ran (vDscp (snd (bpf (engine (app (h_daemon h)))))) \<subseteq> set_option (lr_dumbarpd_id (leases_handler (app (h_daemon h))))"
proof -
  obtain h where h: "host_run (sim_aya True) LittleEndian (Some list_netlink) (sample_host ([], [])) h"
    "leases (app (h_daemon h)) \<noteq> []" using sample_host_reads [of "([], [])"] by (metis list.distinct(1))
  have "d_load Some (\<lambda>_. Some sample_dconfig) ''cfg'' = Inr sample_dconfig"
    by (simp add: d_load_def d_check_def sample_dconfig_def d_default_refresh_def DSCP_ID_MAX_def)
  then have "dumbarpd_start (d_load Some (\<lambda>_. Some sample_dconfig) ''cfg'') (sim_aya True) (Inr list_netlink) (\<lambda>_. Inr ()) ([], []) =
      Inr (sample_host ([], []), Some list_netlink)"
    by (simp only: sample_host_start)
  from daemon_tags_well_formed [OF this h(1) sim_aya_laws] h show ?thesis by blast
qed

end
