(* ===== verification/Responder.thy ===== *)
theory Responder
  imports Engine Neigh
begin

text \<open>
  The stand-alone responder, \<open>src/dumbarp/src/main.rs\<close>: one engine, one interface and one address from the
  command line, until the signal.
\<close>

section \<open>Definitions\<close>

record Opt =
  opt_iface :: string
  opt_ip :: ipv4addr
  opt_dscp_id :: "u8 option"

text \<open>Until the signal: one engine, one interface. An id of 0 is no id.\<close>

definition responder_main ::
  "('b, 'x, 't) aya \<Rightarrow> endian \<Rightarrow> read_file \<Rightarrow> Opt \<Rightarrow> engine_error + ('b, 'x, 't) Dumbarp" where
  "responder_main A en read_to_string opt =
     (case Dumbarp_new A of
        Inl e \<Rightarrow> Inl e
      | Inr daemon \<Rightarrow>
          (case add_interface A en read_to_string (opt_iface opt) (opt_ip opt)
                  (Option.bind (opt_dscp_id opt) (\<lambda>i. if i \<noteq> 0 then Some i else None)) daemon of
             (Inl e, _) \<Rightarrow> Inl e
           | (Inr _, daemon') \<Rightarrow> Inr daemon'))"

section \<open>Lemmas\<close>

lemma responder_main_Inr:
  "responder_main A en rd opt = Inr e \<longleftrightarrow>
     (\<exists>e0. Dumbarp_new A = Inr e0 \<and>
        add_interface A en rd (opt_iface opt) (opt_ip opt)
          (Option.bind (opt_dscp_id opt) (\<lambda>i. if i \<noteq> 0 then Some i else None)) e0 = (Inr (), e))"
  by (auto simp: responder_main_def split: sum.splits prod.splits)

text \<open>What the maps hold once the responder runs.\<close>

lemma responder_maps:
  assumes "responder_main A en rd opt = Inr e" "bpf_laws A vw"
  obtains m x where "iface_mac rd (opt_iface opt) = Inr m" "iface_ifindex rd (opt_iface opt) = Inr x"
    "vArp (vw (bpf e)) = [\<lparr>ak_ifindex = x, ak_ip = u32_from_ne_bytes en (opt_ip opt)\<rparr> \<mapsto> m]"
    "\<And>y did. vDscp (vw (bpf e)) y = Some did \<longleftrightarrow> y = x \<and> opt_dscp_id opt = Some did \<and> did \<noteq> 0"
proof -
  let ?d = "Option.bind (opt_dscp_id opt) (\<lambda>i. if i \<noteq> 0 then Some i else None)"
  obtain e0 where e0: "Dumbarp_new A = Inr e0" "add_interface A en rd (opt_iface opt) (opt_ip opt) ?d e0 = (Inr (), e)"
    using assms(1) unfolding responder_main_Inr by blast
  note new = new_engine_maps [OF e0(1) assms(2)]
  have empty: "vArp (vw (bpf e0)) = Map.empty" "vDscp (vw (bpf e0)) = Map.empty"
    using new(2,3) by auto
  show ?thesis
  proof (rule add_interface_success [OF assms(2) new(1,4) e0(2)], rule that)
    fix m x l tc
    let ?k = "\<lparr>ak_ifindex = x, ak_ip = u32_from_ne_bytes en (opt_ip opt)\<rparr>" and ?v = "vw (bpf e0)"
    assume tc: "case tc of
       None \<Rightarrow> ?d = None \<and> vw (bpf e) = ?v\<lparr>vXdp := (vXdp ?v)(l \<mapsto> opt_iface opt), vArp := (vArp ?v)(?k \<mapsto> m)\<rparr>
     | Some t \<Rightarrow> \<exists>i len. ?d = Some i \<and> iface_l2_len rd (opt_iface opt) = Inr len \<and> vTc ?v t = None \<and>
         vw (bpf e) = ?v\<lparr>vXdp := (vXdp ?v)(l \<mapsto> opt_iface opt), vArp := (vArp ?v)(?k \<mapsto> m),
           vDscp := (vDscp ?v)(x \<mapsto> i), vL2 := (vL2 ?v)(x \<mapsto> len), vTc := (vTc ?v)(t \<mapsto> opt_iface opt)\<rparr>"
    show "vArp (vw (bpf e)) = [?k \<mapsto> m]" using tc by (auto simp: empty split: option.splits)
    show "vDscp (vw (bpf e)) y = Some did \<longleftrightarrow> y = x \<and> opt_dscp_id opt = Some did \<and> did \<noteq> 0" for y did
      using tc by (auto simp: empty split: option.splits if_splits bind_splits)
  qed
qed

section \<open>Properties\<close>

text \<open>
  C35. What the stand-alone responder does. Once it runs, a prober's request for the address of the
  command line is answered with the interface's MAC address; it stamps packets with the id of the
  command line only, and only when this is between 1 and \<open>DSCP_ID_MAX\<close>. An id above that is accepted
  without an error, but then, as without an id, every frame that is not an answered request passes
  unchanged.
\<close>

theorem responder_effect:
  assumes "responder_main A en rd opt = Inr e" "bpf_laws A vw"
    and "env_endian env = en" "ethertype_arp env = u16_from_ne_bytes en (8, 6)"
    and "ARP_TABLE maps = vArp (vw (bpf e))" "DSCP_ID maps = vDscp (vw (bpf e))"
  shows "(\<exists>x m d'. iface_ifindex rd (opt_iface opt) = Inr x \<and> iface_mac rd (opt_iface opt) = Inr m \<and>
      dumbarp env lru maps \<lparr>xdp_data = build_arp_request own src (opt_ip opt), ingress_ifindex = x\<rparr> =
        (XDP_TX, \<lparr>xdp_data = d', ingress_ifindex = x\<rparr>, maps) \<and>
      parse_arp_reply d' (opt_ip opt) src = Some m) \<and>
    (\<forall>ctx did. stamps env maps ctx did \<longrightarrow> opt_dscp_id opt = Some did \<and> 1 \<le> did \<and> did \<le> DSCP_ID_MAX) \<and>
    (pred_option (\<lambda>did. did = 0 \<or> did > DSCP_ID_MAX) (opt_dscp_id opt) \<longrightarrow>
      (\<forall>ctx. (\<nexists>m. arp_request_for env maps ctx m) \<longrightarrow> dumbarp env lru maps ctx = (XDP_PASS, ctx, maps)))"
proof (rule responder_maps [OF assms(1,2)], intro conjI)
  fix m x
  assume m: "iface_mac rd (opt_iface opt) = Inr m" and x: "iface_ifindex rd (opt_iface opt) = Inr x"
    and arp: "vArp (vw (bpf e)) = [\<lparr>ak_ifindex = x, ak_ip = u32_from_ne_bytes en (opt_ip opt)\<rparr> \<mapsto> m]"
    and dscp: "\<And>y did. vDscp (vw (bpf e)) y = Some did \<longleftrightarrow> y = x \<and> opt_dscp_id opt = Some did \<and> did \<noteq> 0"
  have "ARP_TABLE maps (arp_key env x (opt_ip opt)) = Some m" by (simp add: assms(3,5) arp arp_key_def)
  then show "\<exists>x m d'. iface_ifindex rd (opt_iface opt) = Inr x \<and> iface_mac rd (opt_iface opt) = Inr m \<and>
      dumbarp env lru maps \<lparr>xdp_data = build_arp_request own src (opt_ip opt), ingress_ifindex = x\<rparr> =
        (XDP_TX, \<lparr>xdp_data = d', ingress_ifindex = x\<rparr>, maps) \<and>
      parse_arp_reply d' (opt_ip opt) src = Some m"
    using probe_answered [of env maps x "opt_ip opt" m lru own src] m x assms(3,4) by blast
  have st: "opt_dscp_id opt = Some did \<and> did \<noteq> 0 \<and> did \<le> DSCP_ID_MAX" if "stamps env maps ctx did" for ctx did
    using that by (simp add: stamps_def Let_def assms(6) dscp)
  moreover have "1 \<le> i" if "i \<noteq> 0" for i :: u8 using that by (simp add: word_le_nat_alt unat_gt_0 Suc_le_eq)
  ultimately show "\<forall>ctx did. stamps env maps ctx did \<longrightarrow> opt_dscp_id opt = Some did \<and> 1 \<le> did \<and> did \<le> DSCP_ID_MAX"
    by blast
  show "pred_option (\<lambda>did. did = 0 \<or> did > DSCP_ID_MAX) (opt_dscp_id opt) \<longrightarrow>
      (\<forall>ctx. (\<nexists>m. arp_request_for env maps ctx m) \<longrightarrow> dumbarp env lru maps ctx = (XDP_PASS, ctx, maps))"
  proof (intro impI allI)
    fix ctx
    assume none: "pred_option (\<lambda>did. did = 0 \<or> did > DSCP_ID_MAX) (opt_dscp_id opt)" "\<nexists>m. arp_request_for env maps ctx m"
    have "\<not> stamps env maps ctx did" for did using st [of ctx did] none(1) by (auto simp: not_le)
    with none(2) show "dumbarp env lru maps ctx = (XDP_PASS, ctx, maps)" using dumbarp_other [of env maps ctx lru] by blast
  qed
qed

text \<open>The responder on \<open>eth0\<close> with an id that is too large.\<close>

definition sample_opt :: Opt where
  "sample_opt = \<lparr>opt_iface = ''eth0'', opt_ip = (10, 0, 0, 1), opt_dscp_id = Some 70\<rparr>"

lemma sample_responder: "\<exists>e. responder_main (sim_aya True) LittleEndian sim_sysfs sample_opt = Inr e"
proof -
  have "\<exists>e. add_interface (sim_aya True) LittleEndian sim_sysfs ''eth0'' (10, 0, 0, 1) (Some 70)
      \<lparr>bpf = (0, empty_view), attached = []\<rparr> = (Inr (), e)"
    by (simp add: add_interface_def add_maps_def attach_egress_def sim_aya_def sim_sysfs_eth0 empty_view_def Let_def)
  then show ?thesis unfolding responder_main_Inr sim_new by (simp add: sample_opt_def)
qed

theorem responder_effect_witness:
  "\<exists>e maps. responder_main (sim_aya True) LittleEndian sim_sysfs sample_opt = Inr e \<and>
     dumbarp sample_env sample_lru maps sample_packet = (XDP_PASS, sample_packet, maps)"
proof -
  obtain e where e: "responder_main (sim_aya True) LittleEndian sim_sysfs sample_opt = Inr e"
    using sample_responder by blast
  let ?maps = "\<lparr>ARP_TABLE = vArp (snd (bpf e)), DSCP_ID = vDscp (snd (bpf e)), ORIG_DSCP = Map.empty, L2_LEN = Map.empty\<rparr>"
  have env: "env_endian sample_env = LittleEndian" "ethertype_arp sample_env = u16_from_ne_bytes LittleEndian (8, 6)"
    by (simp_all add: sample_env_def u16_from_be_bytes.simps)
  have maps: "ARP_TABLE ?maps = vArp (snd (bpf e))" "DSCP_ID ?maps = vDscp (snd (bpf e))" by simp_all
  have "\<nexists>m. arp_request_for sample_env ?maps sample_packet m"
    by (simp add: arp_request_for_def sample_packet_def ether_type_of_def sample_env_def header_defs
        u16_from_be_bytes.simps)
  moreover have "pred_option (\<lambda>did. did = 0 \<or> did > DSCP_ID_MAX) (opt_dscp_id sample_opt)"
    by (simp add: sample_opt_def DSCP_ID_MAX_def)
  ultimately have "dumbarp sample_env sample_lru ?maps sample_packet = (XDP_PASS, sample_packet, ?maps)"
    using responder_effect [OF e sim_aya_laws env maps] by blast
  with e show ?thesis by blast
qed

end
