(* ===== verification/K8s.thy ===== *)
theory K8s
  imports Api Btree
begin

text \<open>
  The Kubernetes replicator, crate \<open>dumbarp-k8s\<close>: configuration (\<open>config.rs\<close>), fetching the addresses of
  a daemon (\<open>client.rs\<close>), the address-pool resource (\<open>crd.rs\<close>) and the pass that makes the cluster's pools
  follow the daemons' leases (\<open>reconcile.rs\<close>). File reading, TOML, HTTP, the Kubernetes API and the
  calendar library are parameters. Instants of the calendar are integers of seconds.
\<close>

section \<open>Configuration\<close>

record ('url, 'path) HostConfig =
  h_name :: string
  h_url :: 'url
  h_auth_token_file :: 'path

record ('url, 'path) KConfig =
  kc_refresh_interval_secs :: u64
  kc_stale_after_secs :: u64
  kc_hosts :: "('url, 'path) HostConfig list"

definition k_default_refresh :: u64 where "k_default_refresh = 30"
definition k_default_stale :: u64 where "k_default_stale = 300"

datatype kconfig_error =
    KcRead | KcParse
  | KcNoHosts
  | KcZeroRefresh
  | KcStaleBelowRefresh u64 u64
  | KcEmptyName
  | KcDuplicateName string

fun check_hosts :: "string list \<Rightarrow> ('url, 'path) HostConfig list \<Rightarrow> kconfig_error + unit" where
  "check_hosts seen [] = Inr ()"
| "check_hosts seen (h # hs) =
     (if h_name h = [] then Inl KcEmptyName
      else if h_name h \<in> set seen then Inl (KcDuplicateName (h_name h))
      else check_hosts (h_name h # seen) hs)"

definition k_check :: "('url, 'path) KConfig \<Rightarrow> kconfig_error + ('url, 'path) KConfig" where
  "k_check cfg =
     (if kc_hosts cfg = [] then Inl KcNoHosts
      else if kc_refresh_interval_secs cfg = 0 then Inl KcZeroRefresh
      else if kc_stale_after_secs cfg < kc_refresh_interval_secs cfg
        then Inl (KcStaleBelowRefresh (kc_stale_after_secs cfg) (kc_refresh_interval_secs cfg))
      else case check_hosts [] (kc_hosts cfg) of Inl e \<Rightarrow> Inl e | Inr _ \<Rightarrow> Inr cfg)"

definition k_load ::
  "('path \<Rightarrow> string option) \<Rightarrow> (string \<Rightarrow> ('url, 'path) KConfig option) \<Rightarrow> 'path \<Rightarrow>
     kconfig_error + ('url, 'path) KConfig" where
  "k_load read_to_string from_toml path =
     (case read_to_string path of
        None \<Rightarrow> Inl KcRead
      | Some raw \<Rightarrow> (case from_toml raw of None \<Rightarrow> Inl KcParse | Some cfg \<Rightarrow> k_check cfg))"

section \<open>Fetching\<close>

datatype kube_error = ApiStatus nat | OtherKube

datatype k8s_error =
    TokenUnreadable string
  | TokenEmpty string
  | FetchFailed api_error
  | Kube kube_error
  | CalendarOverflow

definition read_token :: "('path \<Rightarrow> string option) \<Rightarrow> ('url, 'path) HostConfig \<Rightarrow> k8s_error + string" where
  "read_token read_to_string self =
     (case read_to_string (h_auth_token_file self) of
        None \<Rightarrow> Inl (TokenUnreadable (h_name self))
      | Some raw \<Rightarrow>
          let trimmed = trim raw in if trimmed = [] then Inl (TokenEmpty (h_name self)) else Inr trimmed)"

definition fetch_ips ::
  "('url, 'resp) http_env \<Rightarrow> ('resp \<Rightarrow> LeasesResponse option) \<Rightarrow> ('path \<Rightarrow> string option) \<Rightarrow>
     ('url, 'path) HostConfig \<Rightarrow> k8s_error + ipv4addr list" where
  "fetch_ips http json read_to_string host =
     (case read_token read_to_string host of
        Inl e \<Rightarrow> Inl e
      | Inr token \<Rightarrow>
          (case fetch_leases http json (h_url host) token (h_name host) of
             Inl e \<Rightarrow> Inl (FetchFailed e)
           | Inr leases \<Rightarrow> Inr (l_ips leases)))"

text \<open>The wanted addresses are an ordered set: the sorted list of its elements.\<close>

definition collect_step ::
  "ipv4addr list \<times> nat \<Rightarrow> k8s_error + ipv4addr list \<Rightarrow> ipv4addr list \<times> nat" where
  "collect_step acc result =
     (case acc of (desired, errors) \<Rightarrow>
        case result of
          Inr ips \<Rightarrow> (fold insort_insert ips desired, errors)
        | Inl _ \<Rightarrow> (desired, errors + 1))"

definition collect_desired ::
  "('url, 'resp) http_env \<Rightarrow> ('resp \<Rightarrow> LeasesResponse option) \<Rightarrow> ('path \<Rightarrow> string option) \<Rightarrow>
     ('url, 'path) KConfig \<Rightarrow> ipv4addr list \<times> bool \<times> nat" where
  "collect_desired http json read_to_string cfg =
     (case foldl collect_step ([], 0) (map (fetch_ips http json read_to_string) (kc_hosts cfg)) of
        (desired, errors) \<Rightarrow> (desired, errors = 0, errors))"

section \<open>Pools\<close>

type_synonym str_map = "(string \<times> string) list"

record ObjectMeta =
  m_name :: "string option"
  m_labels :: "str_map option"
  m_annotations :: "str_map option"

record Pool =
  p_metadata :: ObjectMeta
  p_blocks :: "string option list"

record ExistingPool =
  ep_name :: string
  ep_last_seen :: "int option"

definition MANAGED_BY_LABEL :: string where "MANAGED_BY_LABEL = ''app.kubernetes.io/managed-by''"
definition MANAGED_BY_VALUE :: string where "MANAGED_BY_VALUE = ''dumbarp-k8s''"
definition IP_ANNOTATION :: string where "IP_ANNOTATION = ''dumbarp.k8s/ip''"
definition LAST_SEEN_ANNOTATION :: string where "LAST_SEEN_ANNOTATION = ''dumbarp.k8s/last-seen-at''"

text \<open>
  What the code calls of the calendar library: subtracting seconds from an instant (\<open>None\<close> when the
  library panics, out of its range), and the text form of an instant.
\<close>

record calendar =
  sub_seconds :: "int \<Rightarrow> int \<Rightarrow> int option"
  to_rfc3339 :: "int \<Rightarrow> string"
  parse_rfc3339 :: "string \<Rightarrow> int option"

text \<open>What it calls of the Kubernetes API. A patch is the merge of one annotation.\<close>

record 's kube_api =
  api_list :: "string \<times> string \<Rightarrow> 's \<Rightarrow> kube_error + Pool list"
  api_create :: "Pool \<Rightarrow> 's \<Rightarrow> (kube_error + unit) \<times> 's"
  api_patch :: "string \<Rightarrow> string \<times> string \<Rightarrow> 's \<Rightarrow> (kube_error + unit) \<times> 's"
  api_delete :: "string \<Rightarrow> 's \<Rightarrow> (kube_error + unit) \<times> 's"

text \<open>The body of the loop of \<open>list_current\<close>.\<close>

definition pool_entry :: "calendar \<Rightarrow> Pool \<Rightarrow> (ipv4addr \<times> ExistingPool) option" where
  "pool_entry cal pool =
     (let name = (case m_name (p_metadata pool) of Some n \<Rightarrow> n | None \<Rightarrow> []) in
      case m_annotations (p_metadata pool) of
        None \<Rightarrow> None
      | Some annotations \<Rightarrow>
          (case map_of annotations IP_ANNOTATION of
             None \<Rightarrow> None
           | Some raw_ip \<Rightarrow>
               (case Ipv4Addr_parse raw_ip of
                  None \<Rightarrow> None
                | Some ip \<Rightarrow>
                    Some (ip, \<lparr>ep_name = name,
                      ep_last_seen = Option.bind (map_of annotations LAST_SEEN_ANNOTATION) (parse_rfc3339 cal)\<rparr>))))"

definition list_current ::
  "calendar \<Rightarrow> 's kube_api \<Rightarrow> 's \<Rightarrow> kube_error + (ipv4addr \<times> ExistingPool) list" where
  "list_current cal api s =
     (case api_list api (MANAGED_BY_LABEL, MANAGED_BY_VALUE) s of
        Inl e \<Rightarrow> Inl e
      | Inr items \<Rightarrow>
          Inr (foldl (\<lambda>out pool. case pool_entry cal pool of
                 None \<Rightarrow> out
               | Some (ip, e) \<Rightarrow> bt_insert ip e out) [] items))"

definition pool_name :: "ipv4addr \<Rightarrow> string" where
  "pool_name ip = ''dumbarp-'' @ map (\<lambda>c. if c = CHR ''.'' then CHR ''-'' else c) (Ipv4Addr_to_string ip)"

definition build_pool :: "calendar \<Rightarrow> ipv4addr \<Rightarrow> int \<Rightarrow> Pool" where
  "build_pool cal ip now =
     (let labels = bt_insert MANAGED_BY_LABEL MANAGED_BY_VALUE [];
          annotations = bt_insert IP_ANNOTATION (Ipv4Addr_to_string ip) [];
          annotations = bt_insert LAST_SEEN_ANNOTATION (to_rfc3339 cal now) annotations
      in \<lparr>p_metadata = \<lparr>m_name = Some (pool_name ip), m_labels = Some labels, m_annotations = Some annotations\<rparr>,
          p_blocks = [Some (Ipv4Addr_to_string ip @ ''/32'')]\<rparr>)"

definition touch_pool ::
  "calendar \<Rightarrow> 's kube_api \<Rightarrow> ipv4addr \<Rightarrow> int \<Rightarrow> 's \<Rightarrow> (k8s_error + unit) \<times> 's" where
  "touch_pool cal api ip now s =
     (case api_patch api (pool_name ip) (LAST_SEEN_ANNOTATION, to_rfc3339 cal now) s of
        (Inl e, s') \<Rightarrow> (Inl (Kube e), s')
      | (Inr _, s') \<Rightarrow> (Inr (), s'))"

definition create_pool ::
  "calendar \<Rightarrow> 's kube_api \<Rightarrow> ipv4addr \<Rightarrow> int \<Rightarrow> 's \<Rightarrow> (k8s_error + unit) \<times> 's" where
  "create_pool cal api ip now s =
     (case api_create api (build_pool cal ip now) s of
        (Inr _, s') \<Rightarrow> (Inr (), s')
      | (Inl e, s') \<Rightarrow> if e = ApiStatus 409 then touch_pool cal api ip now s' else (Inl (Kube e), s'))"

definition delete_pool :: "'s kube_api \<Rightarrow> string \<Rightarrow> 's \<Rightarrow> (k8s_error + unit) \<times> 's" where
  "delete_pool api name s =
     (case api_delete api name s of
        (Inr _, s') \<Rightarrow> (Inr (), s')
      | (Inl e, s') \<Rightarrow> if e = ApiStatus 404 then (Inr (), s') else (Inl (Kube e), s'))"

section \<open>The pass\<close>

fun publish_loop ::
  "calendar \<Rightarrow> 's kube_api \<Rightarrow> (ipv4addr \<times> ExistingPool) list \<Rightarrow> int \<Rightarrow> ipv4addr list \<Rightarrow> nat \<times> nat \<Rightarrow> 's \<Rightarrow>
     (k8s_error + nat \<times> nat) \<times> 's" where
  "publish_loop cal api current now [] (added, touched) s = (Inr (added, touched), s)"
| "publish_loop cal api current now (ip # ips) (added, touched) s =
     (case map_of current ip of
        None \<Rightarrow>
          (case create_pool cal api ip now s of
             (Inl e, s') \<Rightarrow> (Inl e, s')
           | (Inr _, s') \<Rightarrow> publish_loop cal api current now ips (added + 1, touched) s')
      | Some _ \<Rightarrow>
          (case touch_pool cal api ip now s of
             (Inl e, s') \<Rightarrow> (Inl e, s')
           | (Inr _, s') \<Rightarrow> publish_loop cal api current now ips (added, touched + 1) s'))"

definition prunes :: "bool \<Rightarrow> int \<Rightarrow> ExistingPool \<Rightarrow> bool" where
  "prunes all_hosts_ok stale_threshold existing =
     (if all_hosts_ok then True
      else case ep_last_seen existing of Some seen \<Rightarrow> seen < stale_threshold | None \<Rightarrow> True)"

fun prune_loop ::
  "'s kube_api \<Rightarrow> ipv4addr list \<Rightarrow> bool \<Rightarrow> int \<Rightarrow> (ipv4addr \<times> ExistingPool) list \<Rightarrow> nat \<times> nat \<Rightarrow> 's \<Rightarrow>
     (k8s_error + nat \<times> nat) \<times> 's" where
  "prune_loop api desired ok thr [] (removed, kept) s = (Inr (removed, kept), s)"
| "prune_loop api desired ok thr ((ip, existing) # rest) (removed, kept) s =
     (if ip \<in> set desired then prune_loop api desired ok thr rest (removed, kept) s
      else if prunes ok thr existing then
        (case delete_pool api (ep_name existing) s of
           (Inl e, s') \<Rightarrow> (Inl e, s')
         | (Inr _, s') \<Rightarrow> prune_loop api desired ok thr rest (removed + 1, kept) s')
      else prune_loop api desired ok thr rest (removed, kept + 1) s)"

record k8s_stats =
  ks_added :: nat
  ks_touched :: nat
  ks_removed :: nat
  ks_kept :: nat
  ks_fetch_errors :: nat

text \<open>The seconds of \<open>stale_after_secs as i64\<close>: the same 64 bits, read as a signed number.\<close>

definition as_i64 :: "u64 \<Rightarrow> int" where "as_i64 w = sint w"

definition k8s_reconcile_once ::
  "('url, 'resp) http_env \<Rightarrow> ('resp \<Rightarrow> LeasesResponse option) \<Rightarrow> ('path \<Rightarrow> string option) \<Rightarrow> calendar \<Rightarrow>
     's kube_api \<Rightarrow> ('url, 'path) KConfig \<Rightarrow> int \<Rightarrow> 's \<Rightarrow> (k8s_error + k8s_stats) \<times> 's" where
  "k8s_reconcile_once http json read_to_string cal api cfg now s =
     (case collect_desired http json read_to_string cfg of (desired, all_hosts_ok, fetch_errors) \<Rightarrow>
        case list_current cal api s of
          Inl e \<Rightarrow> (Inl (Kube e), s)
        | Inr current \<Rightarrow>
            (case sub_seconds cal now (as_i64 (kc_stale_after_secs cfg)) of
               None \<Rightarrow> (Inl CalendarOverflow, s)
             | Some stale_threshold \<Rightarrow>
                 (case publish_loop cal api current now desired (0, 0) s of
                    (Inl e, s1) \<Rightarrow> (Inl e, s1)
                  | (Inr (added, touched), s1) \<Rightarrow>
                      (case prune_loop api desired all_hosts_ok stale_threshold current (0, 0) s1 of
                         (Inl e, s2) \<Rightarrow> (Inl e, s2)
                       | (Inr (removed, kept), s2) \<Rightarrow>
                           (Inr \<lparr>ks_added = added, ks_touched = touched, ks_removed = removed, ks_kept = kept,
                                 ks_fetch_errors = fetch_errors\<rparr>, s2)))))"

section \<open>What the code relies on\<close>

definition has_label :: "string \<times> string \<Rightarrow> Pool \<Rightarrow> bool" where
  "has_label kv p = (case m_labels (p_metadata p) of None \<Rightarrow> False | Some ls \<Rightarrow> map_of ls (fst kv) = Some (snd kv))"

abbreviation managed :: "Pool \<Rightarrow> bool" where
  "managed p \<equiv> has_label (MANAGED_BY_LABEL, MANAGED_BY_VALUE) p"

definition merge_annotation :: "string \<times> string \<Rightarrow> Pool \<Rightarrow> Pool" where
  "merge_annotation kv p =
     p\<lparr>p_metadata := (p_metadata p)\<lparr>m_annotations :=
       Some (bt_insert (fst kv) (snd kv) (case m_annotations (p_metadata p) of None \<Rightarrow> [] | Some a \<Rightarrow> a))\<rparr>\<rparr>"

text \<open>
  The cluster holds objects under their names, which only this program changes while one of its passes
  runs, and no object has a finalizer. A list gives exactly the objects with the label; a create needs a
  free name and a patch a taken one. A request that fails may have taken effect all the same, as when its
  answer is lost; but the status 409 of a create means that it has not, and the status 404 of a delete
  that there is no such object.
\<close>

definition kube_laws :: "'s kube_api \<Rightarrow> ('s \<Rightarrow> string \<Rightarrow> Pool option) \<Rightarrow> bool" where
  "kube_laws api pv \<longleftrightarrow>
     (\<forall>s n p. pv s n = Some p \<longrightarrow> m_name (p_metadata p) = Some n) \<and>
     (\<forall>sel s ps. api_list api sel s = Inr ps \<longrightarrow> set ps = {p. \<exists>n. pv s n = Some p \<and> has_label sel p}) \<and>
     (\<forall>p n s r s'. m_name (p_metadata p) = Some n \<and> api_create api p s = (r, s') \<longrightarrow>
        (pv s n = None \<and> pv s' = (pv s)(n \<mapsto> p) \<and> r \<noteq> Inl (ApiStatus 409)) \<or> (pv s' = pv s \<and> isl r)) \<and>
     (\<forall>n kv s r s'. api_patch api n kv s = (r, s') \<longrightarrow>
        (\<exists>p. pv s n = Some p \<and> pv s' = (pv s)(n \<mapsto> merge_annotation kv p)) \<or> (pv s' = pv s \<and> isl r)) \<and>
     (\<forall>n s r s'. api_delete api n s = (r, s') \<longrightarrow>
        pv s' = (pv s)(n := None) \<or> (pv s' = pv s \<and> isl r \<and> r \<noteq> Inl (ApiStatus 404)))"

lemma kube_lawsD:
  assumes "kube_laws api pv"
  shows "pv s n = Some p \<Longrightarrow> m_name (p_metadata p) = Some n"
    and "api_list api sel s = Inr ps \<Longrightarrow> set ps = {p. \<exists>n. pv s n = Some p \<and> has_label sel p}"
    and "m_name (p_metadata p) = Some n \<Longrightarrow> api_create api p s = (r, s') \<Longrightarrow>
      (pv s n = None \<and> pv s' = (pv s)(n \<mapsto> p) \<and> r \<noteq> Inl (ApiStatus 409)) \<or> (pv s' = pv s \<and> isl r)"
    and "api_patch api n kv s = (r, s') \<Longrightarrow>
      (\<exists>p. pv s n = Some p \<and> pv s' = (pv s)(n \<mapsto> merge_annotation kv p)) \<or> (pv s' = pv s \<and> isl r)"
    and "api_delete api n s = (r, s') \<Longrightarrow>
      pv s' = (pv s)(n := None) \<or> (pv s' = pv s \<and> isl r \<and> r \<noteq> Inl (ApiStatus 404))"
proof -
  note laws = assms [unfolded kube_laws_def]
  show "pv s n = Some p \<Longrightarrow> m_name (p_metadata p) = Some n"
    by (rule laws [THEN conjunct1, rule_format])
  show "api_list api sel s = Inr ps \<Longrightarrow> set ps = {p. \<exists>n. pv s n = Some p \<and> has_label sel p}"
    by (rule laws [THEN conjunct2, THEN conjunct1, rule_format])
  show "m_name (p_metadata p) = Some n \<Longrightarrow> api_create api p s = (r, s') \<Longrightarrow>
      (pv s n = None \<and> pv s' = (pv s)(n \<mapsto> p) \<and> r \<noteq> Inl (ApiStatus 409)) \<or> (pv s' = pv s \<and> isl r)"
    by (rule laws [THEN conjunct2, THEN conjunct2, THEN conjunct1, rule_format, OF conjI])
  show "api_patch api n kv s = (r, s') \<Longrightarrow>
      (\<exists>p. pv s n = Some p \<and> pv s' = (pv s)(n \<mapsto> merge_annotation kv p)) \<or> (pv s' = pv s \<and> isl r)"
    by (rule laws [THEN conjunct2, THEN conjunct2, THEN conjunct2, THEN conjunct1, rule_format])
  show "api_delete api n s = (r, s') \<Longrightarrow>
      pv s' = (pv s)(n := None) \<or> (pv s' = pv s \<and> isl r \<and> r \<noteq> Inl (ApiStatus 404))"
    by (rule laws [THEN conjunct2, THEN conjunct2, THEN conjunct2, THEN conjunct2, rule_format])
qed

text \<open>
  The pool that stands for an address: it carries the program's label, the name the program gives to the
  address, the address in its annotation, and one block that holds the address and nothing else.
\<close>

definition annotations_of :: "Pool \<Rightarrow> str_map" where
  "annotations_of p = (case m_annotations (p_metadata p) of None \<Rightarrow> [] | Some a \<Rightarrow> a)"

definition pool_for :: "ipv4addr \<Rightarrow> Pool \<Rightarrow> bool" where
  "pool_for ip p \<longleftrightarrow>
     managed p \<and> m_name (p_metadata p) = Some (pool_name ip) \<and>
     p_blocks p = [Some (Ipv4Addr_to_string ip @ ''/32'')] \<and>
     map_of (annotations_of p) ''dumbarp.k8s/ip'' = Some (Ipv4Addr_to_string ip)"

text \<open>The address a pool says it is for.\<close>

definition pool_ip :: "Pool \<Rightarrow> ipv4addr option" where
  "pool_ip p = Option.bind (map_of (annotations_of p) ''dumbarp.k8s/ip'') Ipv4Addr_parse"

text \<open>Two pools that differ in the time they were last seen at most.\<close>

definition same_pool :: "Pool \<Rightarrow> Pool \<Rightarrow> bool" where
  "same_pool p q \<longleftrightarrow>
     p_blocks q = p_blocks p \<and> m_name (p_metadata q) = m_name (p_metadata p) \<and>
     m_labels (p_metadata q) = m_labels (p_metadata p) \<and>
     (\<forall>k. k \<noteq> LAST_SEEN_ANNOTATION \<longrightarrow> map_of (annotations_of q) k = map_of (annotations_of p) k)"

text \<open>The managed pools that say what address they are for are the pools of these addresses.\<close>

definition pools_ok :: "(string \<Rightarrow> Pool option) \<Rightarrow> bool" where
  "pools_ok m \<longleftrightarrow>
     (\<forall>n p ip. m n = Some p \<and> managed p \<and> pool_ip p = Some ip \<longrightarrow> n = pool_name ip \<and> pool_for ip p)"

section \<open>Lemmas on pools\<close>

lemma dash_notin_ip: "CHR ''-'' \<notin> set (Ipv4Addr_to_string ip)"
proof -
  have "CHR ''-'' \<notin> set (dec n)" for n using dec_digits [of n] by (auto simp: list_all_iff is_digit_def)
  then show ?thesis by (cases ip) simp
qed

lemma pool_name_inj [simp]: "pool_name ip = pool_name ip' \<longleftrightarrow> ip = ip'"
proof -
  let ?f = "\<lambda>c. if c = CHR ''.'' then CHR ''-'' else c"
  have "inj_on ?f (set (Ipv4Addr_to_string ip) \<union> set (Ipv4Addr_to_string ip'))"
    using dash_notin_ip [of ip] dash_notin_ip [of ip'] by (auto simp: inj_on_def split: if_splits)
  then show ?thesis by (simp add: pool_name_def inj_on_map_eq_map ipv4.to_text_inj)
qed

text \<open>A pool says when it was seen last.\<close>

definition seen_at :: "calendar \<Rightarrow> int \<Rightarrow> Pool \<Rightarrow> bool" where
  "seen_at cal now p =
     (case m_annotations (p_metadata p) of
        None \<Rightarrow> False
      | Some a \<Rightarrow> map_of a LAST_SEEN_ANNOTATION = Some (to_rfc3339 cal now))"

lemma annotation_keys: "IP_ANNOTATION \<noteq> LAST_SEEN_ANNOTATION"
  by (simp add: IP_ANNOTATION_def LAST_SEEN_ANNOTATION_def)

lemma ip_key: "IP_ANNOTATION = ''dumbarp.k8s/ip''" "LAST_SEEN_ANNOTATION \<noteq> ''dumbarp.k8s/ip''"
  by (simp_all add: IP_ANNOTATION_def LAST_SEEN_ANNOTATION_def)

lemma build_pool_props:
  "m_name (p_metadata (build_pool cal ip now)) = Some (pool_name ip)" "managed (build_pool cal ip now)"
  "seen_at cal now (build_pool cal ip now)" "pool_for ip (build_pool cal ip now)"
  using ip_key annotation_keys
  by (auto simp: build_pool_def has_label_def seen_at_def pool_for_def annotations_of_def Let_def
      simp del: bt_insert.simps)

lemma pool_entry_ip: "map_option fst (pool_entry cal p) = pool_ip p"
  by (auto simp: pool_entry_def pool_ip_def annotations_of_def ip_key(1) Let_def split: option.split)

lemma pool_entry_Some: "pool_entry cal p = Some (ip, e) \<Longrightarrow> pool_ip p = Some ip"
  by (metis fst_conv option.simps(9) pool_entry_ip)

lemma pool_ip_entry: "pool_ip p = Some ip \<Longrightarrow> \<exists>e. pool_entry cal p = Some (ip, e)"
  using pool_entry_ip [of cal p] by (cases "pool_entry cal p") auto

lemma pool_for_ip: "pool_for ip p \<Longrightarrow> managed p \<and> pool_ip p = Some ip"
  by (simp add: pool_for_def pool_ip_def del: Ipv4Addr_to_string.simps)

lemma same_pool_refl [simp]: "same_pool p p"
  by (simp add: same_pool_def)

lemma same_pool_trans: "same_pool p q \<Longrightarrow> same_pool q r \<Longrightarrow> same_pool p r"
  by (simp add: same_pool_def)

lemma same_pool_managed: "same_pool p q \<Longrightarrow> managed q = managed p"
  by (simp add: same_pool_def has_label_def)

lemma same_pool_ip: "same_pool p q \<Longrightarrow> pool_ip q = pool_ip p"
  using ip_key(2) by (simp add: same_pool_def pool_ip_def)

lemma same_pool_for: "same_pool p q \<Longrightarrow> pool_for ip p \<Longrightarrow> pool_for ip q"
  using ip_key(2) same_pool_managed [of p q] by (simp add: same_pool_def pool_for_def)

lemma same_pool_merge: "same_pool p (merge_annotation (LAST_SEEN_ANNOTATION, t) p)"
  by (simp add: same_pool_def merge_annotation_def annotations_of_def del: bt_insert.simps)

lemma merge_seen: "seen_at cal now (merge_annotation (LAST_SEEN_ANNOTATION, to_rfc3339 cal now) p)"
  by (simp add: merge_annotation_def seen_at_def del: bt_insert.simps)

text \<open>
  What publishing addresses may make of the object under a name: nothing, a new pool of the address the
  name is for, or the old one with another time of the last sighting.
\<close>

definition evolved :: "string \<Rightarrow> Pool option \<Rightarrow> Pool option \<Rightarrow> bool" where
  "evolved n before now \<longleftrightarrow>
     (case (before, now) of
        (None, None) \<Rightarrow> True
      | (Some p, None) \<Rightarrow> False
      | (None, Some q) \<Rightarrow> \<exists>ip. n = pool_name ip \<and> pool_for ip q
      | (Some p, Some q) \<Rightarrow> same_pool p q \<and> (n \<notin> range pool_name \<longrightarrow> q = p))"

lemma evolved_refl [simp]: "evolved n x x"
  by (simp add: evolved_def split: option.split)

lemma evolved_trans: "evolved n x y \<Longrightarrow> evolved n y z \<Longrightarrow> evolved n x z"
  by (cases x; cases y; cases z) (auto simp: evolved_def intro: same_pool_trans same_pool_for)

lemma evolved_ok:
  assumes "\<forall>n. evolved n (m n) (m' n)" "pools_ok m"
  shows "pools_ok m'"
  unfolding pools_ok_def
proof (intro allI impI, elim conjE)
  fix n q ip
  assume q: "m' n = Some q" "managed q" "pool_ip q = Some ip"
  have e: "evolved n (m n) (Some q)" using assms(1) q(1) by metis
  show "n = pool_name ip \<and> pool_for ip q"
  proof (cases "m n")
    case None
    with e obtain ip' where "n = pool_name ip'" "pool_for ip' q" by (auto simp: evolved_def)
    with q(3) pool_for_ip [of ip' q] show ?thesis by simp
  next
    case (Some p)
    with e have same: "same_pool p q" by (simp add: evolved_def)
    then have "managed p" "pool_ip p = Some ip"
      using q(2,3) by (simp_all add: same_pool_managed same_pool_ip)
    with assms(2) Some have "n = pool_name ip \<and> pool_for ip p" unfolding pools_ok_def by blast
    with same_pool_for [OF same] show ?thesis by blast
  qed
qed

section \<open>Lemmas on fetching and listing\<close>

lemma set_fold_insort: "set (fold insort_insert xs acc) = set xs \<union> set acc"
  by (induction xs arbitrary: acc) (auto simp: set_insort_insert)

lemma collect_fold:
  "foldl collect_step (acc, n) rs = (acc', n') \<Longrightarrow>
     set acc' = set acc \<union> \<Union> {set ips | ips. Inr ips \<in> set rs} \<and> n' = n + length (filter isl rs)"
proof (induction rs arbitrary: acc n)
  case Nil
  then show ?case by simp
next
  case (Cons r rs)
  obtain a1 n1 where st: "collect_step (acc, n) r = (a1, n1)" by (cases "collect_step (acc, n) r")
  with Cons.prems have "set acc' = set a1 \<union> \<Union> {set ips | ips. Inr ips \<in> set rs} \<and> n' = n1 + length (filter isl rs)"
    by (intro Cons.IH) simp
  with st show ?case by (cases r) (auto simp: collect_step_def set_fold_insort)
qed

lemma collect_desired_eq:
  assumes "collect_desired http json rd cfg = (desired, ok, errs)"
  shows "ip \<in> set desired \<longleftrightarrow> (\<exists>h \<in> set (kc_hosts cfg). \<exists>ips. fetch_ips http json rd h = Inr ips \<and> ip \<in> set ips)"
    and "ok \<longleftrightarrow> (\<forall>h \<in> set (kc_hosts cfg). \<not> isl (fetch_ips http json rd h))"
proof -
  let ?rs = "map (fetch_ips http json rd) (kc_hosts cfg)"
  obtain a n where f: "foldl collect_step ([], 0) ?rs = (a, n)" by (cases "foldl collect_step ([], 0) ?rs")
  with assms have d: "desired = a" "ok = (n = 0)" by (auto simp: collect_desired_def)
  from collect_fold [OF f] have set_a: "set a = \<Union> {set ips | ips. Inr ips \<in> set ?rs}"
    and n: "n = length (filter isl ?rs)" by simp_all
  show "ip \<in> set desired \<longleftrightarrow> (\<exists>h \<in> set (kc_hosts cfg). \<exists>ips. fetch_ips http json rd h = Inr ips \<and> ip \<in> set ips)"
    unfolding d(1) set_a by (auto simp: image_iff) (metis)+
  show "ok \<longleftrightarrow> (\<forall>h \<in> set (kc_hosts cfg). \<not> isl (fetch_ips http json rd h))"
    unfolding d(2) n by (auto simp: filter_empty_conv)
qed

lemma list_current_props:
  assumes "kube_laws api pv" "list_current cal api s = Inr cur"
  shows "distinct (map fst cur)"
    and "(ip, e) \<in> set cur \<Longrightarrow> \<exists>p. pv s (ep_name e) = Some p \<and> managed p \<and> pool_entry cal p = Some (ip, e)"
    and "pv s n = Some p \<Longrightarrow> managed p \<Longrightarrow> pool_entry cal p = Some (ip, e) \<Longrightarrow> \<exists>e'. (ip, e') \<in> set cur"
proof -
  from assms(2) obtain items where it: "api_list api (MANAGED_BY_LABEL, MANAGED_BY_VALUE) s = Inr items"
    and cur: "cur = bt_collect (pool_entry cal) items"
    by (auto simp: list_current_def bt_collect_def split: sum.splits)
  note items = kube_lawsD(2) [OF assms(1) it]
  show "distinct (map fst cur)" unfolding cur by (rule bt_ok_distinct [OF bt_ok_collect])
  show "\<exists>p. pv s (ep_name e) = Some p \<and> managed p \<and> pool_entry cal p = Some (ip, e)" if "(ip, e) \<in> set cur"
  proof -
    from bt_collect_from [OF that [unfolded cur]] obtain p where
      p: "p \<in> set items" "pool_entry cal p = Some (ip, e)" by blast
    with items obtain n where n: "pv s n = Some p" "managed p" by blast
    have "ep_name e = n"
      using p(2) kube_lawsD(1) [OF assms(1) n(1)] by (auto simp: pool_entry_def Let_def split: option.splits)
    with n p show ?thesis by blast
  qed
  show "\<exists>e'. (ip, e') \<in> set cur" if "pv s n = Some p" "managed p" "pool_entry cal p = Some (ip, e)"
  proof -
    have "p \<in> set items" using items that by blast
    from bt_collect_has [where f = "pool_entry cal", OF this that(3)] show ?thesis unfolding cur .
  qed
qed

section \<open>Lemmas on the pass\<close>

text \<open>
  Publishing an address puts a pool with the current time under the address's name, and is otherwise as
  above.
\<close>

definition publishes :: "calendar \<Rightarrow> int \<Rightarrow> ipv4addr \<Rightarrow> (string \<Rightarrow> Pool option) \<Rightarrow> (string \<Rightarrow> Pool option) \<Rightarrow> bool" where
  "publishes cal now ip m m' \<longleftrightarrow>
     (\<exists>p. m' = m(pool_name ip \<mapsto> p) \<and> seen_at cal now p \<and> evolved (pool_name ip) (m (pool_name ip)) (Some p))"

lemma publishesI:
  "seen_at cal now p \<Longrightarrow> evolved (pool_name ip) (m (pool_name ip)) (Some p) \<Longrightarrow>
    publishes cal now ip m (m(pool_name ip \<mapsto> p))"
  unfolding publishes_def by blast

lemma touch_pool_effect:
  assumes "kube_laws api pv" "touch_pool cal api ip now s = (r, s')"
  shows "publishes cal now ip (pv s) (pv s') \<or> pv s' = pv s \<and> isl r"
proof -
  obtain q s1 where q: "api_patch api (pool_name ip) (LAST_SEEN_ANNOTATION, to_rfc3339 cal now) s = (q, s1)"
    by (cases "api_patch api (pool_name ip) (LAST_SEEN_ANNOTATION, to_rfc3339 cal now) s")
  have r: "s' = s1" "isl r = isl q" using assms(2) q by (auto simp: touch_pool_def split: sum.splits)
  from kube_lawsD(4) [OF assms(1) q] show ?thesis
  proof (elim disjE exE conjE)
    fix p
    assume p: "pv s (pool_name ip) = Some p"
      "pv s1 = (pv s)(pool_name ip \<mapsto> merge_annotation (LAST_SEEN_ANNOTATION, to_rfc3339 cal now) p)"
    have "publishes cal now ip (pv s) (pv s1)"
      unfolding p(2) by (rule publishesI [OF merge_seen]) (simp add: p(1) evolved_def same_pool_merge)
    then show ?thesis by (simp add: r)
  qed (simp add: r)
qed

lemma create_pool_effect:
  assumes "kube_laws api pv" "create_pool cal api ip now s = (r, s')"
  shows "publishes cal now ip (pv s) (pv s') \<or> pv s' = pv s \<and> isl r"
proof -
  obtain q s1 where q: "api_create api (build_pool cal ip now) s = (q, s1)"
    by (cases "api_create api (build_pool cal ip now) s")
  note laws = kube_lawsD(3) [OF assms(1) build_pool_props(1) q]
  show ?thesis
  proof (cases "q = Inl (ApiStatus 409)")
    case True
    with assms(2) q have "touch_pool cal api ip now s1 = (r, s')" by (simp add: create_pool_def)
    from touch_pool_effect [OF assms(1) this] laws True show ?thesis by auto
  next
    case False
    with assms(2) q have r: "s' = s1" "isl r = isl q" by (auto simp: create_pool_def split: sum.splits if_splits)
    from laws show ?thesis
    proof (elim disjE conjE)
      assume p: "pv s (pool_name ip) = None" "pv s1 = (pv s)(pool_name ip \<mapsto> build_pool cal ip now)"
      have "publishes cal now ip (pv s) (pv s1)"
        unfolding p(2) using build_pool_props(4)
        by (intro publishesI build_pool_props(3)) (auto simp: p(1) evolved_def)
      then show ?thesis by (simp add: r)
    qed (simp add: r)
  qed
qed

text \<open>What publishing addresses keeps: other names, what the objects are, and their times.\<close>

definition live :: "calendar \<Rightarrow> int \<Rightarrow> (string \<Rightarrow> Pool option) \<Rightarrow> string \<Rightarrow> bool" where
  "live cal now m n \<longleftrightarrow> (\<exists>p. m n = Some p \<and> seen_at cal now p)"

definition grows ::
  "calendar \<Rightarrow> int \<Rightarrow> string set \<Rightarrow> (string \<Rightarrow> Pool option) \<Rightarrow> (string \<Rightarrow> Pool option) \<Rightarrow> bool" where
  "grows cal now N m m' \<longleftrightarrow>
     (\<forall>n. n \<notin> N \<longrightarrow> m' n = m n) \<and> (\<forall>n. evolved n (m n) (m' n)) \<and>
     (\<forall>n. live cal now m n \<longrightarrow> live cal now m' n)"

lemma grows_refl: "grows cal now N m m"
  by (simp add: grows_def)

lemma grows_trans: "grows cal now N m m' \<Longrightarrow> grows cal now N' m' m'' \<Longrightarrow> grows cal now (N \<union> N') m m''"
  unfolding grows_def by (elim conjE, intro conjI) (auto intro: evolved_trans)

lemma grows_dom: "grows cal now N m m' \<Longrightarrow> m n \<noteq> None \<Longrightarrow> m' n \<noteq> None"
proof -
  assume "grows cal now N m m'" "m n \<noteq> None"
  then have "evolved n (m n) (m' n)" "m n \<noteq> None" by (simp_all add: grows_def)
  then show "m' n \<noteq> None" by (auto simp: evolved_def split: option.splits)
qed

lemma publishes_grows:
  assumes "publishes cal now ip m m'"
  shows "grows cal now {pool_name ip} m m' \<and> live cal now m' (pool_name ip)"
proof -
  from assms obtain p where p: "m' = m(pool_name ip \<mapsto> p)" "seen_at cal now p"
    "evolved (pool_name ip) (m (pool_name ip)) (Some p)" unfolding publishes_def by blast
  then show ?thesis by (auto simp: grows_def live_def)
qed

lemma publish_one:
  assumes "kube_laws api pv" "(if map_of cur ip = None then create_pool cal api ip now s else touch_pool cal api ip now s) = (r, s')"
  shows "grows cal now {pool_name ip} (pv s) (pv s') \<and> (\<not> isl r \<longrightarrow> live cal now (pv s') (pool_name ip))"
proof -
  have "publishes cal now ip (pv s) (pv s') \<or> pv s' = pv s \<and> isl r"
    using assms(2) create_pool_effect [OF assms(1)] touch_pool_effect [OF assms(1)] by (metis (full_types))
  then show ?thesis using publishes_grows [of cal now ip "pv s" "pv s'"] by (auto simp: grows_refl)
qed

lemma publish_loop_effect:
  assumes "kube_laws api pv"
  shows "publish_loop cal api cur now ips acc s = (r, s') \<Longrightarrow>
    grows cal now (pool_name ` set ips) (pv s) (pv s') \<and>
    (\<not> isl r \<longrightarrow> (\<forall>ip \<in> set ips. live cal now (pv s') (pool_name ip)))"
proof (induction ips arbitrary: acc s)
  case Nil
  then show ?case by (cases acc) (simp add: grows_refl)
next
  case (Cons ip ips)
  obtain a t where acc: "acc = (a, t)" by (cases acc)
  let ?step = "if map_of cur ip = None then create_pool cal api ip now s else touch_pool cal api ip now s"
  obtain q s1 where q: "?step = (q, s1)" by (rule prod.exhaust [of ?step])
  note one = publish_one [OF assms q]
  show ?case
  proof (cases q)
    case (Inl e)
    with Cons.prems q acc have "s' = s1" "isl r" by (auto split: option.splits if_splits)
    with one grows_trans [OF conjunct1 [OF one] grows_refl, of "pool_name ` set ips"] show ?thesis by simp
  next
    case (Inr u)
    with Cons.prems q acc obtain acc' where "publish_loop cal api cur now ips acc' s1 = (r, s')"
      by (auto split: option.splits if_splits)
    note rest = Cons.IH [OF this]
    have "grows cal now (pool_name ` set (ip # ips)) (pv s) (pv s')"
      using grows_trans [OF conjunct1 [OF one] conjunct1 [OF rest]] by simp
    moreover have "live cal now (pv s1) (pool_name ip) \<Longrightarrow> live cal now (pv s') (pool_name ip)"
      using rest by (simp add: grows_def)
    ultimately show ?thesis using one rest Inr by simp
  qed
qed

lemma delete_pool_effect:
  assumes "kube_laws api pv" "delete_pool api n s = (r, s')"
  shows "(pv s' = pv s \<or> pv s' = (pv s)(n := None)) \<and> (\<not> isl r \<longrightarrow> pv s' n = None)"
proof -
  obtain q s1 where q: "api_delete api n s = (q, s1)" by (cases "api_delete api n s")
  have "s' = s1" "isl r = (isl q \<and> q \<noteq> Inl (ApiStatus 404))"
    using assms(2) q by (auto simp: delete_pool_def split: sum.splits if_splits)
  with kube_lawsD(5) [OF assms(1) q] show ?thesis by auto
qed

definition doomed :: "ipv4addr list \<Rightarrow> bool \<Rightarrow> int \<Rightarrow> ipv4addr \<times> ExistingPool \<Rightarrow> bool" where
  "doomed desired ok thr c \<longleftrightarrow> fst c \<notin> set desired \<and> prunes ok thr (snd c)"

lemma prune_loop_effect:
  assumes "kube_laws api pv"
  shows "prune_loop api desired ok thr cur acc s = (r, s') \<Longrightarrow>
    (\<forall>n. pv s' n = pv s n \<or> pv s' n = None \<and> (\<exists>c \<in> set cur. doomed desired ok thr c \<and> n = ep_name (snd c))) \<and>
    (\<not> isl r \<longrightarrow> (\<forall>c \<in> set cur. doomed desired ok thr c \<longrightarrow> pv s' (ep_name (snd c)) = None))"
proof (induction cur arbitrary: acc s)
  case Nil
  then show ?case by (cases acc) simp
next
  case (Cons c cur)
  obtain ip e where c: "c = (ip, e)" by (rule prod.exhaust [of c])
  obtain a k where acc: "acc = (a, k)" by (cases acc)
  show ?case
  proof (cases "doomed desired ok thr c")
    case False
    with Cons.prems c acc obtain acc' where "prune_loop api desired ok thr cur acc' s = (r, s')"
      by (auto simp: doomed_def split: if_splits)
    from Cons.IH [OF this] False show ?thesis by auto
  next
    case True
    obtain q s1 where q: "delete_pool api (ep_name e) s = (q, s1)" by (cases "delete_pool api (ep_name e) s")
    note del = delete_pool_effect [OF assms q]
    have one: "pv s1 n = pv s n \<or> pv s1 n = None \<and> n = ep_name (snd c)" for n
      using del c by (cases "n = ep_name e") auto
    show ?thesis
    proof (cases q)
      case (Inl u)
      with Cons.prems True q c acc have "s' = s1" "isl r" by (auto simp: doomed_def)
      with one True show ?thesis by (metis list.set_intros(1))
    next
      case (Inr u)
      with Cons.prems True q c acc obtain acc' where "prune_loop api desired ok thr cur acc' s1 = (r, s')"
        by (auto simp: doomed_def)
      note rest = Cons.IH [OF this]
      have "pv s1 (ep_name (snd c)) = None" using del Inr c by simp
      then have "pv s' (ep_name (snd c)) = None" using rest by metis
      then have "\<not> isl r \<longrightarrow> (\<forall>c \<in> set (c # cur). doomed desired ok thr c \<longrightarrow> pv s' (ep_name (snd c)) = None)"
        using rest by simp
      moreover have "pv s' n = pv s n \<or> pv s' n = None \<and> (\<exists>c \<in> set (c # cur). doomed desired ok thr c \<and> n = ep_name (snd c))" for n
        using one [of n] rest True by (metis list.set_intros)
      ultimately show ?thesis by blast
    qed
  qed
qed

lemma reconcile_cases:
  assumes "k8s_reconcile_once http json rd cal api cfg now s = (r, s')"
    and "collect_desired http json rd cfg = (desired, ok, errs)"
  obtains "s' = s" "isl r"
  | cur thr r1 s1 where "list_current cal api s = Inr cur"
      "sub_seconds cal now (as_i64 (kc_stale_after_secs cfg)) = Some thr"
      "publish_loop cal api cur now desired (0, 0) s = (r1, s1)" "isl r1" "s' = s1" "isl r"
  | cur thr r1 s1 r2 where "list_current cal api s = Inr cur"
      "sub_seconds cal now (as_i64 (kc_stale_after_secs cfg)) = Some thr"
      "publish_loop cal api cur now desired (0, 0) s = (r1, s1)" "\<not> isl r1"
      "prune_loop api desired ok thr cur (0, 0) s1 = (r2, s')" "isl r = isl r2"
proof (cases "list_current cal api s")
  case (Inl e)
  with assms have "s' = s" "isl r" by (auto simp: k8s_reconcile_once_def)
  with that(1) show ?thesis by simp
next
  case cur: (Inr cur)
  show ?thesis
  proof (cases "sub_seconds cal now (as_i64 (kc_stale_after_secs cfg))")
    case None
    with assms cur have "s' = s" "isl r" by (auto simp: k8s_reconcile_once_def)
    with that(1) show ?thesis by simp
  next
    case (Some thr)
    obtain r1 s1 where p1: "publish_loop cal api cur now desired (0, 0) s = (r1, s1)"
      by (rule prod.exhaust [of "publish_loop cal api cur now desired (0, 0) s"])
    show ?thesis
    proof (cases r1)
      case (Inl e)
      with assms cur Some p1 have "s' = s1" "isl r" by (auto simp: k8s_reconcile_once_def)
      with that(2) [OF cur Some p1] Inl show ?thesis by simp
    next
      case (Inr c)
      obtain r2 s2 where p2: "prune_loop api desired ok thr cur (0, 0) s1 = (r2, s2)"
        by (rule prod.exhaust [of "prune_loop api desired ok thr cur (0, 0) s1"])
      with assms cur Some p1 Inr have "s' = s2" "isl r = isl r2"
        by (cases c; cases r2; auto simp: k8s_reconcile_once_def)+
      with that(3) [OF cur Some p1] Inr p2 show ?thesis by simp
    qed
  qed
qed

text \<open>
  The bits of a duration above the signed range read as a negative number: a configuration that asks
  to keep pools of silent daemons for the longest time is accepted, and makes every pool stale at once.
\<close>

lemma longest_stale_prunes_at_once:
  assumes "check_hosts [] hosts = Inr ()" "hosts \<noteq> []" "\<And>t n. sub_seconds cal t n = Some (t - n)"
  shows "\<exists>cfg thr. k_check cfg = Inr cfg \<and> kc_hosts cfg = hosts \<and> kc_stale_after_secs cfg = -1 \<and>
    sub_seconds cal now (as_i64 (kc_stale_after_secs cfg)) = Some thr \<and>
    prunes False thr \<lparr>ep_name = n, ep_last_seen = Some now\<rparr>"
proof -
  let ?cfg = "\<lparr>kc_refresh_interval_secs = k_default_refresh, kc_stale_after_secs = -1, kc_hosts = hosts\<rparr>"
  have "k_check ?cfg = Inr ?cfg" using assms(1,2) by (simp add: k_check_def k_default_refresh_def flip: not_le)
  then show ?thesis using assms(3) by (intro exI [of _ ?cfg] exI [of _ "now + 1"]) (simp add: as_i64_def prunes_def)
qed

lemma successful_pass:
  assumes laws: "kube_laws api pv" and run: "k8s_reconcile_once http json rd cal api cfg now s = (Inr st, s')"
    and coll: "collect_desired http json rd cfg = (desired, ok, errs)"
  obtains cur thr s1 where "list_current cal api s = Inr cur"
    "grows cal now (pool_name ` set desired) (pv s) (pv s1)"
    "\<forall>ip \<in> set desired. live cal now (pv s1) (pool_name ip)"
    "\<forall>n. pv s' n = pv s1 n \<or> pv s' n = None \<and> (\<exists>c \<in> set cur. doomed desired ok thr c \<and> n = ep_name (snd c))"
    "\<forall>c \<in> set cur. doomed desired ok thr c \<longrightarrow> pv s' (ep_name (snd c)) = None"
proof -
  obtain cur thr r1 s1 r2 where cur: "list_current cal api s = Inr cur"
    and pub: "publish_loop cal api cur now desired (0, 0) s = (r1, s1)" "\<not> isl r1"
    and prune: "prune_loop api desired ok thr cur (0, 0) s1 = (r2, s')" "\<not> isl r2"
    by (rule reconcile_cases [OF run coll]) auto
  note pub = publish_loop_effect [OF laws pub(1)] pub(2)
  note prune = prune_loop_effect [OF laws prune(1)] prune(2)
  show ?thesis using that [OF cur, of s1 thr] pub prune by blast
qed

text \<open>A published address has its pool, unless the name was taken by a pool that is not the program's.\<close>

lemma published_is_pool:
  assumes ok: "pools_ok m" and ev: "evolved (pool_name ip) (m (pool_name ip)) (Some p)"
  shows "pool_for ip p \<or>
    (\<exists>p0. m (pool_name ip) = Some p0 \<and> \<not> (managed p0 \<and> pool_ip p0 \<noteq> None) \<and> same_pool p0 p)"
proof (cases "m (pool_name ip)")
  case None
  with ev show ?thesis by (auto simp: evolved_def)
next
  case (Some p0)
  with ev have same: "same_pool p0 p" by (simp add: evolved_def)
  have "pool_for ip p" if "managed p0" "pool_ip p0 = Some ip'" for ip'
  proof -
    have "pool_name ip = pool_name ip' \<and> pool_for ip' p0" using ok Some that unfolding pools_ok_def by blast
    with same show ?thesis by (auto intro: same_pool_for)
  qed
  with Some same show ?thesis by auto
qed

section \<open>A cluster that meets the laws\<close>

type_synonym sim_cluster = "(string \<times> Pool) list"

definition sim_pools :: "sim_cluster \<Rightarrow> string \<Rightarrow> Pool option" where
  "sim_pools s n =
     (case map_of s n of Some p \<Rightarrow> if m_name (p_metadata p) = Some n then Some p else None | None \<Rightarrow> None)"

definition sim_kube :: "sim_cluster kube_api" where
  "sim_kube =
     \<lparr>api_list = (\<lambda>sel s. Inr (filter (has_label sel) (List.map_filter (sim_pools s) (map fst s)))),
      api_create = (\<lambda>p s. case m_name (p_metadata p) of
         None \<Rightarrow> (Inl OtherKube, s)
       | Some n \<Rightarrow> if sim_pools s n = None then (Inr (), (n, p) # s) else (Inl (ApiStatus 409), s)),
      api_patch = (\<lambda>n kv s. case sim_pools s n of
         None \<Rightarrow> (Inl (ApiStatus 404), s)
       | Some p \<Rightarrow> (Inr (), (n, merge_annotation kv p) # s)),
      api_delete = (\<lambda>n s. if sim_pools s n = None then (Inl (ApiStatus 404), s)
         else (Inr (), filter (\<lambda>(k, _). k \<noteq> n) s))\<rparr>"

lemma merge_name [simp]: "m_name (p_metadata (merge_annotation kv p)) = m_name (p_metadata p)"
  by (simp add: merge_annotation_def)

lemma sim_pools_name: "sim_pools s n = Some p \<Longrightarrow> m_name (p_metadata p) = Some n"
  by (auto simp: sim_pools_def split: option.splits if_splits)

lemma sim_pools_cons:
  "m_name (p_metadata p) = Some n \<Longrightarrow> sim_pools ((n, p) # s) = (sim_pools s)(n \<mapsto> p)"
  by (auto simp: sim_pools_def fun_eq_iff)

lemma sim_pools_del: "sim_pools (filter (\<lambda>(k, _). k \<noteq> n) s) = (sim_pools s)(n := None)"
proof -
  have "map_of (filter (\<lambda>(k, _). k \<noteq> n) s) = (map_of s)(n := None)" by (induction s) (auto simp: fun_eq_iff)
  then show ?thesis by (auto simp: sim_pools_def fun_eq_iff)
qed

lemma sim_pools_list: "set (List.map_filter (sim_pools s) (map fst s)) = {p. \<exists>n. sim_pools s n = Some p}"
proof -
  have "n \<in> fst ` set s" if "sim_pools s n = Some p" for n p
    using that by (auto simp: sim_pools_def split: option.splits dest!: map_of_SomeD) force
  then show ?thesis by (force simp: List.map_filter_def)
qed

lemma sim_kube_laws: "kube_laws sim_kube sim_pools"
  unfolding kube_laws_def
  by (auto simp: sim_kube_def sim_pools_name sim_pools_cons sim_pools_del sim_pools_list
      split: option.splits if_splits)

definition sim_calendar :: calendar where
  "sim_calendar = \<lparr>sub_seconds = (\<lambda>t n. Some (t - n)), to_rfc3339 = (\<lambda>t. dec (nat t)),
     parse_rfc3339 = (\<lambda>s. Some (int (dec_val s)))\<rparr>"

text \<open>One daemon that leases one address, and a cluster with a managed pool for another one.\<close>

definition sim_hosts :: "(string, string) KConfig" where
  "sim_hosts = \<lparr>kc_refresh_interval_secs = k_default_refresh, kc_stale_after_secs = k_default_stale,
     kc_hosts = [\<lparr>h_name = ''edge'', h_url = ''u1'', h_auth_token_file = ''f''\<rparr>]\<rparr>"

definition sim_http :: "(string, string) http_env" where
  "sim_http = \<lparr>url_join = (\<lambda>u p. Some u), send_get = (\<lambda>u t. Some u), error_for_status = Some\<rparr>"

definition sim_json :: "string \<Rightarrow> LeasesResponse option" where
  "sim_json u = Some \<lparr>lr_ips = [Ipv4Addr_to_string (1, 2, 3, 4)], lr_dumbarpd_id = None\<rparr>"

definition sim_tokens :: "string \<Rightarrow> string option" where
  "sim_tokens f = Some ''tok''"

definition old_pool :: sim_cluster where
  "old_pool = [(pool_name (5, 6, 7, 8), build_pool sim_calendar (5, 6, 7, 8) 0)]"

lemma sim_fetch:
  "fetch_ips sim_http sim_json sim_tokens \<lparr>h_name = ''edge'', h_url = ''u1'', h_auth_token_file = ''f''\<rparr> = Inr [(1, 2, 3, 4)]"
  by (simp add: fetch_ips_def read_token_def sim_tokens_def trim_def is_space_def fetch_leases_def get_json_def
      sim_http_def sim_json_def LeasesResponse_parse_def parse_ips_def del: Ipv4Addr_to_string.simps)

lemma sim_collect: "collect_desired sim_http sim_json sim_tokens sim_hosts = ([(1, 2, 3, 4)], True, 0)"
  by (simp add: collect_desired_def sim_hosts_def sim_fetch collect_step_def insort_insert_key_def)

lemma old_pool_pools:
  "sim_pools old_pool n =
     (if n = pool_name (5, 6, 7, 8) then Some (build_pool sim_calendar (5, 6, 7, 8) 0) else None)"
  using build_pool_props(1) [of sim_calendar "(5, 6, 7, 8)" 0] by (simp add: sim_pools_def old_pool_def)

lemma old_pool_ok: "pools_ok (sim_pools old_pool)"
  unfolding pools_ok_def old_pool_pools
  using build_pool_props(4) [of "(5, 6, 7, 8)" sim_calendar 0] pool_for_ip by (auto split: if_splits)

lemma sim_pass:
  "\<exists>st. k8s_reconcile_once sim_http sim_json sim_tokens sim_calendar sim_kube sim_hosts 1000 old_pool =
     (Inr st, [(pool_name (1, 2, 3, 4), build_pool sim_calendar (1, 2, 3, 4) 1000)])"
proof -
  let ?old = "build_pool sim_calendar (5, 6, 7, 8) 0" and ?new = "build_pool sim_calendar (1, 2, 3, 4) 1000"
  note bp = build_pool_props [where cal = sim_calendar and ip = "(5, 6, 7, 8)" and now = 0]
    build_pool_props [where cal = sim_calendar and ip = "(1, 2, 3, 4)" and now = 1000]
  obtain e where e: "pool_entry sim_calendar ?old = Some ((5, 6, 7, 8), e)"
    using pool_ip_entry pool_for_ip [OF bp(4)] by blast
  have "map fst old_pool = [pool_name (5, 6, 7, 8)]" by (simp add: old_pool_def)
  then have "List.map_filter (sim_pools old_pool) (map fst old_pool) = [?old]"
    by (simp add: old_pool_pools)
  then have cur: "list_current sim_calendar sim_kube old_pool = Inr [((5, 6, 7, 8), e)]"
    using bp(2) by (simp add: list_current_def sim_kube_def e)
  have en: "ep_name e = pool_name (5, 6, 7, 8)"
    using list_current_props(2) [OF sim_kube_laws cur, of "(5, 6, 7, 8)" e]
    by (auto simp: old_pool_pools split: if_splits)
  let ?s1 = "(pool_name (1, 2, 3, 4), ?new) # old_pool"
  have create: "create_pool sim_calendar sim_kube (1, 2, 3, 4) 1000 old_pool = (Inr (), ?s1)"
    using bp(5) by (simp add: create_pool_def sim_kube_def old_pool_pools)
  have "sim_pools ?s1 (pool_name (5, 6, 7, 8)) = Some ?old"
    using bp(5) by (simp add: sim_pools_cons old_pool_pools)
  then have "delete_pool sim_kube (pool_name (5, 6, 7, 8)) ?s1 = (Inr (), [(pool_name (1, 2, 3, 4), ?new)])"
    by (simp add: delete_pool_def sim_kube_def old_pool_def)
  moreover have "sub_seconds sim_calendar t n = Some (t - n)" for t n by (simp add: sim_calendar_def)
  ultimately show ?thesis by (simp add: k8s_reconcile_once_def sim_collect cur create en prunes_def)
qed

section \<open>Properties\<close>

text \<open>
  C36. A pool disappears only for cause. Whatever a pass does, including when it fails half way, a
  pool that is gone afterwards was managed by this program, its address was in no answer of this pass,
  and either every daemon answered or the pool's last sighting is missing or older than the threshold.
\<close>

theorem pool_removed_for_cause:
  assumes laws: "kube_laws api pv" and run: "k8s_reconcile_once http json rd cal api cfg now s = (r, s')"
    and p: "pv s n = Some p" and gone: "pv s' n = None"
  shows "managed p \<and> (\<exists>ip e. pool_entry cal p = Some (ip, e) \<and>
    (\<forall>h \<in> set (kc_hosts cfg). \<forall>ips. fetch_ips http json rd h = Inr ips \<longrightarrow> ip \<notin> set ips) \<and>
    ((\<forall>h \<in> set (kc_hosts cfg). \<not> isl (fetch_ips http json rd h)) \<or> ep_last_seen e = None \<or>
     (\<exists>t thr. ep_last_seen e = Some t \<and> sub_seconds cal now (as_i64 (kc_stale_after_secs cfg)) = Some thr \<and> t < thr)))"
proof -
  obtain desired ok errs where coll: "collect_desired http json rd cfg = (desired, ok, errs)"
    by (rule prod_cases3 [of "collect_desired http json rd cfg"])
  note des = collect_desired_eq [OF coll]
  show ?thesis
  proof (rule reconcile_cases [OF run coll])
    assume "s' = s"
    then show ?thesis using p gone by simp
  next
    fix cur thr r1 s1
    assume "publish_loop cal api cur now desired (0, 0) s = (r1, s1)" "s' = s1"
    with publish_loop_effect [OF laws] have "grows cal now (pool_name ` set desired) (pv s) (pv s')" by blast
    from grows_dom [OF this, of n] show ?thesis using p gone by simp
  next
    fix cur thr r1 s1 r2
    assume cur: "list_current cal api s = Inr cur"
      and thr: "sub_seconds cal now (as_i64 (kc_stale_after_secs cfg)) = Some thr"
      and pub: "publish_loop cal api cur now desired (0, 0) s = (r1, s1)"
      and prune: "prune_loop api desired ok thr cur (0, 0) s1 = (r2, s')"
    have "pv s1 n \<noteq> None"
      by (rule grows_dom [OF conjunct1 [OF publish_loop_effect [OF laws pub]]]) (simp add: p)
    with gone prune_loop_effect [OF laws prune] obtain c where c: "c \<in> set cur" "doomed desired ok thr c"
      "n = ep_name (snd c)" by metis
    obtain ip e where ce: "c = (ip, e)" by (rule prod.exhaust [of c])
    from list_current_props(2) [OF laws cur c(1) [unfolded ce]] c(3) ce p
    have entry: "managed p" "pool_entry cal p = Some (ip, e)" by auto
    have no: "ip \<notin> set desired" and pr: "prunes ok thr e" using c(2) by (simp_all add: doomed_def ce)
    have "ok \<or> ep_last_seen e = None \<or> (\<exists>t. ep_last_seen e = Some t \<and> t < thr)"
      using pr by (auto simp: prunes_def split: if_splits option.splits)
    with entry no thr show ?thesis unfolding des by blast
  qed
qed

theorem pool_removed_for_cause_witness:
  "managed (build_pool sim_calendar (5, 6, 7, 8) 0) \<and>
   sim_pools [(pool_name (1, 2, 3, 4), build_pool sim_calendar (1, 2, 3, 4) 1000)] (pool_name (5, 6, 7, 8)) = None"
proof -
  obtain st where run: "k8s_reconcile_once sim_http sim_json sim_tokens sim_calendar sim_kube sim_hosts 1000 old_pool =
     (Inr st, [(pool_name (1, 2, 3, 4), build_pool sim_calendar (1, 2, 3, 4) 1000)])" using sim_pass by blast
  have gone: "sim_pools [(pool_name (1, 2, 3, 4), build_pool sim_calendar (1, 2, 3, 4) 1000)] (pool_name (5, 6, 7, 8)) = None"
    by (simp add: sim_pools_def)
  have "sim_pools old_pool (pool_name (5, 6, 7, 8)) = Some (build_pool sim_calendar (5, 6, 7, 8) 0)"
    by (simp add: old_pool_pools)
  from pool_removed_for_cause [OF sim_kube_laws run this gone] gone show ?thesis by simp
qed

text \<open>
  C37. A successful pass publishes the leases. Let every managed pool that says what address it is for be
  the pool of that address (\<open>pools_ok\<close>, which holds of a cluster without such pools and which the pass
  keeps). When a pass ends without an error, every address a daemon answered with has a pool under its
  name, stamped with the time of the pass, and it is the pool of the address, whose only block is the
  address with \<open>/32\<close>. The exception is a pool that had that name before and is not the program's (not
  labelled, or without a readable address): it is stamped and otherwise left as it was. When every daemon
  answered, no managed pool that says it is for another address is left.
\<close>

theorem pass_publishes_leases:
  assumes laws: "kube_laws api pv" and run: "k8s_reconcile_once http json rd cal api cfg now s = (Inr st, s')"
    and ok0: "pools_ok (pv s)"
  shows "pools_ok (pv s') \<and>
    (\<forall>h \<in> set (kc_hosts cfg). \<forall>ips ip. fetch_ips http json rd h = Inr ips \<and> ip \<in> set ips \<longrightarrow>
       (\<exists>p. pv s' (pool_name ip) = Some p \<and> seen_at cal now p \<and>
          (pool_for ip p \<or>
           (\<exists>p0. pv s (pool_name ip) = Some p0 \<and> \<not> (managed p0 \<and> pool_ip p0 \<noteq> None) \<and> same_pool p0 p)))) \<and>
    ((\<forall>h \<in> set (kc_hosts cfg). \<not> isl (fetch_ips http json rd h)) \<longrightarrow>
       (\<forall>n p ip. pv s' n = Some p \<and> managed p \<and> pool_ip p = Some ip \<longrightarrow>
          (\<exists>h \<in> set (kc_hosts cfg). \<exists>ips. fetch_ips http json rd h = Inr ips \<and> ip \<in> set ips)))"
proof -
  obtain desired ok errs where coll: "collect_desired http json rd cfg = (desired, ok, errs)"
    by (rule prod_cases3 [of "collect_desired http json rd cfg"])
  note des = collect_desired_eq [OF coll]
  obtain cur thr s1 where cur: "list_current cal api s = Inr cur"
    and g: "grows cal now (pool_name ` set desired) (pv s) (pv s1)"
    and lv: "\<forall>ip \<in> set desired. live cal now (pv s1) (pool_name ip)"
    and pe: "\<forall>n. pv s' n = pv s1 n \<or> pv s' n = None \<and> (\<exists>c \<in> set cur. doomed desired ok thr c \<and> n = ep_name (snd c))"
    and gone: "\<forall>c \<in> set cur. doomed desired ok thr c \<longrightarrow> pv s' (ep_name (snd c)) = None"
    by (rule successful_pass [OF laws run coll]) blast
  then have ev: "\<forall>n. evolved n (pv s n) (pv s1 n)" by (simp add: grows_def)
  have ok1: "pools_ok (pv s1)" by (rule evolved_ok [OF ev ok0])
  have sub: "pv s1 n = Some p" if "pv s' n = Some p" for n p using pe that by (metis option.distinct(1))
  have ok': "pools_ok (pv s')" using ok1 sub unfolding pools_ok_def by blast
  have cname: "ep_name e = pool_name ip" if "(ip, e) \<in> set cur" for ip e
    using list_current_props(2) [OF laws cur that] ok0 pool_entry_Some unfolding pools_ok_def by blast
  have "\<exists>p. pv s' (pool_name ip) = Some p \<and> seen_at cal now p \<and>
      (pool_for ip p \<or> (\<exists>p0. pv s (pool_name ip) = Some p0 \<and> \<not> (managed p0 \<and> pool_ip p0 \<noteq> None) \<and> same_pool p0 p))"
    if ip: "ip \<in> set desired" for ip
  proof -
    have "pool_name ip \<noteq> ep_name (snd c)" if "c \<in> set cur" "doomed desired ok thr c" for c
      using that ip cname [of "fst c" "snd c"] by (auto simp: doomed_def)
    then have "pv s' (pool_name ip) = pv s1 (pool_name ip)" using pe by metis
    with lv ip obtain p where p: "pv s' (pool_name ip) = Some p" "seen_at cal now p"
      "pv s1 (pool_name ip) = Some p" by (auto simp: live_def)
    with ev have "evolved (pool_name ip) (pv s (pool_name ip)) (Some p)" by metis
    with published_is_pool [OF ok0 this] p show ?thesis by blast
  qed
  moreover have "ip \<in> set desired"
    if ok and p: "pv s' n = Some p" "managed p" "pool_ip p = Some ip" for n p ip
  proof (rule ccontr)
    assume no: "ip \<notin> set desired"
    have n: "n = pool_name ip" using ok' p unfolding pools_ok_def by blast
    then have "n \<notin> pool_name ` set desired" using no by auto
    then have "pv s n = Some p" using g sub [OF p(1)] by (simp add: grows_def)
    with list_current_props(3) [OF laws cur this p(2)] pool_ip_entry [OF p(3), of cal]
    obtain e' where e': "(ip, e') \<in> set cur" by blast
    have "doomed desired ok thr (ip, e')" using no \<open>ok\<close> by (simp add: doomed_def prunes_def)
    then show False using gone e' cname [OF e'] n p(1) by force
  qed
  ultimately show ?thesis using ok' unfolding des by blast
qed

theorem pass_publishes_leases_witness:
  "\<exists>st s' p. k8s_reconcile_once sim_http sim_json sim_tokens sim_calendar sim_kube sim_hosts 1000 old_pool = (Inr st, s') \<and>
     sim_pools s' (pool_name (1, 2, 3, 4)) = Some p \<and> seen_at sim_calendar 1000 p \<and>
     p_blocks p = [Some ''1.2.3.4/32''] \<and>
     (\<nexists>n q. sim_pools s' n = Some q \<and> managed q \<and> pool_ip q = Some (5, 6, 7, 8))"
proof -
  obtain st s' where run: "k8s_reconcile_once sim_http sim_json sim_tokens sim_calendar sim_kube sim_hosts 1000 old_pool =
     (Inr st, s')" using sim_pass by blast
  have h: "kc_hosts sim_hosts = [\<lparr>h_name = ''edge'', h_url = ''u1'', h_auth_token_file = ''f''\<rparr>]"
    by (simp add: sim_hosts_def)
  note th = pass_publishes_leases [OF sim_kube_laws run old_pool_ok, unfolded h list.set ball_simps sim_fetch, simplified]
  obtain p where p: "sim_pools s' (pool_name (1, 2, 3, 4)) = Some p" "seen_at sim_calendar 1000 p" "pool_for (1, 2, 3, 4) p"
    using th by (auto simp: old_pool_pools)
  have "Ipv4Addr_to_string (1, 2, 3, 4) = ''1.2.3.4''" by code_simp
  with p(3) have "p_blocks p = [Some ''1.2.3.4/32'']" by (simp add: pool_for_def del: Ipv4Addr_to_string.simps)
  moreover have "\<nexists>n q. sim_pools s' n = Some q \<and> managed q \<and> pool_ip q = Some (5, 6, 7, 8)"
  proof (intro notI, elim exE conjE)
    fix n q
    assume "sim_pools s' n = Some q" "managed q" "pool_ip q = Some (5, 6, 7, 8)"
    moreover from th have "\<forall>n q a b c d. sim_pools s' n = Some q \<and> managed q \<and> pool_ip q = Some (a, b, c, d) \<longrightarrow> a = 1"
      by (simp add: sim_fetch)
    ultimately have "(5 :: u8) = 1" by blast
    then show False by simp
  qed
  ultimately show ?thesis using run p by blast
qed

end
