(* ===== verification/K8s_Main.thy ===== *)
theory K8s_Main
  imports K8s Lifecycle
begin

text \<open>
  The life of the Kubernetes replicator, \<open>src/dumbarp-k8s/src/main.rs\<close> and \<open>spawn\<close> of \<open>reconcile.rs\<close>: a pass at
  once, then one per tick; the first tick comes at once, so the first two passes follow each other.
\<close>

section \<open>Definitions\<close>

record ('url, 'resp, 'path) k8s_world =
  kw_http :: "('url, 'resp) http_env"
  kw_json :: "'resp \<Rightarrow> LeasesResponse option"
  kw_read_to_string :: "'path \<Rightarrow> string option"
  kw_now :: int

text \<open>
  A pass in which the calendar arithmetic overflows panics. The panic of a pass of the timer task ends the
  task: \<open>running\<close> says whether it has not. The panic of the first pass, which \<open>main\<close> makes itself, ends \<open>main\<close>.
\<close>

definition k8s_pass ::
  "calendar \<Rightarrow> 's kube_api \<Rightarrow> ('url, 'path) KConfig \<Rightarrow> ('url, 'resp, 'path) k8s_world \<Rightarrow> 's \<Rightarrow> bool \<times> 's" where
  "k8s_pass cal api cfg w s =
     (case k8s_reconcile_once (kw_http w) (kw_json w) (kw_read_to_string w) cal api cfg (kw_now w) s of
        (r, s') \<Rightarrow> (r \<noteq> Inl CalendarOverflow, s'))"

definition k8s_tick ::
  "calendar \<Rightarrow> 's kube_api \<Rightarrow> ('url, 'path) KConfig \<Rightarrow> ('url, 'resp, 'path) k8s_world \<Rightarrow> bool \<times> 's \<Rightarrow> bool \<times> 's" where
  "k8s_tick cal api cfg w x =
     (case x of (running, s) \<Rightarrow> if running then k8s_pass cal api cfg w s else (running, s))"

text \<open>The timer task: any other error of a pass is logged and the next tick comes all the same.\<close>

fun k8s_ticks ::
  "calendar \<Rightarrow> 's kube_api \<Rightarrow> ('url, 'path) KConfig \<Rightarrow> ('url, 'resp, 'path) k8s_world list \<Rightarrow> bool \<times> 's \<Rightarrow> bool \<times> 's" where
  "k8s_ticks cal api cfg [] x = x"
| "k8s_ticks cal api cfg (w # ws) x = k8s_ticks cal api cfg ws (k8s_tick cal api cfg w x)"

datatype k8s_start_error = KsConfig kconfig_error | KsNoClient | KsNoCluster | KsPanicked | KsSignal

definition k8s_main ::
  "calendar \<Rightarrow> kconfig_error + ('url, 'path) KConfig \<Rightarrow> unit + unit \<Rightarrow> unit + 's kube_api \<Rightarrow>
     ('url, 'resp, 'path) k8s_world \<Rightarrow> ('url, 'resp, 'path) k8s_world list \<Rightarrow> unit + unit \<Rightarrow> 's \<Rightarrow> (k8s_start_error + unit) \<times> 's" where
  "k8s_main cal config client kube first ticks ctrl_c s =
     (case config of
        Inl e \<Rightarrow> (Inl (KsConfig e), s)
      | Inr cfg \<Rightarrow>
          (case client of
             Inl _ \<Rightarrow> (Inl KsNoClient, s)
           | Inr _ \<Rightarrow>
               (case kube of
                  Inl _ \<Rightarrow> (Inl KsNoCluster, s)
                | Inr api \<Rightarrow>
                    (case k8s_pass cal api cfg first s of
                       (False, s1) \<Rightarrow> (Inl KsPanicked, s1)
                     | (True, s1) \<Rightarrow>
                         (map_sum (\<lambda>_. KsSignal) id ctrl_c, snd (k8s_ticks cal api cfg ticks (True, s1)))))))"

section \<open>What the program may do to a pool that is not its own\<close>

definition keeps_foreign :: "(string \<Rightarrow> Pool option) \<Rightarrow> (string \<Rightarrow> Pool option) \<Rightarrow> bool" where
  "keeps_foreign m m' \<longleftrightarrow>
     (\<forall>n p. m n = Some p \<and> \<not> managed p \<longrightarrow>
        (\<exists>q. m' n = Some q \<and> same_pool p q \<and> (n \<notin> range pool_name \<longrightarrow> q = p)))"

lemma keeps_foreign_refl [simp]: "keeps_foreign m m"
  by (simp add: keeps_foreign_def)

lemma keeps_foreignE:
  assumes "keeps_foreign m m'" "m n = Some p" "\<not> managed p"
  obtains q where "m' n = Some q" "same_pool p q" "n \<notin> range pool_name \<longrightarrow> q = p" "\<not> managed q"
  using assms same_pool_managed unfolding keeps_foreign_def by blast

lemma keeps_foreign_trans:
  assumes "keeps_foreign m m'" "keeps_foreign m' m''"
  shows "keeps_foreign m m''"
  unfolding keeps_foreign_def
proof (intro allI impI, elim conjE)
  fix n p
  assume "m n = Some p" "\<not> managed p"
  then obtain q where q: "m' n = Some q" "same_pool p q" "n \<notin> range pool_name \<longrightarrow> q = p" "\<not> managed q"
    by (rule keeps_foreignE [OF assms(1)])
  obtain r where r: "m'' n = Some r" "same_pool q r" "n \<notin> range pool_name \<longrightarrow> r = q"
    by (rule keeps_foreignE [OF assms(2) q(1,4)])
  have "same_pool p r" using q(2) r(2) by (rule same_pool_trans)
  with q(3) r(1,3) show "\<exists>q. m'' n = Some q \<and> same_pool p q \<and> (n \<notin> range pool_name \<longrightarrow> q = p)" by simp
qed

lemma grows_keeps_foreign:
  assumes "grows cal now N m m'"
  shows "keeps_foreign m m'"
  unfolding keeps_foreign_def
proof (intro allI impI, elim conjE)
  fix n p
  assume "m n = Some p"
  moreover have "evolved n (m n) (m' n)" using assms by (simp add: grows_def)
  ultimately show "\<exists>q. m' n = Some q \<and> same_pool p q \<and> (n \<notin> range pool_name \<longrightarrow> q = p)"
    by (cases "m' n") (simp_all add: evolved_def)
qed

lemma pass_keeps_foreign:
  assumes "kube_laws api pv"
  shows "keeps_foreign (pv s) (pv (snd (k8s_pass cal api cfg w s)))"
proof -
  obtain r s' where run: "k8s_reconcile_once (kw_http w) (kw_json w) (kw_read_to_string w) cal api cfg (kw_now w) s = (r, s')"
    by (rule prod.exhaust)
  obtain desired ok errs where coll: "collect_desired (kw_http w) (kw_json w) (kw_read_to_string w) cfg = (desired, ok, errs)"
    by (rule prod_cases3)
  have "keeps_foreign (pv s) (pv s')"
  proof (rule reconcile_cases [OF run coll])
    fix cur thr r1 s1 r2
    assume cur: "list_current cal api s = Inr cur"
      and pub: "publish_loop cal api cur (kw_now w) desired (0, 0) s = (r1, s1)"
      and prune: "prune_loop api desired ok thr cur (0, 0) s1 = (r2, s')"
    note kept = grows_keeps_foreign [OF conjunct1 [OF publish_loop_effect [OF assms pub]]]
    have "pv s' n = pv s1 n" if "pv s n = Some p" "\<not> managed p" for n p
      using prune_loop_effect [OF assms prune] list_current_props(2) [OF assms cur] that
      by (metis option.inject prod.collapse)
    with kept show ?thesis unfolding keeps_foreign_def by metis
  qed (use publish_loop_effect [OF assms] grows_keeps_foreign in \<open>simp, blast\<close>)
  then show ?thesis by (simp add: k8s_pass_def run)
qed

text \<open>Only the calendar arithmetic overflows, and that is before the first request that changes anything.\<close>

lemma request_no_overflow [simp]:
  "create_pool cal api ip now s \<noteq> (Inl CalendarOverflow, s')"
  "touch_pool cal api ip now s \<noteq> (Inl CalendarOverflow, s')"
  "delete_pool api n s \<noteq> (Inl CalendarOverflow, s')"
  by (auto simp: create_pool_def touch_pool_def delete_pool_def split: prod.split sum.split)

lemma publish_loop_no_overflow [simp]: "publish_loop cal api cur now ips acc s \<noteq> (Inl CalendarOverflow, s')"
proof (induction ips arbitrary: acc s)
  case (Cons ip ips)
  then show ?case
    by (cases acc; cases "create_pool cal api ip now s"; cases "touch_pool cal api ip now s")
      (auto split: option.split sum.split)
qed (simp add: split_paired_all)

lemma prune_loop_no_overflow [simp]: "prune_loop api desired ok thr cur acc s \<noteq> (Inl CalendarOverflow, s')"
proof (induction cur arbitrary: acc s)
  case (Cons c cur)
  then show ?case
    by (cases acc; cases c; cases "delete_pool api (ep_name (snd c)) s") (auto split: sum.split)
qed (simp add: split_paired_all)

lemma k8s_pass_panicked:
  assumes "k8s_pass cal api cfg w s = (False, s')"
  shows "s' = s"
proof -
  have "k8s_reconcile_once (kw_http w) (kw_json w) (kw_read_to_string w) cal api cfg (kw_now w) s = (Inl CalendarOverflow, s')"
    using assms by (simp add: k8s_pass_def split: prod.splits)
  then show ?thesis
    by (auto simp: k8s_reconcile_once_def split: prod.splits sum.splits option.splits)
qed

lemma tick_keeps_foreign:
  "kube_laws api pv \<Longrightarrow> keeps_foreign (pv (snd x)) (pv (snd (k8s_tick cal api cfg w x)))"
  using pass_keeps_foreign [of api pv "snd x" cal cfg w] by (cases x) (simp add: k8s_tick_def)

interpretation k8s_ticks: tick_loop "k8s_tick cal api cfg" "k8s_ticks cal api cfg"
  "\<lambda>w. kube_laws api pv" "\<lambda>x. keeps_foreign (pv s0) (pv (snd x))" for cal api cfg pv s0
  by unfold_locales (auto intro: keeps_foreign_trans tick_keeps_foreign)

section \<open>Properties\<close>

text \<open>
  C38. The replicator leaves the pools of others in the cluster. Over a whole run of any number of passes,
  successful or failed half way, a pool without the program's label is never removed, and its blocks,
  its labels and its annotations stay as they are, except that the time of the last sighting may be written to a
  pool whose name is the one the program gives to an address; a pool with any other name is not
  changed at all. A start that fails changes nothing.
\<close>

theorem foreign_pools_survive:
  assumes "\<forall>api. kube = Inr api \<longrightarrow> kube_laws api pv"
    and "k8s_main cal config client kube first ticks ctrl_c s = (r, s')"
    and "pv s n = Some p" "\<not> has_label (MANAGED_BY_LABEL, MANAGED_BY_VALUE) p"
  shows "\<exists>q. pv s' n = Some q \<and> p_blocks q = p_blocks p \<and> m_labels (p_metadata q) = m_labels (p_metadata p) \<and>
      (\<forall>k. k \<noteq> LAST_SEEN_ANNOTATION \<longrightarrow> map_of (annotations_of q) k = map_of (annotations_of p) k) \<and>
      ((\<forall>ip. n \<noteq> pool_name ip) \<longrightarrow> q = p) \<and> (isl r \<longrightarrow> r \<noteq> Inl KsSignal \<longrightarrow> s' = s)"
proof -
  have "keeps_foreign (pv s) (pv s') \<and> (isl r \<longrightarrow> r \<noteq> Inl KsSignal \<longrightarrow> s' = s)"
  proof (cases "s' = s")
    case False
    with assms(2) obtain cfg api s1 where api: "kube = Inr api" and first: "k8s_pass cal api cfg first s = (True, s1)"
      and rest: "s' = snd (k8s_ticks cal api cfg ticks (True, s1))" and r: "isl r \<Longrightarrow> r = Inl KsSignal"
      by (cases ctrl_c) (auto simp: k8s_main_def split: sum.splits prod.splits bool.splits dest: k8s_pass_panicked)
    have run: "s' = snd (k8s_ticks cal api cfg (first # ticks) (True, s))"
      by (simp add: rest k8s_tick_def first)
    with assms(1) api r show ?thesis
      using k8s_ticks.loop_inv [where es = "first # ticks" and s = "(True, s)" and ?s0.0 = s and api = api and pv = pv]
      by (simp add: list_all_iff del: k8s_ticks.simps)
  qed simp
  with assms(3,4) show ?thesis unfolding keeps_foreign_def same_pool_def by (metis rangeE)
qed

text \<open>A pool of an administrator that has the name the program gives to an address.\<close>

definition admin_pool :: Pool where
  "admin_pool = \<lparr>p_metadata = \<lparr>m_name = Some (pool_name (1, 2, 3, 4)), m_labels = None, m_annotations = None\<rparr>,
     p_blocks = [Some ''10.9.0.0/16'']\<rparr>"

definition sim_world :: "int \<Rightarrow> (string, string, string) k8s_world" where
  "sim_world now = \<lparr>kw_http = sim_http, kw_json = sim_json, kw_read_to_string = sim_tokens, kw_now = now\<rparr>"

theorem foreign_pools_survive_witness:
  "\<exists>q. sim_pools (snd (k8s_main sim_calendar (Inr sim_hosts) (Inr ()) (Inr sim_kube) (sim_world 1000)
      [sim_world 1000, sim_world 1030] (Inr ()) [(pool_name (1, 2, 3, 4), admin_pool)])) (pool_name (1, 2, 3, 4)) = Some q \<and>
    p_blocks q = [Some ''10.9.0.0/16'']"
proof -
  let ?s = "[(pool_name (1, 2, 3, 4), admin_pool)]"
  let ?m = "k8s_main sim_calendar (Inr sim_hosts) (Inr ()) (Inr sim_kube) (sim_world 1000) [sim_world 1000, sim_world 1030] (Inr ()) ?s"
  have m: "?m = (fst ?m, snd ?m)" by simp
  have p: "sim_pools ?s (pool_name (1, 2, 3, 4)) = Some admin_pool" "\<not> has_label (MANAGED_BY_LABEL, MANAGED_BY_VALUE) admin_pool"
    by (simp_all add: sim_pools_def admin_pool_def has_label_def)
  have "\<forall>api. Inr sim_kube = (Inr api :: unit + sim_cluster kube_api) \<longrightarrow> kube_laws api sim_pools" using sim_kube_laws by auto
  from foreign_pools_survive [OF this m p] show ?thesis by (auto simp: admin_pool_def)
qed

end
