(* ===== verification/Dhcp_Lease.thy ===== *)
theory Dhcp_Lease
  imports Sysfs "HOL-Library.Monad_Syntax"
begin

text \<open>
  The reader of dhclient's lease files, crate \<open>dhcp-lease-read\<close>: the parser
  (\<open>isc_dhclient/lease_parser.rs\<close>) and the choice of the current lease (\<open>isc_dhclient/read_lease.rs\<close>). The
  parser combinators are the library's and are the parameter \<open>nom\<close>, with their documented behaviour in
  \<open>nom_laws\<close>; a parser gives the rest of the input and its value, or fails. The calendar is a parameter
  too, with instants as integers. The texts are ASCII.
\<close>

section \<open>Statements and leases\<close>

datatype LeaseStmt =
    Interface string
  | FixedAddress string
  | Option string string
  | Renew int
  | Rebind int
  | Expire int

record Lease =
  interface :: "string option"
  fixed_address :: "string option"
  options :: "(string \<times> string) list"
  renew :: "int option"
  rebind :: "int option"
  expire :: "int option"

definition Lease_default :: Lease where
  "Lease_default = \<lparr>interface = None, fixed_address = None, options = [], renew = None, rebind = None, expire = None\<rparr>"

section \<open>The parser library\<close>

type_synonym 'a parser = "string \<Rightarrow> (string \<times> 'a) option"

record nom =
  tag :: "string \<Rightarrow> string parser"
  take_while1 :: "(char \<Rightarrow> bool) \<Rightarrow> string parser"
  char_p :: "char \<Rightarrow> char parser"
  digit1 :: "string parser"
  multispace0 :: "string parser"
  space1 :: "string parser"
  alt :: "LeaseStmt parser list \<Rightarrow> LeaseStmt parser"
  many0_stmt :: "LeaseStmt parser \<Rightarrow> LeaseStmt list parser"
  many0_lease :: "Lease parser \<Rightarrow> Lease list parser"

text \<open>
  \<open>NaiveDate::from_ymd_opt\<close> and \<open>and_hms_opt\<close>, then the instant in UTC: year, month, day, hour, minute,
  second.
\<close>

type_synonym datetime = "int \<Rightarrow> u32 \<Rightarrow> u32 \<Rightarrow> u32 \<Rightarrow> u32 \<Rightarrow> u32 \<Rightarrow> int option"

definition is_alnum :: "char \<Rightarrow> bool" where
  "is_alnum c =
     (let n = (of_char c :: nat) in 48 \<le> n \<and> n \<le> 57 \<or> 65 \<le> n \<and> n \<le> 90 \<or> 97 \<le> n \<and> n \<le> 122)"

definition trim_end :: "string \<Rightarrow> string" where
  "trim_end s = rev (dropWhile is_space (rev s))"

section \<open>The parser\<close>

definition parse_string_lit :: "nom \<Rightarrow> string parser" where
  "parse_string_lit N input = do {
     (input, _) \<leftarrow> tag N [CHR 0x22] input;
     (input, content) \<leftarrow> take_while1 N (\<lambda>c. c \<noteq> CHR 0x22) input;
     (input, _) \<leftarrow> tag N [CHR 0x22] input;
     Some (input, content) }"

definition parse_interface :: "nom \<Rightarrow> string parser" where
  "parse_interface N input = do {
     (input, _) \<leftarrow> tag N ''interface'' input;
     (input, _) \<leftarrow> space1 N input;
     parse_string_lit N input }"

definition parse_fixed_address :: "nom \<Rightarrow> string parser" where
  "parse_fixed_address N input = do {
     (input, _) \<leftarrow> tag N ''fixed-address'' input;
     (input, _) \<leftarrow> space1 N input;
     (input, ip) \<leftarrow> take_while1 N (\<lambda>c. is_alnum c \<or> c = CHR ''.'') input;
     Some (input, ip) }"

definition parse_option :: "nom \<Rightarrow> (string \<times> string) parser" where
  "parse_option N input = do {
     (input, _) \<leftarrow> tag N ''option'' input;
     (input, _) \<leftarrow> space1 N input;
     (input, key) \<leftarrow> take_while1 N (\<lambda>c. is_alnum c \<or> c = CHR ''-'') input;
     (input, _) \<leftarrow> space1 N input;
     (input, value) \<leftarrow> (case parse_string_lit N input of
         Some (input, val) \<Rightarrow> Some (input, val)
       | None \<Rightarrow> do {
           (input, val) \<leftarrow> take_while1 N (\<lambda>c. c \<noteq> CHR '';'') input;
           Some (input, trim_end val) });
     Some (input, (key, value)) }"

definition parse_u32 :: "nom \<Rightarrow> u32 parser" where
  "parse_u32 N input = do {
     (input, digits) \<leftarrow> digit1 N input;
     n \<leftarrow> parse_uint 10 4294967295 digits;
     Some (input, of_nat n) }"

definition parse_datetime :: "nom \<Rightarrow> datetime \<Rightarrow> int parser" where
  "parse_datetime N cal input = do {
     (input, _) \<leftarrow> parse_u32 N input;
     (input, _) \<leftarrow> space1 N input;
     (input, year) \<leftarrow> parse_u32 N input;
     (input, _) \<leftarrow> char_p N (CHR ''/'') input;
     (input, month) \<leftarrow> parse_u32 N input;
     (input, _) \<leftarrow> char_p N (CHR ''/'') input;
     (input, day) \<leftarrow> parse_u32 N input;
     (input, _) \<leftarrow> space1 N input;
     (input, hour) \<leftarrow> parse_u32 N input;
     (input, _) \<leftarrow> char_p N (CHR '':'') input;
     (input, minute) \<leftarrow> parse_u32 N input;
     (input, _) \<leftarrow> char_p N (CHR '':'') input;
     (input, second) \<leftarrow> parse_u32 N input;
     date \<leftarrow> cal (sint year) month day hour minute second;
     Some (input, date) }"

definition parse_renew :: "nom \<Rightarrow> datetime \<Rightarrow> int parser" where
  "parse_renew N cal input = do {
     (input, _) \<leftarrow> tag N ''renew'' input;
     (input, _) \<leftarrow> space1 N input;
     parse_datetime N cal input }"

definition parse_rebind :: "nom \<Rightarrow> datetime \<Rightarrow> int parser" where
  "parse_rebind N cal input = do {
     (input, _) \<leftarrow> tag N ''rebind'' input;
     (input, _) \<leftarrow> space1 N input;
     parse_datetime N cal input }"

definition parse_expire :: "nom \<Rightarrow> datetime \<Rightarrow> int parser" where
  "parse_expire N cal input = do {
     (input, _) \<leftarrow> tag N ''expire'' input;
     (input, _) \<leftarrow> space1 N input;
     parse_datetime N cal input }"

definition parse_stmt :: "nom \<Rightarrow> datetime \<Rightarrow> LeaseStmt parser" where
  "parse_stmt N cal input = do {
     (input, _) \<leftarrow> multispace0 N input;
     (input, stmt) \<leftarrow> alt N
       [\<lambda>i. map_option (map_prod id Interface) (parse_interface N i),
        \<lambda>i. map_option (map_prod id FixedAddress) (parse_fixed_address N i),
        \<lambda>i. map_option (map_prod id (\<lambda>(k, v). Option k v)) (parse_option N i),
        \<lambda>i. map_option (map_prod id Renew) (parse_renew N cal i),
        \<lambda>i. map_option (map_prod id Rebind) (parse_rebind N cal i),
        \<lambda>i. map_option (map_prod id Expire) (parse_expire N cal i)] input;
     (input, _) \<leftarrow> char_p N (CHR '';'') input;
     Some (input, stmt) }"

fun apply_stmt :: "Lease \<Rightarrow> LeaseStmt \<Rightarrow> Lease" where
  "apply_stmt lease (Interface v) = lease\<lparr>interface := Some v\<rparr>"
| "apply_stmt lease (FixedAddress v) = lease\<lparr>fixed_address := Some v\<rparr>"
| "apply_stmt lease (Option k v) = lease\<lparr>options := options lease @ [(k, v)]\<rparr>"
| "apply_stmt lease (Renew v) = lease\<lparr>renew := Some v\<rparr>"
| "apply_stmt lease (Rebind v) = lease\<lparr>rebind := Some v\<rparr>"
| "apply_stmt lease (Expire v) = lease\<lparr>expire := Some v\<rparr>"

definition parse_lease :: "nom \<Rightarrow> datetime \<Rightarrow> Lease parser" where
  "parse_lease N cal input = do {
     (input, _) \<leftarrow> multispace0 N input;
     (input, _) \<leftarrow> tag N ''lease'' input;
     (input, _) \<leftarrow> multispace0 N input;
     (input, _) \<leftarrow> char_p N (CHR ''{'') input;
     (input, stmts) \<leftarrow> many0_stmt N (parse_stmt N cal) input;
     (input, _) \<leftarrow> multispace0 N input;
     (input, _) \<leftarrow> char_p N (CHR ''}'') input;
     Some (input, foldl apply_stmt Lease_default stmts) }"

definition parse_leases :: "nom \<Rightarrow> datetime \<Rightarrow> Lease list parser" where
  "parse_leases N cal input = do {
     (input, leases) \<leftarrow> many0_lease N (parse_lease N cal) input;
     (input, _) \<leftarrow> multispace0 N input;
     Some (input, leases) }"

section \<open>The current lease\<close>







section \<open>What the code relies on\<close>

definition is_blank :: "char \<Rightarrow> bool" where
  "is_blank c \<longleftrightarrow> c = CHR '' '' \<or> c = CHR 0x09"

definition is_mspace :: "char \<Rightarrow> bool" where
  "is_mspace c \<longleftrightarrow> c = CHR '' '' \<or> c = CHR 0x09 \<or> c = CHR 0x0A \<or> c = CHR 0x0D"

text \<open>
  The documented behaviour of the combinators on complete input: a literal, one or more characters of
  a class, one character, blanks; the first alternative that succeeds; a parser repeated until it
  fails, which is an error when it succeeds without consuming anything.
\<close>

definition nom_laws :: "nom \<Rightarrow> bool" where
  "nom_laws N \<longleftrightarrow>
     (\<forall>t s. tag N t s = map_option (\<lambda>r. (r, t)) (strip_prefix t s)) \<and>
     (\<forall>P s. take_while1 N P s = (if takeWhile P s = [] then None else Some (dropWhile P s, takeWhile P s))) \<and>
     (\<forall>c s. char_p N c s = (case s of [] \<Rightarrow> None | x # r \<Rightarrow> if x = c then Some (r, c) else None)) \<and>
     (\<forall>s. digit1 N s = take_while1 N is_digit s) \<and>
     (\<forall>s. space1 N s = take_while1 N is_blank s) \<and>
     (\<forall>s. multispace0 N s = Some (dropWhile is_mspace s, takeWhile is_mspace s)) \<and>
     (\<forall>s. alt N [] s = None) \<and>
     (\<forall>p ps s. alt N (p # ps) s = (case p s of Some x \<Rightarrow> Some x | None \<Rightarrow> alt N ps s)) \<and>
     (\<forall>p s. many0_stmt N p s = (case p s of
        None \<Rightarrow> Some (s, [])
      | Some (r, x) \<Rightarrow> if length s \<le> length r then None
          else map_option (map_prod id ((#) x)) (many0_stmt N p r))) \<and>
     (\<forall>p s. many0_lease N p s = (case p s of
        None \<Rightarrow> Some (s, [])
      | Some (r, x) \<Rightarrow> if length s \<le> length r then None
          else map_option (map_prod id ((#) x)) (many0_lease N p r)))"

text \<open>An instance, with the repetition as a recursion on the length of the input.\<close>

function many0_ref :: "'a parser \<Rightarrow> 'a list parser" where
  "many0_ref p s = (case p s of
     None \<Rightarrow> Some (s, [])
   | Some (r, x) \<Rightarrow> if length s \<le> length r then None
       else map_option (map_prod id ((#) x)) (many0_ref p r))"
  by pat_completeness auto
termination by (relation "measure (\<lambda>(p, s). length s)") auto

declare many0_ref.simps [simp del]

primrec alt_ref :: "LeaseStmt parser list \<Rightarrow> LeaseStmt parser" where
  "alt_ref [] s = None"
| "alt_ref (p # ps) s = (case p s of Some x \<Rightarrow> Some x | None \<Rightarrow> alt_ref ps s)"

definition take_while1_ref :: "(char \<Rightarrow> bool) \<Rightarrow> string parser" where
  "take_while1_ref P s = (if takeWhile P s = [] then None else Some (dropWhile P s, takeWhile P s))"

definition nom_ref :: nom where
  "nom_ref = \<lparr>tag = (\<lambda>t s. map_option (\<lambda>r. (r, t)) (strip_prefix t s)), take_while1 = take_while1_ref,
     char_p = (\<lambda>c s. case s of [] \<Rightarrow> None | x # r \<Rightarrow> if x = c then Some (r, c) else None),
     digit1 = take_while1_ref is_digit,
     multispace0 = (\<lambda>s. Some (dropWhile is_mspace s, takeWhile is_mspace s)),
     space1 = take_while1_ref is_blank, alt = alt_ref, many0_stmt = many0_ref, many0_lease = many0_ref\<rparr>"

lemma nom_ref_laws: "nom_laws nom_ref"
  unfolding nom_laws_def nom_ref_def nom.simps alt_ref.simps
  by (intro conjI allI) (simp_all add: take_while1_ref_def, (subst many0_ref.simps, rule refl)+)

lemma nom_lawsD:
  assumes "nom_laws N"
  shows nom_tag: "tag N t s = map_option (\<lambda>r. (r, t)) (strip_prefix t s)"
    and nom_tw: "take_while1 N P s = (if takeWhile P s = [] then None else Some (dropWhile P s, takeWhile P s))"
    and nom_char: "char_p N c s = (case s of [] \<Rightarrow> None | x # r \<Rightarrow> if x = c then Some (r, c) else None)"
    and nom_digit: "digit1 N s = take_while1 N is_digit s"
    and nom_space: "space1 N s = take_while1 N is_blank s"
    and nom_ms: "multispace0 N s = Some (dropWhile is_mspace s, takeWhile is_mspace s)"
    and nom_alt0: "alt N [] s = None"
    and nom_alt: "alt N (p # ps) s = (case p s of Some x \<Rightarrow> Some x | None \<Rightarrow> alt N ps s)"
  using assms unfolding nom_laws_def by (simp_all only: simp_thms)

lemma nom_many:
  assumes "nom_laws N"
  shows "many0_stmt N p s = (case p s of
        None \<Rightarrow> Some (s, [])
      | Some (r, x) \<Rightarrow> if length s \<le> length r then None
          else map_option (map_prod id ((#) x)) (many0_stmt N p r))"
    and "many0_lease N q s = (case q s of
        None \<Rightarrow> Some (s, [])
      | Some (r, y) \<Rightarrow> if length s \<le> length r then None
          else map_option (map_prod id ((#) y)) (many0_lease N q r))"
  using assms unfolding nom_laws_def by (elim conjE, blast)+

section \<open>The text of a lease file\<close>

text \<open>
  The statements of dhclient that the parser knows, as dhclient writes them: a value in quotation marks,
  which may be empty, or plain, and a date of seven numbers, the first being the day of the week, the
  month and all behind it with at least two digits.
\<close>

datatype date_kind = RenewDate | RebindDate | ExpireDate

datatype src_stmt =
    SrcInterface string
  | SrcAddress string
  | SrcQuoted string string
  | SrcEmpty string
  | SrcPlain string string
  | SrcDate date_kind u32 u32 u32 u32 u32 u32 u32

fun date_keyword :: "date_kind \<Rightarrow> string" where
  "date_keyword RenewDate = ''renew''"
| "date_keyword RebindDate = ''rebind''"
| "date_keyword ExpireDate = ''expire''"

definition num :: "u32 \<Rightarrow> string" where "num w = dec (unat w)"

definition num2 :: "u32 \<Rightarrow> string" where "num2 w = (if w < 10 then ''0'' else []) @ num w"

fun print_stmt :: "src_stmt \<Rightarrow> string" where
  "print_stmt (SrcInterface v) = ''interface '' @ [CHR 0x22] @ v @ [CHR 0x22]"
| "print_stmt (SrcAddress v) = ''fixed-address '' @ v"
| "print_stmt (SrcQuoted k v) = ''option '' @ k @ '' '' @ [CHR 0x22] @ v @ [CHR 0x22]"
| "print_stmt (SrcEmpty k) = ''option '' @ k @ '' '' @ [CHR 0x22, CHR 0x22]"
| "print_stmt (SrcPlain k v) = ''option '' @ k @ '' '' @ v"
| "print_stmt (SrcDate k wd y mo d h mi se) =
     date_keyword k @ '' '' @ num wd @ '' '' @ num y @ ''/'' @ num2 mo @ ''/'' @ num2 d @ '' '' @
     num2 h @ '':'' @ num2 mi @ '':'' @ num2 se"

definition print_lease :: "src_stmt list \<Rightarrow> string" where
  "print_lease stmts =
     ''lease {'' @ concat (map (\<lambda>st. [CHR 0x0A] @ ''  '' @ print_stmt st @ '';'') stmts) @ [CHR 0x0A] @ ''}'' @ [CHR 0x0A]"

fun date_stmt :: "date_kind \<Rightarrow> int \<Rightarrow> LeaseStmt" where
  "date_stmt RenewDate t = Renew t"
| "date_stmt RebindDate t = Rebind t"
| "date_stmt ExpireDate t = Expire t"

fun meaning :: "datetime \<Rightarrow> src_stmt \<Rightarrow> LeaseStmt option" where
  "meaning cal (SrcInterface v) = Some (Interface v)"
| "meaning cal (SrcAddress v) = Some (FixedAddress v)"
| "meaning cal (SrcQuoted k v) = Some (Option k v)"
| "meaning cal (SrcEmpty k) = Some (Option k [CHR 0x22, CHR 0x22])"
| "meaning cal (SrcPlain k v) = Some (Option k v)"
| "meaning cal (SrcDate k wd y mo d h mi se) = map_option (date_stmt k) (cal (sint y) mo d h mi se)"

text \<open>The texts that may stand in a statement, and the dates that exist.\<close>

fun printable :: "datetime \<Rightarrow> src_stmt \<Rightarrow> bool" where
  "printable cal (SrcInterface v) \<longleftrightarrow> v \<noteq> [] \<and> CHR 0x22 \<notin> set v"
| "printable cal (SrcAddress v) \<longleftrightarrow> v \<noteq> [] \<and> list_all (\<lambda>c. is_alnum c \<or> c = CHR ''.'') v"
| "printable cal (SrcQuoted k v) \<longleftrightarrow> k \<noteq> [] \<and> list_all (\<lambda>c. is_alnum c \<or> c = CHR ''-'') k \<and> v \<noteq> [] \<and> CHR 0x22 \<notin> set v"
| "printable cal (SrcEmpty k) \<longleftrightarrow> k \<noteq> [] \<and> list_all (\<lambda>c. is_alnum c \<or> c = CHR ''-'') k"
| "printable cal (SrcPlain k v) \<longleftrightarrow> k \<noteq> [] \<and> list_all (\<lambda>c. is_alnum c \<or> c = CHR ''-'') k \<and> v \<noteq> [] \<and>
     CHR '';'' \<notin> set v \<and> hd v \<noteq> CHR 0x22 \<and> \<not> is_blank (hd v) \<and> \<not> is_space (last v)"
| "printable cal (SrcDate k wd y mo d h mi se) \<longleftrightarrow> cal (sint y) mo d h mi se \<noteq> None"

text \<open>
  Statements that dhclient writes too and that the parser does not know: one with another keyword, such as
  \<open>filename\<close>, \<open>server-name\<close> or \<open>bootp\<close>, with the text behind it, and an option with a list of quoted values,
  given by the first value and the text behind its closing quotation mark.
\<close>

datatype other_stmt = OtherWord string string | QuotedList string string string

fun print_other :: "other_stmt \<Rightarrow> string" where
  "print_other (OtherWord k t) = k @ t"
| "print_other (QuotedList k v t) = ''option '' @ k @ '' '' @ [CHR 0x22] @ v @ [CHR 0x22] @ t"

definition stmt_keywords :: "string list" where
  "stmt_keywords = [''interface'', ''fixed-address'', ''option'', ''renew'', ''rebind'', ''expire'']"

fun other_ok :: "other_stmt \<Rightarrow> bool" where
  "other_ok (OtherWord k t) \<longleftrightarrow> k \<noteq> [] \<and> list_all (\<lambda>c. is_alnum c \<or> c = CHR ''-'') k \<and> k \<notin> set stmt_keywords \<and>
     t \<noteq> [] \<and> (hd t = CHR '' '' \<or> hd t = CHR '';'')"
| "other_ok (QuotedList k v t) \<longleftrightarrow> k \<noteq> [] \<and> list_all (\<lambda>c. is_alnum c \<or> c = CHR ''-'') k \<and> v \<noteq> [] \<and>
     CHR 0x22 \<notin> set v \<and> t \<noteq> [] \<and> hd t \<noteq> CHR '';''"

section \<open>Lemmas\<close>

lemma parse_digits_append:
  "parse_digits r B a (s @ t) = Option.bind (parse_digits r B a s) (\<lambda>a'. parse_digits r B a' t)"
  by (induction r B a s rule: parse_digits.induct) (auto split: option.split)

lemma digit_of_char: "n < 10 \<Longrightarrow> digit_of 10 (digit_char n) = Some n"
proof -
  assume n: "n < 10"
  then have "(of_char (digit_char n) :: nat) = 48 + n" by (simp add: digit_char_def)
  with n show ?thesis by (simp add: digit_of_def hex_val_def Let_def)
qed

lemma parse_digits_dec: "n \<le> B \<Longrightarrow> parse_digits 10 B 0 (dec n) = Some n"
proof (induction n rule: dec.induct)
  case (1 n)
  show ?case
  proof (cases "n < 10")
    case True
    with "1.prems" show ?thesis by (subst dec.simps) (simp add: digit_of_char)
  next
    case False
    with "1" have "parse_digits 10 B 0 (dec (n div 10)) = Some (n div 10)" by simp
    with False "1.prems" show ?thesis by (subst dec.simps) (simp add: parse_digits_append digit_of_char)
  qed
qed

lemma is_digit_plus: "\<not> is_digit (CHR ''+'')"
  by (simp add: is_digit_def)

lemma strip_plus_digits: "list_all is_digit s \<Longrightarrow> strip_plus s = s"
  using is_digit_plus by (auto simp: strip_plus_def split: list.split)

lemma parse_uint_dec: "n \<le> B \<Longrightarrow> parse_uint 10 B (dec n) = Some n"
proof -
  assume n: "n \<le> B"
  have "strip_plus (dec n) = dec n" by (rule strip_plus_digits [OF dec_digits])
  with n show ?thesis by (simp add: parse_uint_def parse_digits_dec)
qed

text \<open>A class of characters on a text of the class with a character behind that is not in it.\<close>

lemma take_while1_prefix:
  assumes "nom_laws N" "v \<noteq> []" "list_all P v" "\<not> P c"
  shows "take_while1 N P (v @ c # r) = Some (c # r, v)"
  using assms(2-4) by (simp add: nom_tw [OF assms(1)] list_all_iff dropWhile_append2)

lemma space1_one:
  assumes "nom_laws N" "s \<noteq> []" "\<not> is_blank (hd s)"
  shows "space1 N (CHR '' '' # s) = Some (s, '' '')"
  using assms(2,3) by (cases s) (simp_all add: nom_space [OF assms(1)] nom_tw [OF assms(1)] is_blank_def)

lemma parse_digits_num2: "parse_digits 10 4294967295 0 (num2 w) = Some (unat w)"
proof -
  have "unat w \<le> 4294967295" using unsigned_less [where 'a = nat, of w] by simp
  then show ?thesis
    by (simp add: num2_def num_def parse_digits_dec digit_of_def hex_val_def)
qed

lemma num2_digits: "list_all is_digit (num2 w)" "num2 w \<noteq> []"
  using dec_digits [of "unat w"] by (simp_all add: num2_def num_def is_digit_def)

lemma parse_u32_num:
  assumes "nom_laws N" "\<not> is_digit c"
  shows "parse_u32 N (num w @ c # r) = Some (c # r, w)" "parse_u32 N (num2 w @ c # r) = Some (c # r, w)"
proof -
  have "unat w \<le> 4294967295" using unsigned_less [where 'a = nat, of w] by simp
  then show "parse_u32 N (num w @ c # r) = Some (c # r, w)"
    using take_while1_prefix [OF assms(1), of "num w" is_digit c r] assms(2) dec_digits [of "unat w"]
    by (simp add: parse_u32_def nom_digit [OF assms(1)] num_def parse_uint_dec)
  show "parse_u32 N (num2 w @ c # r) = Some (c # r, w)"
    using take_while1_prefix [OF assms(1), of "num2 w" is_digit c r] assms(2) num2_digits [of w]
    by (simp add: parse_u32_def nom_digit [OF assms(1)] parse_uint_def strip_plus_digits parse_digits_num2)
qed

lemma digits_head:
  assumes "list_all is_digit v" "v \<noteq> []"
  shows "v @ s \<noteq> []" "\<not> is_blank (hd (v @ s))"
  using assms by (cases v; auto simp: is_blank_def is_digit_def)+

lemma num_digits: "list_all is_digit (num w)" "num w \<noteq> []"
  by (simp_all add: num_def dec_digits)

lemmas num_head = digits_head [OF num_digits] digits_head [OF num2_digits]

lemma parse_string_lit_quoted:
  assumes "nom_laws N" "v \<noteq> []" "CHR 0x22 \<notin> set v"
  shows "parse_string_lit N (CHR 0x22 # v @ CHR 0x22 # r) = Some (r, v)"
proof -
  have "list_all (\<lambda>c. c \<noteq> CHR 0x22) v" using assms(3) by (auto simp: list_all_iff)
  with assms(2) show ?thesis
    by (simp add: parse_string_lit_def nom_tag [OF assms(1)] take_while1_prefix [OF assms(1)])
qed

lemma parse_datetime_nums:
  assumes "nom_laws N" "cal (sint y) mo d h mi se = Some t"
  shows "parse_datetime N cal (num wd @ '' '' @ num y @ ''/'' @ num2 mo @ ''/'' @ num2 d @ '' '' @
    num2 h @ '':'' @ num2 mi @ '':'' @ num2 se @ CHR '';'' # r) = Some (CHR '';'' # r, t)"
  by (simp add: parse_datetime_def parse_u32_num [OF assms(1)] space1_one [OF assms(1)] num_head is_digit_def
      nom_char [OF assms(1)] assms(2))

lemma keyword_space:
  assumes "nom_laws N" "s \<noteq> []" "\<not> is_blank (hd s)"
  shows "do { (i, _) \<leftarrow> tag N k (k @ CHR '' '' # s); (i, _) \<leftarrow> space1 N i; f i } = f s"
proof -
  have "strip_prefix k (k @ CHR '' '' # s) = Some (CHR '' '' # s)" by (simp add: strip_prefix_iff)
  then show ?thesis using assms by (simp add: nom_tag space1_one)
qed

lemma tag_other:
  assumes "nom_laws N" "\<And>r. s \<noteq> k @ r"
  shows "tag N k s = None"
proof -
  have "strip_prefix k s = None" using assms(2) strip_prefix_iff by (metis option.exhaust)
  then show ?thesis by (simp add: nom_tag [OF assms(1)])
qed

lemma parse_option_key:
  assumes N: "nom_laws N" and k: "k \<noteq> []" "list_all (\<lambda>c. is_alnum c \<or> c = CHR ''-'') k"
    and s: "s \<noteq> []" "\<not> is_blank (hd s)"
  shows "parse_option N (''option '' @ k @ '' '' @ s) = do {
     (input, value) \<leftarrow> (case parse_string_lit N s of
         Some (input, val) \<Rightarrow> Some (input, val)
       | None \<Rightarrow> do {
           (input, val) \<leftarrow> take_while1 N (\<lambda>c. c \<noteq> CHR '';'') s;
           Some (input, trim_end val) });
     Some (input, (k, value)) }"
proof -
  have "\<not> is_blank (hd (k @ CHR '' '' # s))"
    using k by (auto simp: is_blank_def is_alnum_def list_all_iff dest!: hd_in_set)
  then have sp: "space1 N (CHR '' '' # k @ CHR '' '' # s) = Some (k @ CHR '' '' # s, '' '')"
    by (intro space1_one [OF N]) simp_all
  have tk: "take_while1 N (\<lambda>c. is_alnum c \<or> c = CHR ''-'') (k @ CHR '' '' # s) = Some (CHR '' '' # s, k)"
    by (rule take_while1_prefix [OF N k]) (simp add: is_alnum_def)
  show ?thesis
    by (simp add: parse_option_def nom_tag [OF N] sp tk space1_one [OF N s])
qed

text \<open>Each statement is read by its own alternative, and the alternatives before it refuse its keyword.\<close>

lemma parse_body:
  assumes N: "nom_laws N" and p: "printable cal st" and m: "meaning cal st = Some m"
  shows "alt N
       [\<lambda>i. map_option (map_prod id Interface) (parse_interface N i),
        \<lambda>i. map_option (map_prod id FixedAddress) (parse_fixed_address N i),
        \<lambda>i. map_option (map_prod id (\<lambda>(k, v). Option k v)) (parse_option N i),
        \<lambda>i. map_option (map_prod id Renew) (parse_renew N cal i),
        \<lambda>i. map_option (map_prod id Rebind) (parse_rebind N cal i),
        \<lambda>i. map_option (map_prod id Expire) (parse_expire N cal i)] (print_stmt st @ CHR '';'' # r) =
    Some (CHR '';'' # r, m)"
proof (cases st)
  case (SrcInterface v)
  have "parse_interface N (print_stmt st @ CHR '';'' # r) = Some (CHR '';'' # r, v)"
    using p keyword_space [OF N, of "CHR 0x22 # v @ CHR 0x22 # CHR '';'' # r" "''interface''" "parse_string_lit N"]
      parse_string_lit_quoted [OF N, of v "CHR '';'' # r"]
    by (simp add: SrcInterface parse_interface_def is_blank_def)
  then show ?thesis using m SrcInterface by (simp add: nom_alt [OF N])
next
  case (SrcAddress v)
  have v: "v \<noteq> []" "list_all (\<lambda>c. is_alnum c \<or> c = CHR ''.'') v" "\<not> is_blank (hd v)"
    using p by (auto simp: SrcAddress is_blank_def is_alnum_def list_all_iff dest!: hd_in_set)
  have "parse_fixed_address N (print_stmt st @ CHR '';'' # r) = Some (CHR '';'' # r, v)"
    using keyword_space [OF N, of "v @ CHR '';'' # r" "''fixed-address''"
        "\<lambda>i. do { (i, ip) \<leftarrow> take_while1 N (\<lambda>c. is_alnum c \<or> c = CHR ''.'') i; Some (i, ip) }"] v
      take_while1_prefix [OF N v(1,2), of "CHR '';''" r]
    by (simp add: SrcAddress parse_fixed_address_def is_alnum_def)
  moreover have "parse_interface N (print_stmt st @ CHR '';'' # r) = None"
    by (simp add: SrcAddress parse_interface_def nom_tag [OF N])
  ultimately show ?thesis using m SrcAddress by (simp add: nom_alt [OF N])
next
  case (SrcQuoted k v)
  note o = parse_option_key [OF N, of k "CHR 0x22 # v @ CHR 0x22 # CHR '';'' # r"]
  have "parse_option N (print_stmt st @ CHR '';'' # r) = Some (CHR '';'' # r, (k, v))"
    using p o parse_string_lit_quoted [OF N, of v "CHR '';'' # r"] by (simp add: SrcQuoted is_blank_def)
  then show ?thesis using m SrcQuoted by (simp add: nom_alt [OF N] parse_interface_def parse_fixed_address_def nom_tag [OF N])
next
  case (SrcEmpty k)
  have lit: "parse_string_lit N (CHR 0x22 # CHR 0x22 # CHR '';'' # r) = None"
    by (simp add: parse_string_lit_def nom_tag [OF N] nom_tw [OF N])
  have val: "take_while1 N (\<lambda>c. c \<noteq> CHR '';'') (CHR 0x22 # CHR 0x22 # CHR '';'' # r) =
      Some (CHR '';'' # r, [CHR 0x22, CHR 0x22])"
    by (simp add: nom_tw [OF N])
  have "parse_option N (print_stmt st @ CHR '';'' # r) = Some (CHR '';'' # r, (k, [CHR 0x22, CHR 0x22]))"
    using p parse_option_key [OF N, of k "CHR 0x22 # CHR 0x22 # CHR '';'' # r"] lit val
    by (simp add: SrcEmpty is_blank_def trim_end_def is_space_def)
  then show ?thesis using m SrcEmpty by (simp add: nom_alt [OF N] parse_interface_def parse_fixed_address_def nom_tag [OF N])
next
  case (SrcPlain k v)
  have v: "v \<noteq> []" "list_all (\<lambda>c. c \<noteq> CHR '';'') v" using p by (auto simp: SrcPlain list_all_iff)
  have "parse_string_lit N (v @ CHR '';'' # r) = None"
    using p by (cases v) (auto simp: SrcPlain parse_string_lit_def nom_tag [OF N])
  moreover have "trim_end v = v"
    using p by (cases v rule: rev_cases) (auto simp: SrcPlain trim_end_def)
  ultimately have "parse_option N (print_stmt st @ CHR '';'' # r) = Some (CHR '';'' # r, (k, v))"
    using p v parse_option_key [OF N, of k "v @ CHR '';'' # r"] take_while1_prefix [OF N v, of "CHR '';''" r]
    by (simp add: SrcPlain)
  then show ?thesis using m SrcPlain by (simp add: nom_alt [OF N] parse_interface_def parse_fixed_address_def nom_tag [OF N])
next
  case (SrcDate k wd y mo d h mi se)
  let ?nums = "num wd @ '' '' @ num y @ ''/'' @ num2 mo @ ''/'' @ num2 d @ '' '' @ num2 h @ '':'' @ num2 mi @ '':'' @
    num2 se @ CHR '';'' # r"
  from m SrcDate obtain t where t: "cal (sint y) mo d h mi se = Some t" "m = date_stmt k t" by auto
  have dt: "parse_datetime N cal ?nums = Some (CHR '';'' # r, t)" by (rule parse_datetime_nums [where cal = cal]) (fact N, fact t(1))
  have "space1 N (CHR '' '' # ?nums) = Some (?nums, '' '')" by (rule space1_one [OF N num_head(1,2)])
  with dt show ?thesis
    using t(2) SrcDate
    by (cases k) (simp_all add: nom_alt [OF N] parse_interface_def parse_fixed_address_def parse_option_def parse_renew_def
        parse_rebind_def parse_expire_def nom_tag [OF N])
qed

lemma print_stmt_head: "print_stmt st \<noteq> []" "\<not> is_mspace (hd (print_stmt st))"
proof -
  have "date_keyword k \<noteq> []" "\<not> is_mspace (hd (date_keyword k))" for k by (cases k; simp add: is_mspace_def)+
  then show "print_stmt st \<noteq> []" "\<not> is_mspace (hd (print_stmt st))" by (cases st; simp add: is_mspace_def)+
qed

lemma skip_space: "list_all is_mspace w \<Longrightarrow> s = [] \<or> \<not> is_mspace (hd s) \<Longrightarrow> dropWhile is_mspace (w @ s) = s"
  by (cases s) (auto simp: list_all_iff dropWhile_append2)

lemma printable_meaning: "printable cal st \<Longrightarrow> \<exists>m. meaning cal st = Some m"
  by (cases st) auto

text \<open>The line of a statement, and the end of a lease.\<close>

definition stmt_line :: "src_stmt \<Rightarrow> string" where
  "stmt_line st = [CHR 0x0A] @ ''  '' @ print_stmt st @ '';''"

lemma parse_stmt_line:
  assumes N: "nom_laws N" and p: "printable cal st" and m: "meaning cal st = Some m"
  shows "parse_stmt N cal (stmt_line st @ r) = Some (r, m)"
proof -
  have "dropWhile is_mspace (stmt_line st @ r) = print_stmt st @ CHR '';'' # r"
    using print_stmt_head [of st] skip_space [of "[CHR 0x0A, CHR '' '', CHR '' '']" "print_stmt st @ CHR '';'' # r"]
    by (simp add: stmt_line_def is_mspace_def)
  then show ?thesis
    using parse_body [OF N p m, of r] by (simp add: parse_stmt_def nom_ms [OF N] nom_char [OF N])
qed

lemma parse_stmt_end:
  assumes N: "nom_laws N"
  shows "parse_stmt N cal (CHR 0x0A # CHR ''}'' # r) = None"
  by (simp add: parse_stmt_def nom_ms [OF N] is_mspace_def nom_alt [OF N] nom_alt0 [OF N] parse_interface_def
      parse_fixed_address_def parse_option_def parse_renew_def parse_rebind_def parse_expire_def nom_tag [OF N])

text \<open>The statements are read up to the first text that is none.\<close>

lemma many0_stmts:
  assumes N: "nom_laws N" and t: "parse_stmt N cal t = None"
  shows "list_all (printable cal) sts \<Longrightarrow>
    many0_stmt N (parse_stmt N cal) (concat (map stmt_line sts) @ t) = Some (t, List.map_filter (meaning cal) sts)"
proof (induction sts)
  case Nil
  then show ?case by (subst nom_many(1) [OF N]) (simp add: t)
next
  case (Cons st sts)
  then obtain m where m: "meaning cal st = Some m" using printable_meaning by auto
  have "0 < length (stmt_line st)" by (simp add: stmt_line_def)
  with Cons m show ?case
    by (subst nom_many(1) [OF N]) (simp add: parse_stmt_line [OF N _ m])
qed

lemma keyword_refused:
  assumes N: "nom_laws N" and k: "list_all (\<lambda>c. is_alnum c \<or> c = CHR ''-'') k" "k \<noteq> kw"
    and t: "t \<noteq> []" "hd t = CHR '' '' \<or> hd t = CHR '';''" and kw: "list_all (\<lambda>c. is_alnum c \<or> c = CHR ''-'') kw"
  shows "do { (i, _) \<leftarrow> tag N kw (k @ t @ r); (i, _) \<leftarrow> space1 N i; f i } = None"
proof (cases "strip_prefix kw (k @ t @ r)")
  case None
  then show ?thesis by (simp add: nom_tag [OF N])
next
  case (Some q)
  then have eq: "k @ (t @ r) = kw @ q" by (simp add: strip_prefix_iff)
  have cls: "\<not> is_blank c \<and> c \<noteq> CHR '';''" if "is_alnum c \<or> c = CHR ''-''" for c
    using that by (auto simp: is_blank_def is_alnum_def)
  from eq obtain us where us: "k = kw @ us \<and> us @ t @ r = q \<or> k @ us = kw \<and> t @ r = us @ q"
    by (auto simp: append_eq_append_conv2)
  have "q \<noteq> [] \<and> \<not> is_blank (hd q)"
  proof (cases "k = kw @ us \<and> us @ t @ r = q")
    case True
    with k(2) have us: "us \<noteq> []" by auto
    then have "hd us \<in> set k" using True by (metis Un_iff hd_in_set set_append)
    with k(1) cls have "\<not> is_blank (hd us)" by (simp add: list_all_iff)
    with True us show ?thesis by (metis append_is_Nil_conv hd_append2)
  next
    case False
    with us have f: "k @ us = kw" "t @ r = us @ q" by auto
    with k(2) have "us \<noteq> []" by auto
    with f t(1) have "hd t = hd us" by (metis hd_append2)
    moreover have "hd us \<in> set kw" using \<open>us \<noteq> []\<close> f(1) by (metis Un_iff hd_in_set set_append)
    then have "\<not> is_blank (hd us) \<and> hd us \<noteq> CHR '';''" using kw cls by (simp add: list_all_iff)
    ultimately show ?thesis using t(2) by (auto simp: is_blank_def)
  qed
  then have "space1 N q = None"
    by (cases q) (simp_all add: nom_space [OF N] nom_tw [OF N])
  with Some show ?thesis by (simp add: nom_tag [OF N])
qed

text \<open>A statement the parser does not know is refused.\<close>

definition other_line :: "other_stmt \<Rightarrow> string" where
  "other_line ot = [CHR 0x0A] @ ''  '' @ print_other ot"

lemma print_other_head:
  assumes "other_ok ot"
  shows "print_other ot \<noteq> []" "\<not> is_mspace (hd (print_other ot))" "hd (print_other ot) \<noteq> CHR ''}''"
proof -
  have cls: "\<not> is_mspace c \<and> c \<noteq> CHR ''}''" if "is_alnum c \<or> c = CHR ''-''" for c
    using that by (auto simp: is_mspace_def is_alnum_def)
  have "print_other ot \<noteq> [] \<and> (is_alnum (hd (print_other ot)) \<or> hd (print_other ot) = CHR ''-'')"
  proof (cases ot)
    case (OtherWord k t)
    with assms show ?thesis by (cases k) simp_all
  qed (simp add: is_alnum_def)
  with cls show "print_other ot \<noteq> []" "\<not> is_mspace (hd (print_other ot))" "hd (print_other ot) \<noteq> CHR ''}''"
    by blast+
qed

lemma other_line_skip:
  "other_ok ot \<Longrightarrow> dropWhile is_mspace (other_line ot @ r) = print_other ot @ r"
  using print_other_head [of ot] skip_space [of "[CHR 0x0A, CHR '' '', CHR '' '']" "print_other ot @ r"]
  by (simp add: other_line_def is_mspace_def)

lemma parse_other_line:
  assumes N: "nom_laws N" and ot: "other_ok ot"
  shows "parse_stmt N cal (other_line ot @ r) = None"
proof (cases ot)
  case (OtherWord k t)
  have kw: "list_all (\<lambda>c. is_alnum c \<or> c = CHR ''-'') kw" if "kw \<in> set stmt_keywords" for kw
    using that by (auto simp: stmt_keywords_def is_alnum_def)
  have f: "do { (i, _) \<leftarrow> tag N kw (k @ t @ r); (i, _) \<leftarrow> space1 N i; f i } = None" if "kw \<in> set stmt_keywords" for kw f
    using ot that kw [OF that] by (intro keyword_refused [OF N]) (auto simp: OtherWord)
  note f = f [unfolded stmt_keywords_def, simplified]
  show ?thesis
    using other_line_skip [OF ot, of r]
    by (simp add: parse_stmt_def nom_ms [OF N] OtherWord nom_alt [OF N] nom_alt0 [OF N] parse_interface_def
        parse_fixed_address_def parse_option_def parse_renew_def parse_rebind_def parse_expire_def f)
next
  case (QuotedList k v t)
  let ?v = "CHR 0x22 # v @ CHR 0x22 # t @ r"
  have "parse_option N (print_other ot @ r) = Some (t @ r, (k, v))"
    using ot parse_option_key [OF N, of k ?v] parse_string_lit_quoted [OF N, of v "t @ r"]
    by (simp add: QuotedList is_blank_def)
  moreover have "char_p N (CHR '';'') (t @ r) = None"
    using ot by (cases t) (simp_all add: QuotedList nom_char [OF N])
  moreover have "parse_interface N (print_other ot @ r) = None" "parse_fixed_address N (print_other ot @ r) = None"
    by (simp_all add: QuotedList parse_interface_def parse_fixed_address_def nom_tag [OF N])
  ultimately show ?thesis
    using other_line_skip [OF ot, of r] by (simp add: parse_stmt_def nom_ms [OF N] nom_alt [OF N])
qed

definition lease_of :: "datetime \<Rightarrow> src_stmt list \<Rightarrow> Lease" where
  "lease_of cal sts = foldl apply_stmt Lease_default (List.map_filter (meaning cal) sts)"

lemma parse_lease_printed:
  assumes N: "nom_laws N" and p: "list_all (printable cal) sts" and w: "list_all is_mspace w"
  shows "parse_lease N cal (w @ print_lease sts @ r) = Some (CHR 0x0A # r, lease_of cal sts)"
proof -
  let ?body = "concat (map stmt_line sts) @ CHR 0x0A # CHR ''}'' # CHR 0x0A # r"
  have pl: "print_lease sts @ r = ''lease {'' @ ?body"
    by (simp add: print_lease_def stmt_line_def [abs_def])
  have "dropWhile is_mspace (w @ print_lease sts @ r) = print_lease sts @ r"
    by (rule skip_space [OF w]) (simp add: print_lease_def is_mspace_def)
  then show ?thesis
    by (simp add: parse_lease_def nom_ms [OF N] pl nom_tag [OF N] nom_char [OF N] is_mspace_def
        many0_stmts [OF N parse_stmt_end [OF N] p] lease_of_def)
qed

lemma parse_lease_blank:
  assumes N: "nom_laws N" and w: "list_all is_mspace w"
  shows "parse_lease N cal w = None"
proof -
  have d: "dropWhile is_mspace w = []" using skip_space [OF w, of "[]"] by simp
  show ?thesis unfolding parse_lease_def nom_ms [OF N] d by (simp add: nom_tag [OF N])
qed

text \<open>A lease with a statement the parser does not know is refused as a whole.\<close>

definition cut_lease :: "src_stmt list \<Rightarrow> other_stmt \<Rightarrow> string \<Rightarrow> string" where
  "cut_lease sts ot rest = ''lease {'' @ concat (map stmt_line sts) @ other_line ot @ rest"

lemma parse_cut_lease:
  assumes N: "nom_laws N" and p: "list_all (printable cal) sts" and ot: "other_ok ot" and w: "list_all is_mspace w"
  shows "parse_lease N cal (w @ cut_lease sts ot rest) = None"
proof -
  have "dropWhile is_mspace (w @ cut_lease sts ot rest) = cut_lease sts ot rest"
    by (rule skip_space [OF w]) (simp add: cut_lease_def is_mspace_def)
  moreover have "char_p N (CHR ''}'') (print_other ot @ rest) = None"
    using print_other_head [OF ot] by (cases "print_other ot") (simp_all add: nom_char [OF N])
  ultimately show ?thesis
    by (simp add: parse_lease_def nom_ms [OF N] cut_lease_def nom_tag [OF N] nom_char [OF N] is_mspace_def
        many0_stmts [OF N parse_other_line [OF N ot] p] other_line_skip [OF ot])
qed

text \<open>The leases are read up to the first text that is none.\<close>

lemma many0_leases:
  assumes N: "nom_laws N" and t: "\<And>w. list_all is_mspace w \<Longrightarrow> parse_lease N cal (w @ t) = None"
  shows "list_all (list_all (printable cal)) ls \<Longrightarrow> list_all is_mspace w \<Longrightarrow>
    \<exists>w'. list_all is_mspace w' \<and> many0_lease N (parse_lease N cal) (w @ concat (map print_lease ls) @ t) =
      Some (w' @ t, map (lease_of cal) ls)"
proof (induction ls arbitrary: w)
  case Nil
  then show ?case by (subst nom_many(2) [OF N]) (simp add: t)
next
  case (Cons l ls)
  have "list_all is_mspace [CHR 0x0A]" by (simp add: is_mspace_def)
  with Cons obtain w' where "list_all is_mspace w'"
    "many0_lease N (parse_lease N cal) (CHR 0x0A # concat (map print_lease ls) @ t) = Some (w' @ t, map (lease_of cal) ls)"
    by fastforce
  moreover have "1 < length (print_lease l)" by (simp add: print_lease_def)
  ultimately show ?case
    using Cons.prems parse_lease_printed [OF N, of cal l w "concat (map print_lease ls) @ t"]
    by (subst nom_many(2) [OF N]) simp
qed

lemma parse_leases_printed:
  assumes N: "nom_laws N" and ls: "list_all (list_all (printable cal)) ls"
  shows "parse_leases N cal (concat (map print_lease ls)) = Some ([], map (lease_of cal) ls)"
proof -
  have "parse_lease N cal (w @ []) = None" if "list_all is_mspace w" for w
    using parse_lease_blank [OF N that] by simp
  from many0_leases [OF N this ls, of "[]"] obtain w' where "list_all is_mspace w'"
    "many0_lease N (parse_lease N cal) (concat (map print_lease ls)) = Some (w', map (lease_of cal) ls)" by auto
  then show ?thesis using skip_space [of w' "[]"] by (simp add: parse_leases_def nom_ms [OF N])
qed

lemma parse_leases_cut:
  assumes N: "nom_laws N" and ls: "list_all (list_all (printable cal)) ls"
    and sts: "list_all (printable cal) sts" and ot: "other_ok ot"
  shows "parse_leases N cal (concat (map print_lease ls) @ cut_lease sts ot rest) =
    Some (cut_lease sts ot rest, map (lease_of cal) ls)"
proof -
  from many0_leases [OF N parse_cut_lease [OF N sts ot] ls, of "[]" rest] obtain w' where w': "list_all is_mspace w'"
    "many0_lease N (parse_lease N cal) (concat (map print_lease ls) @ cut_lease sts ot rest) =
      Some (w' @ cut_lease sts ot rest, map (lease_of cal) ls)" by auto
  have "dropWhile is_mspace (w' @ cut_lease sts ot rest) = cut_lease sts ot rest"
    by (rule skip_space [OF w'(1)]) (simp add: cut_lease_def is_mspace_def)
  with w'(2) show ?thesis by (simp add: parse_leases_def nom_ms [OF N])
qed






section \<open>Properties\<close>

text \<open>
  C39. What is read of a lease file. The text of any leases, each a list of statements the parser knows as
  dhclient writes them, with dates that exist, parses without a rest to exactly these leases: the last
  statement of a kind counts, the options are kept in order, and an empty quoted value is read as its two
  quotation marks. But dhclient writes other statements too. At the first lease that has one of them, or
  an option with a list of quoted values, the parser stops without an error: the leases before it are the
  result, and that lease and all behind it, whatever they are, are left in the rest, which the reader drops.
\<close>

theorem lease_file_parses:
  assumes "nom_laws N" "list_all (list_all (printable cal)) ls" "list_all (printable cal) sts" "other_ok ot"
  shows "parse_leases N cal (concat (map print_lease ls)) = Some ([], map (lease_of cal) ls) \<and>
    parse_leases N cal (concat (map print_lease ls) @ cut_lease sts ot rest) =
      Some (cut_lease sts ot rest, map (lease_of cal) ls)"
  using parse_leases_printed [OF assms(1,2)] parse_leases_cut [OF assms] by blast

text \<open>A lease, and behind it one with a boot file and one that would be readable.\<close>

definition sample_source :: "src_stmt list" where
  "sample_source = [SrcInterface ''wan0'', SrcAddress ''192.168.1.104'', SrcPlain ''routers'' ''192.168.1.1'',
     SrcEmpty ''domain-name'', SrcDate ExpireDate 0 2026 5 24 21 51 15]"

definition sample_boot :: string where
  "sample_boot = [CHR 0x0A] @ ''lease {'' @ [CHR 0x0A] @ ''  interface '' @ [CHR 0x22] @ ''wan0'' @ [CHR 0x22] @
     '';'' @ [CHR 0x0A] @ ''  filename '' @ [CHR 0x22] @ ''pxe.0'' @ [CHR 0x22] @ '';'' @ [CHR 0x0A] @ ''}'' @
     [CHR 0x0A]"

theorem lease_file_parses_witness:
  "let cal = \<lambda>y mo d h mi se. Some (y + int (unat se));
     l = \<lparr>interface = Some ''wan0'', fixed_address = Some ''192.168.1.104'',
       options = [(''routers'', ''192.168.1.1''), (''domain-name'', [CHR 0x22, CHR 0x22])],
       renew = None, rebind = None, expire = Some 2041\<rparr>
   in parse_leases nom_ref cal (print_lease sample_source) = Some ([], [l]) \<and>
      map_option snd (parse_leases nom_ref cal
        (print_lease sample_source @ tl sample_boot @ print_lease sample_source)) = Some [l]"
proof -
  let ?cal = "\<lambda>y mo d h mi se. Some (y + int (unat se))" and ?sts = "[SrcInterface ''wan0'']"
  let ?ot = "OtherWord ''filename'' ('' '' @ [CHR 0x22] @ ''pxe.0'' @ [CHR 0x22] @ '';'')"
  let ?tail = "[CHR 0x0A] @ ''}'' @ [CHR 0x0A]"
  have p: "list_all (list_all (printable ?cal)) [sample_source]" "list_all (printable ?cal) ?sts" "other_ok ?ot"
    by (simp_all add: sample_source_def is_alnum_def is_blank_def is_space_def stmt_keywords_def)
  have l: "lease_of ?cal sample_source = \<lparr>interface = Some ''wan0'', fixed_address = Some ''192.168.1.104'',
       options = [(''routers'', ''192.168.1.1''), (''domain-name'', [CHR 0x22, CHR 0x22])],
       renew = None, rebind = None, expire = Some 2041\<rparr>"
    by (simp add: lease_of_def Lease_default_def sample_source_def)
  have "tl sample_boot @ r = cut_lease ?sts ?ot (?tail @ r)" for r
    by (simp add: sample_boot_def cut_lease_def stmt_line_def other_line_def)
  with lease_file_parses [OF nom_ref_laws p, of "?tail @ print_lease sample_source"] l show ?thesis
    by (simp add: Let_def)
qed



end
