(* ===== verification/Unit_Tests.thy ===== *)
theory Unit_Tests
  imports Routerd
begin

text \<open>
  The unit tests of the sources, run on the model: \<open>mod tests\<close> of \<open>src/dumbarp-common/src/lib.rs\<close>,
  \<open>src/dumbarp-routing/src/lib.rs\<close>, \<open>src/dumbarp-api/src/lib.rs\<close> and \<open>src/dumbarp-routerd/src/reconcile.rs\<close>. A test is a
  truth value, the conjunction of its assertions; that it holds is the lemma after it. The tests say
  what the authors expect of the code, so they also check the translation of the code.
\<close>

section \<open>Checksums and keys\<close>

definition sample_header :: "u8 \<Rightarrow> u8 list" where
  "sample_header tos =
     (let h = [0x45, tos, 0x05, 0xdc, 0xab, 0xcd, 0x40, 0, 64, IPPROTO_TCP, 0, 0, 203, 0, 113, 7, 110, 110, 110, 110];
          (c1, c2) = u16_to_be_bytes (full_checksum h)
      in h[10 := c1, 11 := c2])"

text \<open>The body of the loops of the first two tests, for one old and one new TOS byte.\<close>

definition incremental_matches :: "u8 \<Rightarrow> u8 \<Rightarrow> bool" where
  "incremental_matches old_tos new_tos \<longleftrightarrow>
     (let old_header = sample_header old_tos;
          stored = u16_from_be_bytes (old_header ! 10, old_header ! 11);
          old_word = push_bit 8 (ucast (old_header ! 0)) OR ucast old_tos;
          new_word = push_bit 8 (ucast (old_header ! 0)) OR ucast new_tos;
          expected_header = old_header[1 := new_tos, 10 := 0, 11 := 0]
      in csum_replace2 stored old_word new_word = full_checksum expected_header)"

definition incremental_checksum_matches_full_recompute :: bool where
  "incremental_checksum_matches_full_recompute \<longleftrightarrow>
     list_all (\<lambda>old_dscp. list_all (\<lambda>new_dscp. incremental_matches (push_bit 2 old_dscp) (push_bit 2 new_dscp))
       (map of_nat [0..<64])) (map of_nat [0..<64])"

definition incremental_checksum_preserves_ecn_bits :: bool where
  "incremental_checksum_preserves_ecn_bits \<longleftrightarrow>
     list_all (\<lambda>ecn. let old_tos = push_bit 2 7 OR ecn; new_tos = tos_with_dscp old_tos 0
       in new_tos AND 0x03 = ecn \<and> incremental_matches old_tos new_tos) [0, 1, 2, 3]"

definition tos_with_dscp_replaces_only_the_dscp_bits :: bool where
  "tos_with_dscp_replaces_only_the_dscp_bits \<longleftrightarrow>
     tos_with_dscp 255 0 = 3 \<and> tos_with_dscp 2 63 = 254 \<and> tos_with_dscp 0 7 = push_bit 2 7"

definition flow_key_reversed_is_an_involution :: bool where
  "flow_key_reversed_is_an_involution \<longleftrightarrow>
     (let key = FlowKey_new 0x0a000001 0x0a000002 1234 80 IPPROTO_TCP; back = reversed (reversed key)
      in key = back \<and> fk_src (reversed key) = fk_dst key \<and> fk_sport (reversed key) = fk_dport key)"

definition flow_key_padding_is_always_zeroed :: bool where
  "flow_key_padding_is_always_zeroed \<longleftrightarrow>
     (let key = FlowKey_new 1 2 3 4 IPPROTO_UDP in fk_pad key = (0, 0, 0) \<and> fk_pad (reversed key) = (0, 0, 0))"

text \<open>The header is the same for every TOS byte but for the byte itself and the checksum.\<close>

lemma incremental_always: "incremental_matches old new"
proof -
  let ?h = "\<lambda>tos :: u8. [0x45, tos, 0x05, 0xdc, 0xab, 0xcd, 0x40, 0, 64, IPPROTO_TCP, 0, 0, 203, 0, 113, 7, 110, 110, 110, 110]"
  have w: "be_words (?h tos) = [u16_from_be_bytes (0x45, tos), 0x05dc, 0xabcd, 0x4000, u16_from_be_bytes (64, IPPROTO_TCP), 0,
      u16_from_be_bytes (203, 0), u16_from_be_bytes (113, 7), 0x6e6e, 0x6e6e]" for tos
    by (simp add: u16_from_be_bytes.simps)
  have "csum_replace2 (full_checksum (?h old)) (be_words (?h old) ! 0) (u16_from_be_bytes (0x45, new)) = full_checksum (?h new)"
    by (rule csum_recompute) (simp_all only: w, simp_all)
  then show ?thesis
    by (simp add: incremental_matches_def sample_header_def Let_def case_prod_beta u16_from_be_bytes.simps [of "0x45"])
qed

lemma common_tests_pass:
  "incremental_checksum_matches_full_recompute" "incremental_checksum_preserves_ecn_bits"
  "tos_with_dscp_replaces_only_the_dscp_bits" "flow_key_reversed_is_an_involution" "flow_key_padding_is_always_zeroed"
  by (simp_all add: incremental_checksum_matches_full_recompute_def incremental_checksum_preserves_ecn_bits_def
      tos_with_dscp_replaces_only_the_dscp_bits_def flow_key_reversed_is_an_involution_def
      flow_key_padding_is_always_zeroed_def incremental_always list_all_iff reversed_def FlowKey_new_def)
    (simp_all add: tos_with_dscp_def)

section \<open>Policy rules\<close>

definition rule_msg :: "RuleMessage \<Rightarrow> ipv4addr \<Rightarrow> u32 \<Rightarrow> u32 option \<Rightarrow> u32 option \<Rightarrow> RuleMessage" where
  "rule_msg dflt src table fwmark fwmask =
     dflt\<lparr>rule_family := Inet, rule_src_len := 32, rule_action := ToTable,
       rule_attributes := rule_attributes dflt @ [Source (V4 src), RuleTable table, Priority DUMBARP_PRIORITY]
         @ (case fwmark of Some mark \<Rightarrow> [FwMark mark] | None \<Rightarrow> [])
         @ (case fwmask of Some fm \<Rightarrow> [FwMask fm] | None \<Rightarrow> [])\<rparr>"

definition test_spec :: "ipv4addr \<Rightarrow> u32 option \<Rightarrow> ResolvedSpec" where
  "test_spec src fwmark = \<lparr>rs_src = src, rs_gateway = (10, 0, 0, 1), rs_ifindex = 2, rs_fwmark = fwmark\<rparr>"

text \<open>\<open>RuleMessage::default()\<close> of the netlink library is an argument; it has no attributes.\<close>

definition marked_rule_with_exact_mask_matches :: "RuleMessage \<Rightarrow> bool" where
  "marked_rule_with_exact_mask_matches dflt =
     (let src = (110, 13, 196, 173); msg = rule_msg dflt src 1846396077 (Some 2) (Some FWMASK_EXACT)
      in case parse_dumbarp_rule msg of
           None \<Rightarrow> False
         | Some (table, rule) \<Rightarrow> table = 1846396077 \<and> CurrentRule_matches rule (test_spec src (Some 2)))"

definition marked_rule_with_narrow_mask_is_drift :: "RuleMessage \<Rightarrow> bool" where
  "marked_rule_with_narrow_mask_is_drift dflt =
     (let src = (110, 13, 196, 173); msg = rule_msg dflt src 1846396077 (Some 2) (Some 0x0F)
      in case parse_dumbarp_rule msg of
           None \<Rightarrow> False
         | Some (_, rule) \<Rightarrow> \<not> CurrentRule_matches rule (test_spec src (Some 2)))"

definition marked_rule_without_mask_is_drift :: "RuleMessage \<Rightarrow> bool" where
  "marked_rule_without_mask_is_drift dflt =
     (let src = (110, 13, 196, 173); msg = rule_msg dflt src 1846396077 (Some 2) None
      in case parse_dumbarp_rule msg of
           None \<Rightarrow> False
         | Some (_, rule) \<Rightarrow> \<not> CurrentRule_matches rule (test_spec src (Some 2)))"

definition unmarked_rule_never_matches_marked_spec :: "RuleMessage \<Rightarrow> bool" where
  "unmarked_rule_never_matches_marked_spec dflt =
     (let src = (110, 13, 196, 173); msg = rule_msg dflt src 1846396077 None None
      in case parse_dumbarp_rule msg of
           None \<Rightarrow> False
         | Some (_, rule) \<Rightarrow>
             \<not> CurrentRule_matches rule (test_spec src (Some 2)) \<and> CurrentRule_matches rule (test_spec src None))"

definition zero_fwmark_is_treated_as_unmarked :: "RuleMessage \<Rightarrow> bool" where
  "zero_fwmark_is_treated_as_unmarked dflt =
     (let src = (110, 13, 196, 173); msg = rule_msg dflt src 1846396077 (Some 0) (Some 0)
      in case parse_dumbarp_rule msg of
           None \<Rightarrow> False
         | Some (_, rule) \<Rightarrow> cr_fwmark rule = None \<and> cr_fwmask rule = None)"

definition foreign_priority_is_ignored :: "RuleMessage \<Rightarrow> bool" where
  "foreign_priority_is_ignored dflt =
     (let src = (110, 13, 196, 173); msg = rule_msg dflt src 1846396077 (Some 2) (Some FWMASK_EXACT);
          kept = filter (\<lambda>a. case a of Priority _ \<Rightarrow> False | _ \<Rightarrow> True) (rule_attributes msg);
          msg = msg\<lparr>rule_attributes := kept @ [Priority 100]\<rparr>
      in parse_dumbarp_rule msg = None)"

lemma routing_tests_pass:
  assumes "rule_attributes dflt = []"
  shows "marked_rule_with_exact_mask_matches dflt" "marked_rule_with_narrow_mask_is_drift dflt"
    "marked_rule_without_mask_is_drift dflt" "unmarked_rule_never_matches_marked_spec dflt"
    "zero_fwmark_is_treated_as_unmarked dflt" "foreign_priority_is_ignored dflt"
  using assms
  by (simp_all add: marked_rule_with_exact_mask_matches_def marked_rule_with_narrow_mask_is_drift_def
      marked_rule_without_mask_is_drift_def unmarked_rule_never_matches_marked_spec_def zero_fwmark_is_treated_as_unmarked_def
      foreign_priority_is_ignored_def parse_dumbarp_rule_def rule_msg_def test_spec_def CurrentRule_matches_def
      expected_fwmask_def rule_attrs_empty_def const_defs)

section \<open>Ids and wanted routes\<close>

definition test_daemon :: "string \<Rightarrow> ipv4addr \<Rightarrow> string \<Rightarrow> u8 option \<Rightarrow> ipv4addr list \<Rightarrow> DaemonRoutes" where
  "test_daemon name nexthop device i ips =
     \<lparr>r_name = name, r_nexthop = nexthop, r_device = device, r_dumbarpd_id = i, r_ips = ips\<rparr>"

definition advertised :: "DaemonRoutes list \<Rightarrow> (string \<times> u8 option) list" where
  "advertised ds = map (\<lambda>d. (r_name d, r_dumbarpd_id d)) ds"

definition fresh_ids :: "nat \<Rightarrow> DaemonRoutes list \<Rightarrow> (string, u8) hashmap" where
  "fresh_ids now ds = fst (resolve_ids (advertised ds) [] (from_secs 300) now)"

text \<open>The instant \<open>Instant::now()\<close> a test starts at is an argument.\<close>

definition uses_gateway_device_when_not_overridden :: "nat \<Rightarrow> bool" where
  "uses_gateway_device_when_not_overridden now =
     (let d = [test_daemon ''homelab'' (10, 0, 0, 5) ''br0'' (Some 7) [(110, 110, 110, 110)]];
          ids = fresh_ids now d;
          specs = build_gateway_specs d [] ids False
      in length specs = 1 \<and> sp_iface (specs ! 0) = ''br0'' \<and> sp_fwmark (specs ! 0) = Some 7 \<and>
         sp_gateway (specs ! 0) = (10, 0, 0, 5) \<and> set (map snd ids) = {7})"

definition device_override_wins_for_that_daemon_only :: "nat \<Rightarrow> bool" where
  "device_override_wins_for_that_daemon_only now =
     (let d = [test_daemon ''homelab'' (10, 0, 0, 5) ''br0'' (Some 7) [(110, 110, 110, 110)],
               test_daemon ''edge'' (10, 0, 0, 6) ''br1'' (Some 9) [(120, 120, 120, 120)]];
          overrides = [(''homelab'', ''eno1'')];
          specs = build_gateway_specs d overrides (fresh_ids now d) False
      in sp_iface (specs ! 0) = ''eno1'' \<and> sp_iface (specs ! 1) = ''br1'')"

definition daemon_without_id_is_skipped :: "nat \<Rightarrow> bool" where
  "daemon_without_id_is_skipped now =
     (let d = [test_daemon ''legacy'' (10, 0, 0, 7) ''br0'' None [(1, 2, 3, 4)]];
          ids = fresh_ids now d;
          specs = build_gateway_specs d [] ids False
      in specs = [] \<and> ids = [])"

definition out_of_range_and_duplicate_ids_are_dropped :: "nat \<Rightarrow> bool" where
  "out_of_range_and_duplicate_ids_are_dropped now =
     (let d = [test_daemon ''a'' (10, 0, 0, 1) ''br0'' (Some 64) [(1, 1, 1, 1)],
               test_daemon ''b'' (10, 0, 0, 2) ''br0'' (Some 0) [(2, 2, 2, 2)],
               test_daemon ''c'' (10, 0, 0, 3) ''br0'' (Some 7) [(3, 3, 3, 3)],
               test_daemon ''d'' (10, 0, 0, 4) ''br0'' (Some 7) [(4, 4, 4, 4)]];
          ids = fresh_ids now d;
          specs = build_gateway_specs d [] ids False
      in set (map snd ids) = {7} \<and> length specs = 1 \<and> sp_src (specs ! 0) = (3, 3, 3, 3) \<and>
         sp_fwmark (specs ! 0) = Some 7)"

definition every_emitted_spec_carries_a_fwmark :: "nat \<Rightarrow> bool" where
  "every_emitted_spec_carries_a_fwmark now =
     (let d = [test_daemon ''a'' (10, 0, 0, 1) ''br0'' None [(1, 1, 1, 1)],
               test_daemon ''b'' (10, 0, 0, 2) ''br0'' (Some 3) [(2, 2, 2, 2), (5, 5, 5, 5)],
               test_daemon ''c'' (10, 0, 0, 3) ''br0'' (Some 70) [(3, 3, 3, 3)]];
          specs = build_gateway_specs d [] (fresh_ids now d) False
      in length specs = 2 \<and> list_all (\<lambda>s. sp_fwmark s = Some 3) specs)"

definition source_based_routing_emits_unmarked_rules_for_every_daemon :: "nat \<Rightarrow> bool" where
  "source_based_routing_emits_unmarked_rules_for_every_daemon now =
     (let d = [test_daemon ''a'' (10, 0, 0, 1) ''br0'' None [(1, 1, 1, 1)],
               test_daemon ''b'' (10, 0, 0, 2) ''br1'' (Some 3) [(2, 2, 2, 2), (5, 5, 5, 5)],
               test_daemon ''c'' (10, 0, 0, 3) ''br2'' (Some 70) [(3, 3, 3, 3)]];
          specs = build_gateway_specs d [] (fresh_ids now d) True
      in length specs = 4 \<and> list_all (\<lambda>s. sp_fwmark s = None) specs \<and> sp_src (specs ! 0) = (1, 1, 1, 1) \<and>
         sp_iface (specs ! 0) = ''br0'' \<and> sp_src (specs ! 3) = (3, 3, 3, 3) \<and> sp_gateway (specs ! 3) = (10, 0, 0, 3))"

definition idless_response_reuses_remembered_id_inside_the_window :: "nat \<Rightarrow> bool" where
  "idless_response_reuses_remembered_id_inside_the_window t0 =
     (let stale = from_secs 300;
          (first, remembered) = resolve_ids [(''a'', Some 4)] [] stale t0;
          later = t0 + from_secs 60;
          (second, remembered) = resolve_ids [(''a'', None)] remembered stale later
      in hm_get first ''a'' = Some 4 \<and> hm_get second ''a'' = Some 4)"

definition remembered_id_expires_past_the_window :: "nat \<Rightarrow> bool" where
  "remembered_id_expires_past_the_window t0 =
     (let stale = from_secs 300;
          (_, remembered) = resolve_ids [(''a'', Some 4)] [] stale t0;
          later = t0 + from_secs 301;
          (out, remembered) = resolve_ids [(''a'', None)] remembered stale later
      in out = [] \<and> remembered = [])"

text \<open>The loop of the next test, over the seconds of its polls.\<close>

fun reuse_loop :: "nat \<Rightarrow> u64 list \<Rightarrow> (string, RememberedId) hashmap \<Rightarrow> bool \<times> (string, RememberedId) hashmap" where
  "reuse_loop t0 [] remembered = (True, remembered)"
| "reuse_loop t0 (secs # rest) remembered =
     (let (out, remembered') = resolve_ids [(''a'', None)] remembered (from_secs 300) (t0 + from_secs secs);
          (ok, remembered'') = reuse_loop t0 rest remembered'
      in (hm_get out ''a'' = Some 4 \<and> ok, remembered''))"

definition reuse_does_not_slide_the_expiry_window :: "nat \<Rightarrow> bool" where
  "reuse_does_not_slide_the_expiry_window t0 =
     (let stale = from_secs 300;
          (_, remembered) = resolve_ids [(''a'', Some 4)] [] stale t0;
          (ok, remembered) = reuse_loop t0 [100, 200, 290] remembered;
          (out, _) = resolve_ids [(''a'', None)] remembered stale (t0 + from_secs 300)
      in ok \<and> out = [])"

definition a_changed_id_wins_immediately :: "nat \<Rightarrow> bool" where
  "a_changed_id_wins_immediately t0 =
     (let stale = from_secs 300;
          (_, remembered) = resolve_ids [(''a'', Some 4)] [] stale t0;
          (out1, remembered) = resolve_ids [(''a'', Some 9)] remembered stale (t0 + from_secs 10);
          (out2, remembered) = resolve_ids [(''a'', None)] remembered stale (t0 + from_secs 20)
      in hm_get out1 ''a'' = Some 9 \<and> hm_get out2 ''a'' = Some 9)"

definition a_remembered_id_cannot_collide_with_a_live_one :: "nat \<Rightarrow> bool" where
  "a_remembered_id_cannot_collide_with_a_live_one t0 =
     (let stale = from_secs 300;
          (_, remembered) = resolve_ids [(''a'', Some 4)] [] stale t0;
          (out, _) = resolve_ids [(''b'', Some 4), (''a'', None)] remembered stale (t0 + from_secs 10)
      in hm_get out ''b'' = Some 4 \<and> hm_get out ''a'' = None)"

lemmas resolve_eval = resolve_ids_def resolve_id_def candidate_def validate_id_def from_secs_def DSCP_ID_MAX_def
  hm_retain_def

lemmas gateway_test_eval = Let_def test_daemon_def advertised_def fresh_ids_def mark_for_def resolve_eval

lemma gateway_specs_tests_pass:
  "uses_gateway_device_when_not_overridden now" "device_override_wins_for_that_daemon_only now"
  "daemon_without_id_is_skipped now" "out_of_range_and_duplicate_ids_are_dropped now"
  "every_emitted_spec_carries_a_fwmark now" "source_based_routing_emits_unmarked_rules_for_every_daemon now"
  by (simp_all add: uses_gateway_device_when_not_overridden_def device_override_wins_for_that_daemon_only_def
      daemon_without_id_is_skipped_def out_of_range_and_duplicate_ids_are_dropped_def
      every_emitted_spec_carries_a_fwmark_def source_based_routing_emits_unmarked_rules_for_every_daemon_def
      gateway_test_eval)

lemma resolve_ids_tests_pass:
  "idless_response_reuses_remembered_id_inside_the_window t0" "remembered_id_expires_past_the_window t0"
  "reuse_does_not_slide_the_expiry_window t0" "a_changed_id_wins_immediately t0"
  "a_remembered_id_cannot_collide_with_a_live_one t0"
  by (simp_all add: idless_response_reuses_remembered_id_inside_the_window_def remembered_id_expires_past_the_window_def
      reuse_does_not_slide_the_expiry_window_def a_changed_id_wins_immediately_def
      a_remembered_id_cannot_collide_with_a_live_one_def resolve_eval)

section \<open>Wire formats\<close>

text \<open>JSON is outside the sources: a test takes the decoder \<open>from_str\<close>, which is to give the record a text spells.\<close>

definition homelab_json :: string where
  \<open>homelab_json = ''{"daemons":[{"name":"homelab","nexthop":"10.0.0.5","device":"br0","dumbarpd_id":7,"ips":["110.110.110.110"]}]}''\<close>

definition edge_json :: string where
  \<open>edge_json = ''{"daemons":[{"name":"edge","nexthop":"10.0.0.6","device":"br1","ips":[]}]}''\<close>

definition bad_ip_json :: string where
  \<open>bad_ip_json = ''{"daemons":[{"name":"x","nexthop":"not-an-ip","device":"br0","ips":[]}]}''\<close>

definition no_dev_json :: string where
  \<open>no_dev_json = ''{"daemons":[{"name":"x","nexthop":"10.0.0.5","device":"","ips":[]}]}''\<close>

definition old_json :: string where
  \<open>old_json = ''{"ips":["1.2.3.4"]}''\<close>

definition daemons_response_round_trips :: "(string \<Rightarrow> DaemonsResponse option) \<Rightarrow> bool" where
  "daemons_response_round_trips from_str =
     (case from_str homelab_json of
        None \<Rightarrow> False
      | Some parsed \<Rightarrow>
          (case DaemonsResponse_parse parsed ''gw'' of
             Inl _ \<Rightarrow> False
           | Inr routes \<Rightarrow> length routes = 1 \<and> r_name (routes ! 0) = ''homelab'' \<and> r_nexthop (routes ! 0) = (10, 0, 0, 5) \<and>
               r_device (routes ! 0) = ''br0'' \<and> r_dumbarpd_id (routes ! 0) = Some 7 \<and>
               r_ips (routes ! 0) = [(110, 110, 110, 110)]))"

definition daemons_response_tolerates_missing_id :: "(string \<Rightarrow> DaemonsResponse option) \<Rightarrow> bool" where
  "daemons_response_tolerates_missing_id from_str =
     (case from_str edge_json of
        None \<Rightarrow> False
      | Some parsed \<Rightarrow>
          (case DaemonsResponse_parse parsed ''gw'' of
             Inl _ \<Rightarrow> False
           | Inr routes \<Rightarrow> r_dumbarpd_id (routes ! 0) = None \<and> r_ips (routes ! 0) = []))"

definition daemons_response_rejects_bad_nexthop_and_device :: "(string \<Rightarrow> DaemonsResponse option) \<Rightarrow> bool" where
  "daemons_response_rejects_bad_nexthop_and_device from_str =
     ((case from_str bad_ip_json of None \<Rightarrow> False | Some parsed \<Rightarrow> isl (DaemonsResponse_parse parsed ''gw'')) \<and>
      (case from_str no_dev_json of None \<Rightarrow> False | Some parsed \<Rightarrow> isl (DaemonsResponse_parse parsed ''gw'')))"

definition leases_response_tolerates_daemon_without_id :: "(string \<Rightarrow> LeasesResponse option) \<Rightarrow> bool" where
  "leases_response_tolerates_daemon_without_id from_str =
     (case from_str old_json of
        None \<Rightarrow> False
      | Some parsed \<Rightarrow>
          (case LeasesResponse_parse parsed ''d'' of
             Inl _ \<Rightarrow> False
           | Inr leases \<Rightarrow> l_dumbarpd_id leases = None \<and> l_ips leases = [(1, 2, 3, 4)]))"

text \<open>One entry of a response, as the texts of the tests spell it.\<close>

definition one_entry :: "string \<Rightarrow> string \<Rightarrow> string \<Rightarrow> u8 option \<Rightarrow> string list \<Rightarrow> DaemonsResponse" where
  "one_entry name nexthop device i ips =
     \<lparr>daemons = [\<lparr>v_name = name, v_nexthop = nexthop, v_device = device, v_dumbarpd_id = i, v_ips = ips\<rparr>]\<rparr>"

lemma test_addresses:
  "Ipv4Addr_parse ''10.0.0.5'' = Some (10, 0, 0, 5)" "Ipv4Addr_parse ''110.110.110.110'' = Some (110, 110, 110, 110)"
  "Ipv4Addr_parse ''10.0.0.6'' = Some (10, 0, 0, 6)" "Ipv4Addr_parse ''1.2.3.4'' = Some (1, 2, 3, 4)"
  "Ipv4Addr_parse ''not-an-ip'' = None"
  by code_simp+

lemma api_tests_pass:
  "from_str homelab_json = Some (one_entry ''homelab'' ''10.0.0.5'' ''br0'' (Some 7) [''110.110.110.110'']) \<Longrightarrow>
     daemons_response_round_trips from_str"
  "from_str edge_json = Some (one_entry ''edge'' ''10.0.0.6'' ''br1'' None []) \<Longrightarrow>
     daemons_response_tolerates_missing_id from_str"
  "from_str bad_ip_json = Some (one_entry ''x'' ''not-an-ip'' ''br0'' None []) \<Longrightarrow>
     from_str no_dev_json = Some (one_entry ''x'' ''10.0.0.5'' [] None []) \<Longrightarrow>
     daemons_response_rejects_bad_nexthop_and_device from_str"
  "from_leases old_json = Some \<lparr>lr_ips = [''1.2.3.4''], lr_dumbarpd_id = None\<rparr> \<Longrightarrow>
     leases_response_tolerates_daemon_without_id from_leases"
  by (simp_all add: daemons_response_round_trips_def daemons_response_tolerates_missing_id_def
      daemons_response_rejects_bad_nexthop_and_device_def leases_response_tolerates_daemon_without_id_def one_entry_def
      DaemonsResponse_parse_def LeasesResponse_parse_def parse_entry_def parse_ips_def test_addresses)

end
