(* ===== verification/Config_Tests.thy ===== *)
theory Config_Tests
  imports Routerd Gateway Daemon Dhcp_Lease
begin

text \<open>
  The unit tests of the configurations and of the lease files, run on the model: \<open>mod tests\<close> of
  \<open>src/dumbarp-routerd/src/config.rs\<close>, \<open>src/dumbarp-gateway/src/config.rs\<close>, \<open>src/dumbarp-daemon/src/config.rs\<close> and
  \<open>src/dhcp-lease-read/src/isc_dhclient/lease_parser.rs\<close>. TOML is outside the sources: a test takes the decoder
  \<open>from_toml\<close>, and the lemma after the tests says that they hold for a decoder that gives the record a text
  spells, with the defaults of the sources for what the text leaves out.
\<close>

section \<open>Texts\<close>

definition lines_of :: "string list \<Rightarrow> string" where
  "lines_of ls = concat (map (\<lambda>l. l @ [CHR 0x0A]) ls)"

definition quoted :: "string \<Rightarrow> string" where
  "quoted s = CHR 0x22 # s @ [CHR 0x22]"

definition section_line :: "string \<Rightarrow> string" where
  "section_line name = CHR 0x5B # name @ [CHR 0x5D]"

definition setting :: "string \<Rightarrow> string \<Rightarrow> string" where
  "setting key text = key @ '' = '' @ text"

definition BASE :: string where
  "BASE = lines_of [[], section_line (section_line ''daemons''), setting ''name'' (quoted ''homelab''),
     setting ''endpoint'' (quoted ''http://10.0.0.5:1028''), setting ''auth_token'' (quoted ''t''),
     setting ''nexthop'' (quoted ''10.0.0.5''), setting ''device'' (quoted ''br0'')]"

section \<open>The router daemon\<close>

text \<open>\<open>load_str\<close> writes the text to a fresh file and loads it from there.\<close>

definition load_str :: "(string \<Rightarrow> 'url Config option) \<Rightarrow> string \<Rightarrow> Routerd.load_error + 'url Config" where
  "load_str from_toml raw = load (\<lambda>_. Some raw) from_toml ()"

definition DSCP_ETH1 :: string where
  "DSCP_ETH1 = lines_of [[], section_line ''dscp'', setting ''ifaces'' (section_line (quoted ''eth1''))]"

definition GATEWAY :: string where
  "GATEWAY = lines_of [[], section_line ''gateway'', setting ''endpoint'' (quoted ''http://10.0.0.1:1029''),
     setting ''auth_token'' (quoted ''t'')]"

definition accepts_minimal_config :: "(string \<Rightarrow> 'url Config option) \<Rightarrow> bool" where
  "accepts_minimal_config from_toml =
     (case load_str from_toml (BASE @ DSCP_ETH1) of
        Inl _ \<Rightarrow> False
      | Inr cfg \<Rightarrow> ifaces (dscp cfg) = [''eth1''] \<and> refresh_interval_secs cfg = 30 \<and> \<not> source_based_routing cfg)"

definition source_based_routing_can_be_ticked_on :: "(string \<Rightarrow> 'url Config option) \<Rightarrow> bool" where
  "source_based_routing_can_be_ticked_on from_toml =
     (case load_str from_toml (lines_of [setting ''source_based_routing'' ''true''] @ BASE @ DSCP_ETH1) of
        Inl _ \<Rightarrow> False
      | Inr cfg \<Rightarrow> source_based_routing cfg)"

definition rejects_empty_dscp_ifaces :: "(string \<Rightarrow> 'url Config option) \<Rightarrow> bool" where
  "rejects_empty_dscp_ifaces from_toml =
     isl (load_str from_toml (BASE @ lines_of [[], section_line ''dscp'', setting ''ifaces'' (section_line [])]))"

definition rejects_missing_dscp_section :: "(string \<Rightarrow> 'url Config option) \<Rightarrow> bool" where
  "rejects_missing_dscp_section from_toml = isl (load_str from_toml BASE)"

definition rejects_stale_shorter_than_refresh :: "(string \<Rightarrow> 'url Config option) \<Rightarrow> bool" where
  "rejects_stale_shorter_than_refresh from_toml =
     isl (load_str from_toml (lines_of [setting ''refresh_interval_secs'' ''60'', setting ''stale_after_secs'' ''30'']
       @ BASE @ DSCP_ETH1))"

definition rejects_duplicate_daemon_names :: "(string \<Rightarrow> 'url Config option) \<Rightarrow> bool" where
  "rejects_duplicate_daemon_names from_toml = isl (load_str from_toml (BASE @ BASE @ DSCP_ETH1))"

definition accepts_gateway_mode :: "(string \<Rightarrow> 'url Config option) \<Rightarrow> bool" where
  "accepts_gateway_mode from_toml =
     (case load_str from_toml (GATEWAY @ DSCP_ETH1) of
        Inl _ \<Rightarrow> False
      | Inr cfg \<Rightarrow>
          (case gateway cfg of
             None \<Rightarrow> False
           | Some gw \<Rightarrow> ge_auth_token gw = ''t'' \<and> ge_device_overrides gw = [] \<and> cfg_daemons cfg = []))"

definition OVERRIDES :: string where
  "OVERRIDES = lines_of [[], section_line ''gateway.device_overrides'', setting ''homelab'' (quoted ''eno1'')]"

definition accepts_gateway_mode_with_device_overrides :: "(string \<Rightarrow> 'url Config option) \<Rightarrow> bool" where
  "accepts_gateway_mode_with_device_overrides from_toml =
     (case load_str from_toml (GATEWAY @ OVERRIDES @ DSCP_ETH1) of
        Inl _ \<Rightarrow> False
      | Inr cfg \<Rightarrow>
          (case gateway cfg of
             None \<Rightarrow> False
           | Some gw \<Rightarrow> hm_get (ge_device_overrides gw) ''homelab'' = Some ''eno1''))"

definition rejects_both_gateway_and_daemons :: "(string \<Rightarrow> 'url Config option) \<Rightarrow> bool" where
  "rejects_both_gateway_and_daemons from_toml = isl (load_str from_toml (BASE @ GATEWAY @ DSCP_ETH1))"

definition rejects_neither_gateway_nor_daemons :: "(string \<Rightarrow> 'url Config option) \<Rightarrow> bool" where
  "rejects_neither_gateway_nor_daemons from_toml = isl (load_str from_toml (tl DSCP_ETH1))"

definition rejects_empty_gateway_token :: "(string \<Rightarrow> 'url Config option) \<Rightarrow> bool" where
  "rejects_empty_gateway_token from_toml =
     isl (load_str from_toml (lines_of [section_line ''gateway'', setting ''endpoint'' (quoted ''http://10.0.0.1:1029''),
       setting ''auth_token'' (quoted [])] @ DSCP_ETH1))"

text \<open>The records the texts spell; the address of an endpoint is whatever its type makes of it.\<close>

definition homelab :: "'url \<Rightarrow> 'url DaemonEntry" where
  "homelab u = \<lparr>de_name = ''homelab'', de_endpoint = u, de_auth_token = ''t'', de_nexthop = (10, 0, 0, 5), de_device = ''br0''\<rparr>"

definition router_config ::
  "'url DaemonEntry list \<Rightarrow> 'url GatewayEntry option \<Rightarrow> string list \<Rightarrow> 'url Config" where
  "router_config ds gw is = \<lparr>refresh_interval_secs = default_refresh, stale_after_secs = default_stale,
     source_based_routing = False, cfg_daemons = ds, gateway = gw, dscp = \<lparr>ifaces = is\<rparr>\<rparr>"

lemmas load_str_eval = load_str_def load_def validate_def router_config_def homelab_def default_refresh_def default_stale_def

lemma routerd_accepting_tests_pass:
  fixes from_toml :: "string \<Rightarrow> 'url Config option"
  shows "from_toml (BASE @ DSCP_ETH1) = Some (router_config [homelab u] None [''eth1'']) \<Longrightarrow> accepts_minimal_config from_toml"
    "from_toml (lines_of [setting ''source_based_routing'' ''true''] @ BASE @ DSCP_ETH1) =
       Some ((router_config [homelab u] None [''eth1''])\<lparr>source_based_routing := True\<rparr>) \<Longrightarrow>
     source_based_routing_can_be_ticked_on from_toml"
    "from_toml (GATEWAY @ DSCP_ETH1) = Some (router_config [] (Some \<lparr>ge_endpoint = u, ge_auth_token = ''t'',
       ge_device_overrides = []\<rparr>) [''eth1'']) \<Longrightarrow> accepts_gateway_mode from_toml"
    "from_toml (GATEWAY @ OVERRIDES @ DSCP_ETH1) = Some (router_config [] (Some \<lparr>ge_endpoint = u, ge_auth_token = ''t'',
       ge_device_overrides = [(''homelab'', ''eno1'')]\<rparr>) [''eth1'']) \<Longrightarrow>
     accepts_gateway_mode_with_device_overrides from_toml"
  by (simp_all add: accepts_minimal_config_def source_based_routing_can_be_ticked_on_def accepts_gateway_mode_def
      accepts_gateway_mode_with_device_overrides_def load_str_eval)

lemma routerd_rejecting_tests_pass:
  fixes from_toml :: "string \<Rightarrow> 'url Config option"
  shows "from_toml (BASE @ lines_of [[], section_line ''dscp'', setting ''ifaces'' (section_line [])]) =
       Some (router_config [homelab u] None []) \<Longrightarrow> rejects_empty_dscp_ifaces from_toml"
    "from_toml BASE = None \<Longrightarrow> rejects_missing_dscp_section from_toml"
    "from_toml (lines_of [setting ''refresh_interval_secs'' ''60'', setting ''stale_after_secs'' ''30''] @ BASE @ DSCP_ETH1) =
       Some ((router_config [homelab u] None [''eth1''])\<lparr>refresh_interval_secs := 60, stale_after_secs := 30\<rparr>) \<Longrightarrow>
     rejects_stale_shorter_than_refresh from_toml"
    "from_toml (BASE @ BASE @ DSCP_ETH1) = Some (router_config [homelab u, homelab u] None [''eth1'']) \<Longrightarrow>
     rejects_duplicate_daemon_names from_toml"
    "from_toml (BASE @ GATEWAY @ DSCP_ETH1) = Some (router_config [homelab u] (Some \<lparr>ge_endpoint = v, ge_auth_token = ''t'',
       ge_device_overrides = []\<rparr>) [''eth1'']) \<Longrightarrow> rejects_both_gateway_and_daemons from_toml"
    "from_toml (tl DSCP_ETH1) = Some (router_config [] None [''eth1'']) \<Longrightarrow> rejects_neither_gateway_nor_daemons from_toml"
    "from_toml (lines_of [section_line ''gateway'', setting ''endpoint'' (quoted ''http://10.0.0.1:1029''),
       setting ''auth_token'' (quoted [])] @ DSCP_ETH1) = Some (router_config [] (Some \<lparr>ge_endpoint = u, ge_auth_token = [],
       ge_device_overrides = []\<rparr>) [''eth1'']) \<Longrightarrow> rejects_empty_gateway_token from_toml"
  by (simp_all add: rejects_empty_dscp_ifaces_def rejects_missing_dscp_section_def rejects_stale_shorter_than_refresh_def
      rejects_duplicate_daemon_names_def rejects_both_gateway_and_daemons_def rejects_neither_gateway_nor_daemons_def
      rejects_empty_gateway_token_def load_str_eval)

section \<open>The gateway\<close>

definition SERVE :: string where
  "SERVE = lines_of [[], section_line ''serve'', setting ''listen'' (quoted ''0.0.0.0:1029''), setting ''auth_token'' (quoted ''t'')]"

definition gw_load_str :: "(string \<Rightarrow> ('url, 'sock) GwConfig option) \<Rightarrow> string \<Rightarrow> gw_config_error + ('url, 'sock) GwConfig" where
  "gw_load_str from_toml raw = gw_load (\<lambda>_. Some raw) from_toml ()"

definition manages_routes_by_default :: "(string \<Rightarrow> ('url, 'sock) GwConfig option) \<Rightarrow> bool" where
  "manages_routes_by_default from_toml =
     (case gw_load_str from_toml BASE of Inl _ \<Rightarrow> False | Inr cfg \<Rightarrow> gc_manage_routes cfg)"

definition route_management_can_be_ticked_off_alongside_serve :: "(string \<Rightarrow> ('url, 'sock) GwConfig option) \<Rightarrow> bool" where
  "route_management_can_be_ticked_off_alongside_serve from_toml =
     (case gw_load_str from_toml (lines_of [setting ''manage_routes'' ''false''] @ BASE @ SERVE) of
        Inl _ \<Rightarrow> False
      | Inr cfg \<Rightarrow> \<not> gc_manage_routes cfg \<and> gc_serve cfg \<noteq> None)"

definition rejects_route_management_off_without_serve :: "(string \<Rightarrow> ('url, 'sock) GwConfig option) \<Rightarrow> bool" where
  "rejects_route_management_off_without_serve from_toml =
     isl (gw_load_str from_toml (lines_of [setting ''manage_routes'' ''false''] @ BASE))"

definition gateway_config :: "'url \<Rightarrow> bool \<Rightarrow> 'sock ServeConfig option \<Rightarrow> ('url, 'sock) GwConfig" where
  "gateway_config u manage serve = \<lparr>gc_refresh_interval_secs = gw_default_refresh, gc_stale_after_secs = gw_default_stale,
     gc_manage_routes = manage, gc_daemons = [\<lparr>gd_name = ''homelab'', gd_endpoint = u, gd_auth_token = ''t'',
       gd_nexthop = (10, 0, 0, 5), gd_device = ''br0''\<rparr>], gc_serve = serve\<rparr>"

lemma gateway_tests_pass:
  "from_toml BASE = Some (gateway_config u gw_default_manage_routes None) \<Longrightarrow> manages_routes_by_default from_toml"
  "from_toml (lines_of [setting ''manage_routes'' ''false''] @ BASE @ SERVE) =
     Some (gateway_config u False (Some \<lparr>listen = a, serve_auth_token = ''t''\<rparr>)) \<Longrightarrow>
   route_management_can_be_ticked_off_alongside_serve from_toml"
  "from_toml (lines_of [setting ''manage_routes'' ''false''] @ BASE) = Some (gateway_config u False None) \<Longrightarrow>
   rejects_route_management_off_without_serve from_toml"
  by (simp_all add: manages_routes_by_default_def route_management_can_be_ticked_off_alongside_serve_def
      rejects_route_management_off_without_serve_def gw_load_str_def gw_load_def check_config_def gateway_config_def
      gw_default_refresh_def gw_default_stale_def gw_default_manage_routes_def)

section \<open>The daemon\<close>

definition base :: "string \<Rightarrow> string" where
  "base extra = lines_of [setting ''auth_token'' (quoted ''t''), setting ''ifaces'' (section_line (quoted ''eth0''))] @ extra"

definition d_load_str :: "(string \<Rightarrow> 'sock DConfig option) \<Rightarrow> string \<Rightarrow> dconfig_error + 'sock DConfig" where
  "d_load_str from_toml raw = d_load (\<lambda>_. Some raw) from_toml ()"

definition id_line :: "u8 \<Rightarrow> string" where
  "id_line i = setting ''dumbarpd_id'' (dec (unat i))"

definition dumbarpd_id_defaults_to_disabled :: "(string \<Rightarrow> 'sock DConfig option) \<Rightarrow> bool" where
  "dumbarpd_id_defaults_to_disabled from_toml =
     (case d_load_str from_toml (base []) of Inl _ \<Rightarrow> False | Inr cfg \<Rightarrow> dc_dumbarpd_id cfg = 0 \<and> dscp_id cfg = None)"

definition dumbarpd_id_in_range_is_accepted :: "(string \<Rightarrow> 'sock DConfig option) \<Rightarrow> bool" where
  "dumbarpd_id_in_range_is_accepted from_toml =
     list_all (\<lambda>i. case d_load_str from_toml (base (id_line i)) of Inl _ \<Rightarrow> False | Inr cfg \<Rightarrow> dscp_id cfg = Some i) [1, 7, 63]"

definition dumbarpd_id_out_of_range_is_rejected :: "(string \<Rightarrow> 'sock DConfig option) \<Rightarrow> bool" where
  "dumbarpd_id_out_of_range_is_rejected from_toml =
     list_all (\<lambda>i. isl (d_load_str from_toml (base (id_line i)))) [64, 100, 255]"

definition daemon_config :: "'sock \<Rightarrow> u8 \<Rightarrow> 'sock DConfig" where
  "daemon_config a i = \<lparr>dc_listen = a, dc_auth_token = ''t'', dc_refresh_interval_secs = d_default_refresh, dc_ifaces = [''eth0''],
     dc_manage_routing = d_default_manage_routing, dc_neigh_refresh_interval_secs = d_default_neigh_refresh, dc_dumbarpd_id = i\<rparr>"

lemma daemon_tests_pass:
  assumes "from_toml (base []) = Some (daemon_config a 0)" "\<And>i. from_toml (base (id_line i)) = Some (daemon_config a i)"
  shows "dumbarpd_id_defaults_to_disabled from_toml" "dumbarpd_id_in_range_is_accepted from_toml"
    "dumbarpd_id_out_of_range_is_rejected from_toml"
  using assms
  by (simp_all add: dumbarpd_id_defaults_to_disabled_def dumbarpd_id_in_range_is_accepted_def
      dumbarpd_id_out_of_range_is_rejected_def d_load_str_def d_load_def d_check_def daemon_config_def dscp_id_def
      d_default_refresh_def DSCP_ID_MAX_def)

section \<open>Lease files\<close>

text \<open>
  The sample is two leases of the same host. Its lines are written out; the lemma below says that they
  are what \<open>print_lease\<close> writes for their statements.
\<close>

definition SAMPLE :: string where
  "SAMPLE = lines_of
     [''lease {'', ''  interface '' @ quoted ''wan0'' @ '';'', ''  fixed-address 192.168.1.104;'',
      ''  option subnet-mask 255.255.255.0;'', ''  option dhcp-lease-time 43200;'', ''  option routers 192.168.1.1;'',
      ''  option dhcp-message-type 5;'', ''  option dhcp-server-identifier 192.168.1.1;'',
      ''  option domain-name-servers 192.168.1.1;'', ''  option dhcp-renewal-time 21600;'',
      ''  option dhcp-rebinding-time 37800;'', ''  option broadcast-address 192.168.1.255;'',
      ''  option host-name '' @ quoted ''zako'' @ '';'', ''  option domain-name '' @ quoted ''lan'' @ '';'',
      ''  renew 0 2026/05/24 14:49:33;'', ''  rebind 0 2026/05/24 20:21:15;'', ''  expire 0 2026/05/24 21:51:15;'', ''}'',
      ''lease {'', ''  interface '' @ quoted ''wan0'' @ '';'', ''  fixed-address 192.168.1.104;'',
      ''  option subnet-mask 255.255.255.0;'', ''  option routers 192.168.1.1;'', ''  option dhcp-lease-time 43200;'',
      ''  option dhcp-message-type 5;'', ''  option domain-name-servers 192.168.1.1;'',
      ''  option dhcp-server-identifier 192.168.1.1;'', ''  option dhcp-renewal-time 21600;'',
      ''  option broadcast-address 192.168.1.255;'', ''  option dhcp-rebinding-time 37800;'',
      ''  option host-name '' @ quoted ''zako'' @ '';'', ''  option domain-name '' @ quoted ''lan'' @ '';'',
      ''  renew 0 2026/05/24 16:04:01;'', ''  rebind 0 2026/05/24 21:36:18;'', ''  expire 0 2026/05/24 23:06:18;'', ''}'']"

definition parses_sample_leases :: "nom \<Rightarrow> datetime \<Rightarrow> bool" where
  "parses_sample_leases N cal =
     (case parse_leases N cal SAMPLE of
        None \<Rightarrow> False
      | Some (rest, ls) \<Rightarrow>
          list_all is_space rest \<and> length ls = 2 \<and>
          (let first = ls ! 0 in
             interface first = Some ''wan0'' \<and> fixed_address first = Some ''192.168.1.104'' \<and>
             length (options first) = 11 \<and>
             options first ! 0 = (''subnet-mask'', ''255.255.255.0'') \<and>
             options first ! 9 = (''host-name'', ''zako'') \<and>
             options first ! 10 = (''domain-name'', ''lan'') \<and>
             expire first = cal 2026 5 24 21 51 15) \<and>
          renew (ls ! 1) = cal 2026 5 24 16 4 1)"

definition sample_stmts :: "src_stmt list list" where
  "sample_stmts =
     [[SrcInterface ''wan0'', SrcAddress ''192.168.1.104'', SrcPlain ''subnet-mask'' ''255.255.255.0'',
       SrcPlain ''dhcp-lease-time'' ''43200'', SrcPlain ''routers'' ''192.168.1.1'', SrcPlain ''dhcp-message-type'' ''5'',
       SrcPlain ''dhcp-server-identifier'' ''192.168.1.1'', SrcPlain ''domain-name-servers'' ''192.168.1.1'',
       SrcPlain ''dhcp-renewal-time'' ''21600'', SrcPlain ''dhcp-rebinding-time'' ''37800'',
       SrcPlain ''broadcast-address'' ''192.168.1.255'', SrcQuoted ''host-name'' ''zako'', SrcQuoted ''domain-name'' ''lan'',
       SrcDate RenewDate 0 2026 5 24 14 49 33, SrcDate RebindDate 0 2026 5 24 20 21 15, SrcDate ExpireDate 0 2026 5 24 21 51 15],
      [SrcInterface ''wan0'', SrcAddress ''192.168.1.104'', SrcPlain ''subnet-mask'' ''255.255.255.0'',
       SrcPlain ''routers'' ''192.168.1.1'', SrcPlain ''dhcp-lease-time'' ''43200'', SrcPlain ''dhcp-message-type'' ''5'',
       SrcPlain ''domain-name-servers'' ''192.168.1.1'', SrcPlain ''dhcp-server-identifier'' ''192.168.1.1'',
       SrcPlain ''dhcp-renewal-time'' ''21600'', SrcPlain ''broadcast-address'' ''192.168.1.255'',
       SrcPlain ''dhcp-rebinding-time'' ''37800'', SrcQuoted ''host-name'' ''zako'', SrcQuoted ''domain-name'' ''lan'',
       SrcDate RenewDate 0 2026 5 24 16 4 1, SrcDate RebindDate 0 2026 5 24 21 36 18, SrcDate ExpireDate 0 2026 5 24 23 6 18]]"

lemma SAMPLE_printed: "SAMPLE = concat (map print_lease sample_stmts)"
  by (simp add: SAMPLE_def sample_stmts_def lines_of_def quoted_def print_lease_def num2_def num_def dec.simps
      digit_char_def char_of_def bit_0)

lemma lease_tests_pass:
  assumes "nom_laws N" "\<And>h mi se. h < 24 \<Longrightarrow> mi < 60 \<Longrightarrow> se < 60 \<Longrightarrow> cal 2026 5 24 h mi se \<noteq> None"
  shows "parses_sample_leases N cal"
proof -
  have p: "list_all (list_all (printable cal)) sample_stmts"
    using assms(2) by (simp add: sample_stmts_def is_alnum_def is_blank_def is_space_def)
  have "parse_leases N cal SAMPLE = Some ([], map (lease_of cal) sample_stmts)"
    unfolding SAMPLE_printed by (rule parse_leases_printed [OF assms(1) p])
  then show ?thesis
    using assms(2) [of 21 51 15] assms(2) [of 16 4 1] assms(2) [of 14 49 33] assms(2) [of 20 21 15] assms(2) [of 21 36 18]
      assms(2) [of 23 6 18]
    by (auto simp: parses_sample_leases_def sample_stmts_def lease_of_def Lease_default_def Let_def)
qed

end
