(* ===== verification/Spec2Isabelle.thy ===== *)
theory Spec2Isabelle
  imports Ebpf Routerd_Ebpf Routerd_Main Gateway_Main Neigh Daemon_Main Responder K8s_Main Dhcp_Lease
    Unit_Tests Config_Tests
begin

text \<open>
  dumbarp lets hosts answer ARP for addresses they lease, tags the traffic of these addresses with an
  identity in the DSCP field, and lets routers send replies back through the host the traffic came
  from. This development models the Rust sources under \<open>src/\<close> and proves what makes them correct.

  \<^bold>\<open>The parts and how they interact.\<close>
  \<^item> On every leasing host the daemon \<open>dumbarpd\<close> (\<open>dumbarp-daemon\<close>) runs a DHCP client per interface. A lease
    makes its engine (\<open>dumbarp\<close>) attach an XDP program and an egress classifier (\<open>dumbarp-ebpf\<close>) and fill their
    maps. The XDP program answers ARP requests for the address and stamps the host's id into the DSCP
    field of its traffic; the egress classifier restores the original DSCP in replies. The daemon keeps
    policy routes for its addresses (\<open>dumbarp-routing\<close>), a neighbour entry for each gateway (\<open>neigh.rs\<close>), and
    publishes its leases over HTTP (\<open>dumbarp-api\<close>).
  \<^item> The gateway (\<open>dumbarp-gateway\<close>) polls the daemons, keeps their last good answers in a cache, may route to
    them, and publishes the combined view. The router daemon (\<open>dumbarp-routerd\<close>) polls the gateway or the
    daemons, assigns ids, installs marked policy routes, and fills the map of its ingress classifier
    (\<open>dumbarp-routerd-ebpf\<close>), which turns a DSCP tag into the mark of the route.
  \<^item> The Kubernetes replicator (\<open>dumbarp-k8s\<close>) polls the daemons and keeps one address pool per lease.

  \<^bold>\<open>Theories and code.\<close> Records and datatypes carry the fields and constructors of the Rust types; a function
  that mutates its receiver takes and returns the state; \<open>Result\<close> is a sum with the error on the left;
  machine integers are words of their width.
  \<^item> \<open>Prelude\<close>: integer types, byte order, byte buffers, the hash map of the standard library as an
    association list (its iteration order is a parameter wherever the code iterates). \<open>Rust_Std\<close>: text,
    IPv4 addresses, durations. \<open>Btree\<close>: the ordered map, and the contract \<open>dictionary\<close> of both maps.
  \<^item> \<open>Common\<close>: \<open>dumbarp-common/src/lib.rs\<close>, the checksum update (contract \<open>csum_update\<close>), DSCP arithmetic, map
    keys. \<open>Ebpf\<close>: \<open>dumbarp-ebpf/src/main.rs\<close>, both programs on frames as byte lists. \<open>Routerd_Ebpf\<close>:
    \<open>dumbarp-routerd-ebpf/src/main.rs\<close>.
  \<^item> \<open>Sysfs\<close>: the readers of \<open>/sys/class/net\<close>. \<open>Engine\<close>: \<open>dumbarp/src/lib.rs\<close>; its state is \<open>Dumbarp\<close>, its runs are
    \<open>engine_run\<close>. \<open>Neigh\<close>: \<open>neigh.rs\<close>. \<open>Daemon\<close>: the rest of \<open>dumbarp-daemon\<close>; the concurrent DHCP tasks are the
    step relation \<open>dhcp_step\<close>, one step per critical section of the engine's or the leases' lock.
  \<^item> \<open>Api\<close>: wire records, client and cache (contracts \<open>round_store\<close>, \<open>named_sources\<close>). \<open>Http_Auth\<close>: the contract
    \<open>bearer_guard\<close>, which the guards of the daemon and of the gateway interpret. \<open>Routing\<close>:
    \<open>dumbarp-routing/src/lib.rs\<close>. \<open>Gateway\<close>, \<open>Routerd\<close> (contract \<open>id_assignment\<close>), \<open>K8s\<close>: the services.
  \<^item> The lives of the programs, from their \<open>main.rs\<close> and the timer tasks: \<open>Lifecycle\<close> (opening the netlink
    connection, and the contract \<open>tick_loop\<close> of a timer task, which the tasks of the router daemon, of the
    gateway and of the replicator interpret), \<open>Routerd_Main\<close>, \<open>Gateway_Main\<close> (ticks and requests as a list of
    events), \<open>Daemon_Main\<close> (the start, and the step relation \<open>host_step\<close> of the DHCP tasks beside the two
    halves of a routing refresh), \<open>Responder\<close> (the stand-alone program of \<open>dumbarp\<close>), \<open>K8s_Main\<close>.
  \<^item> \<open>Dhcp_Lease\<close>: \<open>dhcp-lease-read\<close>, the parser of dhclient's lease files over the combinator library (\<open>nom_laws\<close>)
    and the choice of the current lease.
  \<^item> \<open>Unit_Tests\<close>, \<open>Config_Tests\<close>: the test modules of the sources as predicates on the model, each shown to
    hold, so that the model agrees with the code where the code is tested.

  \<^bold>\<open>What is shown.\<close>
  \<^item> Data plane: which frames are answered and how, which packets are stamped and restored, that the
    incremental checksum equals a full recomputation and stays valid, that no frame is dropped, and
    that the router's classifier marks and counts exactly as documented.
  \<^item> Engine and daemon: in every reachable state the BPF maps match the attached interfaces; a failed
    attach leaves nothing behind; adding and removing undo each other; a recorded lease is answered for,
    if no interface is configured twice (a run where one is, and where it fails, is shown too);
    tags are in range in every state of a run; a refresh routes the leases it read, whatever the DHCP
    tasks do meanwhile. The prober's receive loop is characterised completely, including when it does
    not end. The stand-alone responder answers for its address and tags only with a valid id.
  \<^item> Control plane: the cache serves the latest fresh answer; a routing pass converges, is safe when
    requests fail and is idempotent; ids are never shared; what is published parses back; guards admit
    exactly the bearer token; every answered address gets its pool, and pools are pruned only for cause;
    a lease file is read completely up to the first statement its parser does not know, where the reader
    stops without an error.
  \<^item> Whole runs: the router daemon, the gateway and the daemon leave the policy rules of others alone, the
    replicator the pools of others; the router daemon cleans up its own, and a late pass of its timer
    task, which nothing stops, installs again all it wants after the teardown; a request to the gateway is
    answered with the latest fresh polls of the run.
  \<^item> This theory composes components: from the engine's maps to the answered request, from the
    daemon's tag to the router's mark, and from a recorded lease through the gateway to the route the
    router wants.

  \<^bold>\<open>Parameters and their laws.\<close> Code outside the sources is an argument: the kernel's BPF helpers
  (\<open>tc_helpers_ok\<close>, \<open>lru_insert_ok\<close>), the BPF library (\<open>bpf_laws\<close>), netlink (\<open>netlink_laws\<close>), sockets and the task
  runtime (\<open>sock_laws\<close>), the Kubernetes API (\<open>kube_laws\<close>), HTTP, JSON, TOML, files, the calendar. Each law
  has an instance in the development that satisfies it. The laws of the BPF library are about the
  repository's own object file, so that its maps and programs are found. Those of the Kubernetes API allow
  a failed request to have taken effect; they leave out finalizers, and writers other than the program
  while one of its passes runs.

  \<^bold>\<open>Bounds and fuel.\<close> No fuel is used. Loops over data are structural; the checksum fold has a
  termination proof; the prober's receive loop may run forever and is a partial function whose
  returning is part of its theorem. Timer loops are sequences of passes of any length.

  \<^bold>\<open>Not modelled.\<close> The build scripts, the command-line parsing and logging of the \<open>main.rs\<close> files, the parsing
  of HTTP requests by the web framework, and the wall clock. The run of the router
  daemon has passes before and after the teardown, but none whose requests fall between those of the
  teardown. The default listen addresses belong to the TOML decoders, which are parameters.
\<close>

section \<open>From the engine to the responder\<close>

text \<open>
  C1. An attached address is answered for. After a successful \<open>add_interface\<close>, when the XDP program runs
  over the maps the engine filled, the request for the address that a prober on the link sends is
  sent back as a reply, which the prober's parser accepts and from which it reads the MAC address
  that \<open>/sys\<close> gives for the interface.
\<close>

theorem attached_address_is_answered:
  assumes "engine_run A en st" "bpf_laws A vw" "fresh_ifindex rd iface st"
    and "add_interface A en rd iface ip d st = (Inr (), st')"
    and "env_endian env = en" "ethertype_arp env = u16_from_ne_bytes en (8, 6)"
    and "ARP_TABLE maps = vArp (vw (bpf st'))"
  shows "\<exists>x m d'. iface_ifindex rd iface = Inr x \<and> iface_mac rd iface = Inr m \<and>
    dumbarp env lru maps \<lparr>xdp_data = build_arp_request own src ip, ingress_ifindex = x\<rparr> =
      (XDP_TX, \<lparr>xdp_data = d', ingress_ifindex = x\<rparr>, maps) \<and>
    parse_arp_reply d' ip src = Some m"
proof (rule add_interface_success [OF assms(2) engine_run_inv [OF assms(1,2)] assms(3,4)])
  fix m x l tc
  let ?k = "\<lparr>ak_ifindex = x, ak_ip = u32_from_ne_bytes en ip\<rparr>" and ?v = "vw (bpf st)"
  assume m: "iface_mac rd iface = Inr m" and x: "iface_ifindex rd iface = Inr x"
    and tc: "case tc of
       None \<Rightarrow> d = None \<and> vw (bpf st') = ?v\<lparr>vXdp := (vXdp ?v)(l \<mapsto> iface), vArp := (vArp ?v)(?k \<mapsto> m)\<rparr>
     | Some t \<Rightarrow> \<exists>i len. d = Some i \<and> iface_l2_len rd iface = Inr len \<and> vTc ?v t = None \<and>
         vw (bpf st') = ?v\<lparr>vXdp := (vXdp ?v)(l \<mapsto> iface), vArp := (vArp ?v)(?k \<mapsto> m),
           vDscp := (vDscp ?v)(x \<mapsto> i), vL2 := (vL2 ?v)(x \<mapsto> len), vTc := (vTc ?v)(t \<mapsto> iface)\<rparr>"
  have "ARP_TABLE maps (arp_key env x ip) = Some m"
    using tc assms(5,7) by (auto simp: arp_key_def split: option.splits)
  then show ?thesis
    using probe_answered [of env maps x ip m lru own src] m x assms(5,6) by blast
qed

theorem attached_address_is_answered_witness:
  "\<exists>x m d' maps. dumbarp sample_env sample_lru maps
      \<lparr>xdp_data = build_arp_request (2, 0, 0, 0, 0, 9) (10, 0, 0, 9) (10, 0, 0, 1), ingress_ifindex = x\<rparr> =
      (XDP_TX, \<lparr>xdp_data = d', ingress_ifindex = x\<rparr>, maps) \<and>
    parse_arp_reply d' (10, 0, 0, 1) (10, 0, 0, 9) = Some m"
proof -
  obtain st1 where a: "add_interface (sim_aya True) LittleEndian sim_sysfs ''eth0'' (10, 0, 0, 1) (Some 5)
      \<lparr>bpf = (0, empty_view), attached = []\<rparr> = (Inr (), st1)" using sim_add_works by blast
  let ?maps = "\<lparr>ARP_TABLE = vArp (snd (bpf st1)), DSCP_ID = Map.empty, ORIG_DSCP = Map.empty, L2_LEN = Map.empty\<rparr>"
  have env: "env_endian sample_env = LittleEndian" "ethertype_arp sample_env = u16_from_ne_bytes LittleEndian (8, 6)"
    by (simp_all add: sample_env_def u16_from_be_bytes.simps)
  have maps: "ARP_TABLE ?maps = vArp (snd (bpf st1))" by simp
  show ?thesis
    using attached_address_is_answered [OF engine_run.created [OF sim_new] sim_aya_laws sim_fresh a env maps,
        of sample_lru "(2, 0, 0, 0, 0, 9)" "(10, 0, 0, 9)"] by blast
qed

section \<open>From the tag to the mark\<close>

text \<open>
  C2. A tag chooses its route. Let a router have finished a pass whose sync of the classifier's map
  reported no error, and let one of its wanted routes carry the mark of a daemon's id. When a packet
  that the daemon's XDP program stamps with this id reaches the router, with its TOS byte as stamped,
  the router's classifier gives it exactly the mark of that route.
\<close>

theorem stamped_packet_gets_mark:
  assumes "stamps env maps ctx did" "dumbarp env lru maps ctx = (act, ctx', maps')"
    and "iter_ok (re_iter_ids E)" "ids_map_laws (re_ids E) look"
    and "reconcile_once E cfg now1 now2 st s = (rep, st', s')" "pr_sync rep = Inr ()"
    and "sp \<in> set (pr_desired rep)" "sp_fwmark sp = Some (ucast did)"
    and "DSCP_IDS smaps = look (st_datapath st')" "st_protocol sctx = ucast et"
    and "rel 1 = (0, xdp_data ctx' ! 15)"
  shows "Some (st_mark (fst (snd (dumbarp_routerd et rel smaps sctx)))) = sp_fwmark sp"
proof -
  let ?tos = "tos_with_dscp (ip_tos (load_Ipv4Hdr (xdp_data ctx) 14)) did"
  have did: "did \<noteq> 0" "did \<le> DSCP_ID_MAX" "34 \<le> length (xdp_data ctx)"
    using assms(1) by (auto simp: stamps_def Let_def const_defs)
  have "xdp_data ctx' ! 15 = ?tos"
    using dumbarp_stamps [OF assms(1) refl refl, of lru] assms(2) did(3)
      retag_tos [of 14 "xdp_data ctx" csum_replace2 ?tos] by auto
  moreover have "drop_bit 2 ?tos = did" using did(2) by (rule tos_dscp_dscp)
  moreover have "look (st_datapath st') did = Some (ucast did)"
    using marked_id_synced [OF assms(3-8)] by (auto simp: ucast_u8_u32_inj)
  ultimately show ?thesis
    using assms(8-11) did(1)
    by (simp add: dumbarp_routerd_def steer_def load_net_u8_def Let_def IPV4_TOS_OFFSET_def)
qed

theorem stamped_packet_gets_mark_witness:
  "\<exists>rel smaps. Some (st_mark (fst (snd (dumbarp_routerd 8 rel smaps \<lparr>st_protocol = 8, st_mark = 0\<rparr>)))) = sp_fwmark sample_spec"
proof -
  let ?maps = "sample_maps\<lparr>DSCP_ID := [2 \<mapsto> 2]\<rparr>"
  have st: "stamps sample_env ?maps sample_packet 2"
    by (simp add: stamps_def sample_packet_def sample_maps_def ether_type_of_def sample_env_def
        header_defs u16_from_be_bytes.simps DSCP_ID_MAX_def tos_with_dscp_def)
  obtain act ctx' maps' where run: "dumbarp sample_env sample_lru ?maps sample_packet = (act, ctx', maps')"
    by (rule prod_cases3 [of "dumbarp sample_env sample_lru ?maps sample_packet"])
  have once: "reconcile_once sample_router_env sample_config 0 0 sample_state ([], []) =
      (fst sample_once, fst (snd sample_once), snd (snd sample_once))"
    by (simp add: sample_once_def)
  have it: "iter_ok (re_iter_ids sample_router_env)" unfolding sample_env by (simp add: iter_ok_def)
  have laws: "ids_map_laws (re_ids sample_router_env) hm_get" unfolding sample_env by (rule list_ids_map_laws)
  have sp: "sample_spec \<in> set (pr_desired (fst sample_once))" by (simp add: sample_once_eval)
  have mark: "sp_fwmark sample_spec = Some (ucast (2 :: u8))" by (simp add: sample_spec_def)
  let ?smaps = "\<lparr>DSCP_IDS = hm_get (st_datapath (fst (snd sample_once))), COUNTERS = Map.empty\<rparr>"
  let ?rel = "\<lambda>_. (0, xdp_data ctx' ! 15)"
  have "DSCP_IDS ?smaps = hm_get (st_datapath (fst (snd sample_once)))" by simp
  from stamped_packet_gets_mark [OF st run it laws once sample_once_eval(1) sp mark this,
      of "\<lparr>st_protocol = 8, st_mark = 0\<rparr>" 8 ?rel]
  show ?thesis by (intro exI [of _ ?rel] exI [of _ ?smaps]) simp
qed

section \<open>From the lease to the router\<close>

text \<open>The routes a page of the gateway parses to, for the daemons in their order.\<close>

lemma published_Some:
  "published view e = Some d \<longleftrightarrow> (\<exists>l. hm_get view (gd_name e) = Some l \<and>
     d = \<lparr>r_name = gd_name e, r_nexthop = gd_nexthop e, r_device = gd_device e,
          r_dumbarpd_id = l_dumbarpd_id l, r_ips = l_ips l\<rparr>)"
  by (auto simp: published_def)

lemma published_names:
  "distinct (map gd_name ds) \<Longrightarrow> distinct (map r_name (List.map_filter (published view) ds))"
proof (induction ds)
  case (Cons e ds)
  have "r_name a \<notin> r_name ` set (List.map_filter (published view) ds)" if "published view e = Some a" for a
    using Cons.prems that by (auto simp: set_map_filter_iff published_Some)
  with Cons show ?case by (cases "published view e") simp_all
qed simp

lemma daemon_granted:
  assumes "distinct (map gd_name ds)" "e \<in> set ds" "hm_get view (gd_name e) = Some l"
    and "l_dumbarpd_id l = Some did" "valid_id did"
    and "\<And>d l'. d \<in> set ds \<Longrightarrow> d \<noteq> e \<Longrightarrow> hm_get view (gd_name d) = Some l' \<Longrightarrow>
      candidate stale now (gd_name d) (l_dumbarpd_id l') rem \<noteq> Some did"
  shows "hm_get (fst (resolve_ids (map (\<lambda>d. (r_name d, r_dumbarpd_id d)) (List.map_filter (published view) ds)) rem stale now))
    (gd_name e) = Some did"
proof -
  let ?f = "\<lambda>d. (r_name d, r_dumbarpd_id d)"
  let ?adv = "\<lambda>ds. map ?f (List.map_filter (published view) ds)"
  obtain pre post where ds: "ds = pre @ e # post" using split_list [OF assms(2)] by blast
  have e: "?adv (e # post) = (gd_name e, Some did) # ?adv post"
    using assms(3,4) by (simp add: published_def)
  have "cand_of stale now rem x \<noteq> Some did" if "x \<in> set (?adv pre)" for x
  proof -
    from that obtain d l' where d: "d \<in> set pre" "hm_get view (gd_name d) = Some l'" "x = (gd_name d, l_dumbarpd_id l')"
      by (auto simp: set_map_filter_iff published_Some)
    then have "d \<noteq> e" using assms(1) ds by auto
    with assms(6) [of d l'] d ds show ?thesis by (simp add: cand_of_def)
  qed
  moreover have "?adv ds = ?adv pre @ (gd_name e, Some did) # ?adv post"
    using e by (simp add: ds map_filter_append)
  ultimately have "grants stale now rem (?adv ds) (gd_name e) did"
    using assms(5) unfolding grants_def by (intro exI conjI) (auto simp: candidate_def)
  moreover have "distinct (map fst (?adv ds))" using published_names [OF assms(1)] by (simp add: comp_def)
  ultimately show ?thesis by (simp add: resolve_ids_grants)
qed

text \<open>
  C3. A lease reaches the router. Let a daemon have recorded a lease. When the gateway polls it with its
  token, and the router then polls the gateway with its token, with HTTP delivering in both cases
  what the service answers, then the pass of the router wants a route for the leased address through the next
  hop the gateway is configured with for that daemon, on its device or the router's override for it; with
  source-based routing it has no mark, and otherwise the mark is the daemon's id, provided no other
  daemon the gateway publishes claims the id.
\<close>

theorem lease_reaches_router:
  assumes lease: "map_of (leases st) i = Some info"
    and gw: "gw_load read_to_string from_toml path = Inr cfg" "gc_serve cfg = Some serve" "e \<in> set (gc_daemons cfg)"
    and http1: "\<And>r. http_router st GetLeases (Some (Inr (''Bearer '' @ gd_auth_token e))) = Answer (LeasesPage r) \<Longrightarrow>
      get_json (gw_http w) (gw_json w) (gd_endpoint e) ''leases'' (gd_auth_token e) = Inr r"
    and token1: "gd_auth_token e = st_auth_token st"
    and tick: "gw_tick cfg router w x = (cached, s1)"
    and rt: "gateway rcfg = Some g" "ge_auth_token g = serve_auth_token serve"
    and http2: "\<And>r. gw_router \<lparr>ss_cfg = cfg, ss_state = cached, ss_auth_token = serve_auth_token serve\<rparr> GetDaemons
        (Some (Inr (''Bearer '' @ ge_auth_token g))) = Answer (DaemonsPage r) \<Longrightarrow>
      get_json (re_http E) (re_json_daemons E) (ge_endpoint g) ''daemons'' (ge_auth_token g) = Inr r"
    and pass: "reconcile_once E rcfg now1 now2 rst s2 = (rep, rst', s3)"
    and id: "source_based_routing rcfg \<or> st_dumbarpd_id st = Some did \<and> did \<noteq> 0 \<and> did \<le> DSCP_ID_MAX \<and>
      (\<forall>d \<in> set (gc_daemons cfg). \<forall>l. d \<noteq> e \<longrightarrow> hm_get (snapshot cached) (gd_name d) = Some l \<longrightarrow>
         candidate (from_secs (stale_after_secs rcfg)) now2 (gd_name d) (l_dumbarpd_id l) (st_known_ids rst) \<noteq> Some did)"
  shows "\<lparr>sp_src = li_ip info, sp_gateway = gd_nexthop e,
      sp_iface = (case hm_get (ge_device_overrides g) (gd_name e) of Some dev \<Rightarrow> dev | None \<Rightarrow> gd_device e),
      sp_fwmark = (if source_based_routing rcfg then None else Some (ucast did))\<rparr> \<in> set (pr_desired rep)"
proof -
  let ?l = "\<lparr>l_ips = map (\<lambda>(iface, l). li_ip l) (leases st), l_dumbarpd_id = st_dumbarpd_id st\<rparr>"
  let ?view = "snapshot cached" and ?rem = "st_known_ids rst" and ?stale = "from_secs (stale_after_secs rcfg)"
  let ?routes = "List.map_filter (published ?view) (gc_daemons cfg)"
  let ?ids = "fst (resolve_ids (map (\<lambda>d. (r_name d, r_dumbarpd_id d)) ?routes) ?rem ?stale now2)"
  note ok = gw_load_ok [OF gw(1), unfolded check_config_iff]
  have dev: "\<forall>d \<in> set (gc_daemons cfg). gd_device d \<noteq> []" and names: "distinct (map gd_name (gc_daemons cfg))"
    using ok by (simp_all add: check_daemons_iff)
  have "http_router st GetLeases (Some (Inr (''Bearer '' @ gd_auth_token e))) = Answer (LeasesPage (leases_handler st))"
    by (simp add: leases_page token1)
  then have "gw_fetch (gw_http w) (gw_json w) e = Inr ?l"
    by (simp add: gw_fetch_def fetch_leases_def http1 leases_handler_parse)
  then have served: "hm_get ?view (gd_name e) = Some ?l"
    using gw_entries.round_served [OF _ gw(3), where f = "gw_fetch (gw_http w) (gw_json w)" and v = ?l
        and now = "gw_now w" and stale = "from_secs (gc_stale_after_secs cfg)" and c = "fst x"] ok tick
    using gw_tick_cache [of cfg router w x] by (simp add: run_rounds_def gw_round_def)
  have "fetch_daemons (re_http E) (re_json_daemons E) (ge_endpoint g) (ge_auth_token g) GATEWAY_CACHE_KEY = Inr ?routes"
    using http2 [of "daemons_handler cfg cached"] daemons_handler_parse [OF dev, of cached GATEWAY_CACHE_KEY]
    by (simp add: fetch_daemons_def gw_router_def gw_auth.guard_eq rt(2))
  note want = gateway_pass_wants [OF rt(1) pass this]
  let ?d = "\<lparr>r_name = gd_name e, r_nexthop = gd_nexthop e, r_device = gd_device e,
    r_dumbarpd_id = l_dumbarpd_id ?l, r_ips = l_ips ?l\<rparr>"
  have d: "?d \<in> set ?routes" unfolding set_map_filter_iff published_Some using served gw(3) by blast
  have ip: "li_ip info \<in> set (r_ips ?d)" using map_of_SomeD [OF lease] by force
  have "mark_for (source_based_routing rcfg) ?ids (r_name ?d) =
      Some (if source_based_routing rcfg then None else Some (ucast did))"
    using id daemon_granted [OF names gw(3) served, of did ?stale now2 ?rem]
    by (auto simp: mark_for_def valid_id_def)
  with d ip show ?thesis unfolding want gateway_specs_iff by (intro bexI [of _ ?d]) (auto split: option.split)
qed

text \<open>A daemon with one lease, polled by the gateway of the example configuration, itself polled by a router.\<close>

definition sample_app :: "(unit, unit, unit) AppState" where
  "sample_app = \<lparr>st_auth_token = ''tok'', engine = \<lparr>bpf = (), attached = []\<rparr>,
     leases = [(''eth0'', \<lparr>li_ip = (1, 2, 3, 4), li_gateway = (1, 2, 3, 1)\<rparr>)], st_dumbarpd_id = Some 7\<rparr>"

definition sample_poll :: "(string, string) gw_world" where
  "sample_poll = (sample_world [] 0)\<lparr>gw_json := \<lambda>u. if u = ''u1'' then Some (leases_handler sample_app) else None\<rparr>"

definition sample_gateway_mode :: "unit Config" where
  "sample_gateway_mode = sample_config\<lparr>gateway := Some \<lparr>ge_endpoint = (), ge_auth_token = ''s'', ge_device_overrides = []\<rparr>\<rparr>"

theorem lease_reaches_router_witness:
  "\<exists>(E :: (unit, LeasesResponse, (u8, u32) hashmap, list_kernel) router_env) rep st' s'. reconcile_once E sample_gateway_mode 0 0 sample_state ([], []) = (rep, st', s') \<and>
     \<lparr>sp_src = (1, 2, 3, 4), sp_gateway = (10, 0, 0, 5), sp_iface = ''br0'', sp_fwmark = Some 7\<rparr> \<in> set (pr_desired rep)"
proof -
  let ?serve = "\<lparr>listen = (), serve_auth_token = ''s''\<rparr>"
  let ?e = "\<lparr>gd_name = ''homelab'', gd_endpoint = ''u1'', gd_auth_token = ''tok'', gd_nexthop = (10, 0, 0, 5), gd_device = ''br0''\<rparr>"
  let ?g = "\<lparr>ge_endpoint = (), ge_auth_token = ''s'', ge_device_overrides = []\<rparr>"
  let ?x = "gw_tick sample_serving (None :: list_kernel netlink option) sample_poll (Cache_default, ([], []))"
  let ?E = "sample_router_env\<lparr>re_http := \<lparr>url_join = \<lambda>u p. Some u, send_get = \<lambda>u t. Some \<lparr>lr_ips = [], lr_dumbarpd_id = None\<rparr>,
    error_for_status = Some\<rparr>, re_json_daemons := \<lambda>_. Some (daemons_handler sample_serving (fst ?x))\<rparr>"
  let ?r = "reconcile_once ?E sample_gateway_mode 0 0 sample_state ([], [])"
  have cfg: "gc_serve sample_serving = Some ?serve" "?e \<in> set (gc_daemons sample_serving)"
    by (simp_all add: sample_serving_def sample_gw_config_def)
  have http1: "get_json (gw_http sample_poll) (gw_json sample_poll) (gd_endpoint ?e) ''leases'' (gd_auth_token ?e) = Inr r"
    if "http_router sample_app GetLeases (Some (Inr (''Bearer '' @ gd_auth_token ?e))) = Answer (LeasesPage r)" for r
    using that by (simp add: leases_page sample_app_def get_json_def sample_poll_def sample_world_def)
  have http2: "get_json (re_http ?E) (re_json_daemons ?E) (ge_endpoint ?g) ''daemons'' (ge_auth_token ?g) = Inr r"
    if "gw_router \<lparr>ss_cfg = sample_serving, ss_state = fst ?x, ss_auth_token = serve_auth_token ?serve\<rparr> GetDaemons
        (Some (Inr (''Bearer '' @ ge_auth_token ?g))) = Answer (DaemonsPage r)" for r
    using that by (simp add: gw_router_def gw_auth.guard_eq get_json_def)
  have round: "gw_round sample_serving sample_poll =
      (0, [(''homelab'', Inr \<lparr>l_ips = [(1, 2, 3, 4)], l_dumbarpd_id = Some 7\<rparr>), (''edge'', Inl (BadJson ''leases''))])"
    by code_simp
  have others: "hm_get (snapshot (fst ?x)) ''edge'' = None"
    by (simp add: gw_tick_cache round run_rounds_def apply_round_def apply_result_def Cache_default_def snapshot_def)
  have id: "source_based_routing sample_gateway_mode \<or> st_dumbarpd_id sample_app = Some 7 \<and> (7 :: u8) \<noteq> 0 \<and> 7 \<le> DSCP_ID_MAX \<and>
      (\<forall>d \<in> set (gc_daemons sample_serving). \<forall>l. d \<noteq> ?e \<longrightarrow> hm_get (snapshot (fst ?x)) (gd_name d) = Some l \<longrightarrow>
         candidate (from_secs (stale_after_secs sample_gateway_mode)) 0 (gd_name d) (l_dumbarpd_id l) (st_known_ids sample_state) \<noteq> Some 7)"
    using others by (simp add: sample_app_def DSCP_ID_MAX_def sample_serving_def sample_gw_config_def)
  have lease: "map_of (leases sample_app) ''eth0'' = Some \<lparr>li_ip = (1, 2, 3, 4), li_gateway = (1, 2, 3, 1)\<rparr>"
    and token: "gd_auth_token ?e = st_auth_token sample_app" "ge_auth_token ?g = serve_auth_token ?serve"
    and mode: "gateway sample_gateway_mode = Some ?g" "\<not> source_based_routing sample_gateway_mode"
    by (simp_all add: sample_app_def sample_gateway_mode_def sample_config_def)
  have tick: "?x = (fst ?x, snd ?x)" by simp
  obtain rep st' s' where pass: "?r = (rep, st', s')" by (rule prod_cases3)
  have "\<lparr>sp_src = (1, 2, 3, 4), sp_gateway = (10, 0, 0, 5), sp_iface = ''br0'', sp_fwmark = Some 7\<rparr> \<in> set (pr_desired rep)"
    using lease_reaches_router [OF lease sample_serving_loads cfg http1 token(1) tick mode(1) token(2) http2 pass id] mode(2)
    by simp
  with pass show ?thesis by blast
qed

end
